(* ===== verification/Prelude.thy ===== *)
theory Prelude
  imports Complex_Main "HOL-Library.Word" "HOL-Library.Signed_Division"
begin

text \<open>
  What every component of the model shares: results that may be an error and their
  sequencing, HTTP answers, Go's machine integers and instants, the decimal texts of
  \<open>strconv\<close>, and the SQL statement shapes (select, update, delete) on a table.

  A Go \<open>time.Time\<close> is an \<open>int\<close>, the nanoseconds since the Unix epoch; a
  \<open>time.Duration\<close> is an \<open>int\<close> of nanoseconds; a TEXT timestamp of the data base
  (always RFC3339, UTC, whole seconds) is the \<open>int\<close> of its Unix second. A Go string is
  the list of its bytes.
\<close>

named_theorems run_simps "elimination of successful and failed runs"

section \<open>Results and their sequencing\<close>

text \<open>
  A step that may fail returns \<open>Inl\<close> the error or \<open>Inr\<close> the result; \<open>bindE\<close> is the
  early return of \<open>if err != nil { return ..., err }\<close>.
\<close>

definition bindE :: "'e + 'a \<Rightarrow> ('a \<Rightarrow> 'e + 'b) \<Rightarrow> 'e + 'b" where
  "bindE r f = (case r of Inl e \<Rightarrow> Inl e | Inr x \<Rightarrow> f x)"

definition checkE :: "bool \<Rightarrow> 'e \<Rightarrow> 'a \<Rightarrow> 'e + 'a" where
  "checkE b e x = (if b then Inr x else Inl e)"

lemma bindE_simps [simp]:
  "bindE (Inl e) f = Inl e"
  "bindE (Inr x) f = f x"
  by (simp_all add: bindE_def)

lemma bindE_eq_Inr [run_simps]:
  "bindE r f = Inr y \<longleftrightarrow> (\<exists>x. r = Inr x \<and> f x = Inr y)"
  by (cases r) simp_all

lemma bindE_eq_Inl [run_simps]:
  "bindE r f = Inl e \<longleftrightarrow> r = Inl e \<or> (\<exists>x. r = Inr x \<and> f x = Inl e)"
  by (cases r) auto

lemma if_Inl_eq_Inr [run_simps]: "(if b then Inl e else r) = Inr y \<longleftrightarrow> \<not> b \<and> r = Inr y"
  by simp

lemma checkE_simps [simp]:
  "checkE True e x = Inr x"
  "checkE False e x = Inl e"
  by (simp_all add: checkE_def)

lemma checkE_eq_Inr [run_simps]: "checkE b e x = Inr y \<longleftrightarrow> b \<and> x = y"
  by (auto simp: checkE_def)

lemma checkE_eq_Inl [run_simps]: "checkE b e x = Inl e' \<longleftrightarrow> \<not> b \<and> e = e'"
  by (auto simp: checkE_def)

section \<open>Runs on a state\<close>

text \<open>A step returns its result and the new state, also when it fails: nothing is rolled back.\<close>

definition bindS :: "('e + 'a) \<times> 's \<Rightarrow> ('a \<Rightarrow> 's \<Rightarrow> ('e + 'b) \<times> 's) \<Rightarrow> ('e + 'b) \<times> 's" where
  "bindS r f = (case r of (Inl e, s) \<Rightarrow> (Inl e, s) | (Inr x, s) \<Rightarrow> f x s)"

definition failS :: "'e \<Rightarrow> ('d + 'a) \<times> 's \<Rightarrow> ('e + 'a) \<times> 's" where
  "failS e r = (case r of (Inl _, s) \<Rightarrow> (Inl e, s) | (Inr x, s) \<Rightarrow> (Inr x, s))"

lemma bindS_simps [simp]: "bindS (Inl e, s) f = (Inl e, s)" "bindS (Inr x, s) f = f x s"
  by (simp_all add: bindS_def)

lemma failS_simps [simp]: "failS e (Inl d, s) = (Inl e, s)" "failS e (Inr x, s) = (Inr x, s)"
  by (simp_all add: failS_def)

lemma bindS_eq_Inr [run_simps]:
  "bindS r f = (Inr y, s') \<longleftrightarrow> (\<exists>x s. r = (Inr x, s) \<and> f x s = (Inr y, s'))"
  by (auto simp: bindS_def split: prod.splits sum.splits)

lemma failS_eq_Inr [run_simps]: "failS e r = (Inr x, s) \<longleftrightarrow> r = (Inr x, s)"
  by (auto simp: failS_def split: prod.splits sum.splits)

lemma snd_failS [simp]: "snd (failS e r) = snd r"
  by (auto simp: failS_def split: prod.splits sum.splits)

text \<open>What every step keeps, a run keeps.\<close>

lemma bindS_preserve:
  assumes "P (snd r)" and "\<And>x s. r = (Inr x, s) \<Longrightarrow> P s \<Longrightarrow> P (snd (f x s))"
  shows "P (snd (bindS r f))"
  using assms by (cases r; cases "fst r") auto

text \<open>
  The faults of a request: \<open>ft k\<close> says that the driver fails the \<open>k\<close>-th data base call
  of the operation (connection lost, disk full, context cancelled).
\<close>

type_synonym faults = "nat \<Rightarrow> bool"

text \<open>The clock of a request: \<open>clk k\<close> is the \<open>k\<close>-th reading of the time it makes.\<close>

type_synonym clock = "nat \<Rightarrow> int"

section \<open>HTTP answers\<close>

text \<open>
  What a handler sends: a 2xx status with its JSON body, or an error status with the
  \<open>code\<close> field of its JSON body.
\<close>

datatype 'a answer = OK 'a | Reject int string

fun status_of :: "'a answer \<Rightarrow> int" where
  "status_of (OK _) = 200"
| "status_of (Reject s _) = s"

abbreviation internal_error :: "'a answer" where
  "internal_error \<equiv> Reject 500 ''INTERNAL_ERROR''"

abbreviation unavailable :: "'a answer" where
  "unavailable \<equiv> Reject 503 ''SERVICE_UNAVAILABLE''"

section \<open>Machine integers and instants\<close>

text \<open>Go's \<open>int\<close> and \<open>int64\<close> wrap around; \<open>wrap64\<close> is the value kept in 64 bits.\<close>

definition wrap64 :: "int \<Rightarrow> int" where
  "wrap64 x = (x + 2 ^ 63) mod 2 ^ 64 - 2 ^ 63"

lemma wrap64_range: "- (2 ^ 63) \<le> wrap64 x \<and> wrap64 x < 2 ^ 63"
  by (simp add: wrap64_def)

lemma wrap64_id: "- (2 ^ 63) \<le> x \<Longrightarrow> x < 2 ^ 63 \<Longrightarrow> wrap64 x = x"
  by (simp add: wrap64_def)

lemma wrap64_cong: "wrap64 x mod 2 ^ 64 = x mod 2 ^ 64"
  by (simp add: wrap64_def mod_diff_left_eq)

definition second :: int where
  "second = 1000000000"

lemma second_pos [simp]: "0 < second"
  by (simp add: second_def)

lemma second_nonneg [simp]: "0 \<le> second"
  by (simp add: second_def)

text \<open>\<open>Time.Unix\<close>, and the text \<open>Format(time.RFC3339)\<close> of an instant: its second.\<close>

definition unix :: "int \<Rightarrow> int" where
  "unix t = t div second"

text \<open>The instant that a TEXT timestamp denotes.\<close>

definition of_unix :: "int \<Rightarrow> int" where
  "of_unix s = s * second"

text \<open>\<open>Time.Truncate(time.Second)\<close>.\<close>

definition truncate_second :: "int \<Rightarrow> int" where
  "truncate_second t = of_unix (unix t)"

text \<open>\<open>Time.Sub\<close> saturates at the least and the greatest \<open>Duration\<close>.\<close>

definition time_sub :: "int \<Rightarrow> int \<Rightarrow> int" where
  "time_sub a b = max (- (2 ^ 63)) (min (2 ^ 63 - 1) (a - b))"

text \<open>Go's integer division truncates toward zero (\<open>sdiv\<close>).\<close>

lemma sdiv_nonneg: "0 \<le> a \<Longrightarrow> 0 < b \<Longrightarrow> a sdiv b = a div (b :: int)"
  by (cases "a = 0") (simp_all add: signed_divide_int_def)

lemma sdiv_nonpos: "a \<le> 0 \<Longrightarrow> 0 < b \<Longrightarrow> a sdiv b \<le> (0 :: int)"
  by (cases "a = 0") (simp_all add: signed_divide_int_def pos_imp_zdiv_nonneg_iff)

lemma sdiv_pos_iff: "0 < b \<Longrightarrow> 0 < a sdiv b \<longleftrightarrow> b \<le> (a :: int)"
proof -
  assume b: "0 < b"
  show ?thesis
  proof (cases "0 \<le> a")
    case True
    then show ?thesis using b by (simp add: sdiv_nonneg pos_imp_zdiv_pos_iff)
  next
    case False
    then show ?thesis using b sdiv_nonpos [of a b] by simp
  qed
qed

lemma unix_of_unix [simp]: "unix (of_unix s) = s"
  by (simp add: unix_def of_unix_def second_def)

lemma unix_truncate [simp]: "unix (truncate_second t) = unix t"
  by (simp add: truncate_second_def)

lemma unix_mono: "a \<le> b \<Longrightarrow> unix a \<le> unix b"
  by (simp add: unix_def zdiv_mono1)

lemma of_unix_unix_le: "of_unix (unix t) \<le> t"
  by (simp add: of_unix_def unix_def second_def)

lemma unix_less_iff: "unix t < s \<longleftrightarrow> t < of_unix s"
  by (auto simp: unix_def of_unix_def second_def)

lemma of_unix_less_iff [simp]: "of_unix a < of_unix b \<longleftrightarrow> a < b"
  by (simp add: of_unix_def)

lemma of_unix_le_iff [simp]: "of_unix a \<le> of_unix b \<longleftrightarrow> a \<le> b"
  by (simp add: of_unix_def)

lemma unix_add_seconds: "unix (t + s * second) = unix t + s"
  by (simp add: unix_def second_def)

section \<open>Decimal texts\<close>

text \<open>\<open>strconv.FormatInt(n, 10)\<close> and \<open>strconv.ParseInt(s, 10, 64)\<close>.\<close>

definition digit_char :: "nat \<Rightarrow> char" where
  "digit_char d = char_of (48 + d)"

fun show_nat :: "nat \<Rightarrow> string" where
  "show_nat n = (if n < 10 then [digit_char n] else show_nat (n div 10) @ [digit_char (n mod 10)])"

declare show_nat.simps [simp del]

definition show_int :: "int \<Rightarrow> string" where
  "show_int n = (if n < 0 then CHR ''-'' # show_nat (nat (- n)) else show_nat (nat n))"

definition digit_val :: "char \<Rightarrow> nat option" where
  "digit_val c = (let v = (of_char c :: nat) in if 48 \<le> v \<and> v \<le> 57 then Some (v - 48) else None)"

fun read_digits :: "nat \<Rightarrow> string \<Rightarrow> nat option" where
  "read_digits acc [] = Some acc"
| "read_digits acc (c # cs) =
     (case digit_val c of None \<Rightarrow> None | Some d \<Rightarrow> read_digits (10 * acc + d) cs)"

definition read_nat :: "string \<Rightarrow> nat option" where
  "read_nat s = (if s = [] then None else read_digits 0 s)"

definition in_int64 :: "int \<Rightarrow> int option" where
  "in_int64 n = (if - (2 ^ 63) \<le> n \<and> n < 2 ^ 63 then Some n else None)"

fun parse_int64 :: "string \<Rightarrow> int option" where
  "parse_int64 [] = None"
| "parse_int64 (c # cs) =
     (if c = CHR ''-'' then Option.bind (read_nat cs) (\<lambda>n. in_int64 (- int n))
      else if c = CHR ''+'' then Option.bind (read_nat cs) (\<lambda>n. in_int64 (int n))
      else Option.bind (read_nat (c # cs)) (\<lambda>n. in_int64 (int n)))"

text \<open>
  \<open>strconv.Atoi\<close> with its error ignored: 0 for a text that is no number, the nearest \<open>int\<close> for
  one out of range.
\<close>

fun read_signed :: "string \<Rightarrow> int option" where
  "read_signed [] = None"
| "read_signed (c # cs) =
     (if c = CHR ''-'' then map_option (\<lambda>n. - int n) (read_nat cs)
      else if c = CHR ''+'' then map_option int (read_nat cs)
      else map_option int (read_nat (c # cs)))"

definition Atoi :: "string \<Rightarrow> int" where
  "Atoi s = (case read_signed s of None \<Rightarrow> 0 | Some n \<Rightarrow> max (- (2 ^ 63)) (min (2 ^ 63 - 1) n))"

lemma of_char_digit_char: "d < 10 \<Longrightarrow> (of_char (digit_char d) :: nat) = 48 + d"
  by (simp add: digit_char_def)

lemma digit_val_digit_char [simp]: "d < 10 \<Longrightarrow> digit_val (digit_char d) = Some d"
  by (simp add: digit_val_def of_char_digit_char)

lemma read_digits_append:
  "read_digits acc (xs @ ys) = Option.bind (read_digits acc xs) (\<lambda>a. read_digits a ys)"
  by (induction xs arbitrary: acc) (auto split: option.split)

lemma show_nat_nonempty [simp]: "show_nat n \<noteq> []"
  by (subst show_nat.simps) simp

lemma read_digits_show_nat: "read_digits 0 (show_nat n) = Some n"
proof (induction n rule: show_nat.induct)
  case (1 n)
  show ?case
  proof (cases "n < 10")
    case True
    then show ?thesis by (subst show_nat.simps) simp
  next
    case False
    with "1" have "read_digits 0 (show_nat (n div 10)) = Some (n div 10)" by simp
    with False show ?thesis
      by (subst show_nat.simps) (simp add: read_digits_append)
  qed
qed

lemma read_nat_show_nat [simp]: "read_nat (show_nat n) = Some n"
  by (simp add: read_nat_def read_digits_show_nat)

lemma hd_show_nat_digit: "\<exists>d < 10. hd (show_nat n) = digit_char d"
proof (induction n rule: show_nat.induct)
  case (1 n)
  show ?case
  proof (cases "n < 10")
    case True
    then show ?thesis by (subst show_nat.simps) auto
  next
    case False
    with "1" obtain d where "d < 10" and "hd (show_nat (n div 10)) = digit_char d" by auto
    with False show ?thesis by (subst show_nat.simps) auto
  qed
qed

lemma digit_char_not_sign: "d < 10 \<Longrightarrow> digit_char d \<noteq> CHR ''-'' \<and> digit_char d \<noteq> CHR ''+''"
proof -
  assume "d < 10"
  then have "(of_char (digit_char d) :: nat) = 48 + d" by (rule of_char_digit_char)
  moreover have "(of_char (CHR ''-'') :: nat) = 45" and "(of_char (CHR ''+'') :: nat) = 43" by simp_all
  ultimately show ?thesis by auto
qed

lemma parse_int64_show_nat: "parse_int64 (show_nat n) = in_int64 (int n)"
proof -
  obtain c cs where s: "show_nat n = c # cs" by (cases "show_nat n") auto
  from hd_show_nat_digit [of n] s obtain d where "d < 10" and "c = digit_char d" by auto
  with digit_char_not_sign have "c \<noteq> CHR ''-''" and "c \<noteq> CHR ''+''" by auto
  moreover have "read_nat (c # cs) = Some n" using read_nat_show_nat [of n] s by simp
  ultimately show ?thesis unfolding s by simp
qed

text \<open>Formatting and parsing a counter: a round trip for every 64-bit value.\<close>

lemma parse_int64_show_int:
  assumes "- (2 ^ 63) \<le> n" and "n < 2 ^ 63"
  shows "parse_int64 (show_int n) = Some n"
proof (cases "n < 0")
  case True
  with assms show ?thesis
    by (simp add: show_int_def in_int64_def)
next
  case False
  with assms show ?thesis
    by (simp add: show_int_def parse_int64_show_nat in_int64_def)
qed

lemma read_signed_show_int: "read_signed (show_int n) = Some n"
proof (cases "n < 0")
  case True
  then show ?thesis by (simp add: show_int_def)
next
  case False
  obtain c cs where s: "show_nat (nat n) = c # cs" by (cases "show_nat (nat n)") auto
  from hd_show_nat_digit [of "nat n"] s obtain d where "d < 10" and "c = digit_char d" by auto
  with digit_char_not_sign have c: "c \<noteq> CHR ''-''" "c \<noteq> CHR ''+''" by auto
  have "read_nat (c # cs) = Some (nat n)" using read_nat_show_nat [of "nat n"] s by simp
  with False c show ?thesis by (simp add: show_int_def s)
qed

lemma Atoi_show_int: "- (2 ^ 63) \<le> n \<Longrightarrow> n < 2 ^ 63 \<Longrightarrow> Atoi (show_int n) = n"
  by (simp add: Atoi_def read_signed_show_int)

section \<open>Statements on a table\<close>

text \<open>
  A table is the list of its rows in \<open>rowid\<close> order. \<open>QueryRow\<close> with a WHERE clause is
  \<open>find\<close>; UPDATE, DELETE and the number of affected rows follow.
\<close>

definition sql_update :: "('r \<Rightarrow> bool) \<Rightarrow> ('r \<Rightarrow> 'r) \<Rightarrow> 'r list \<Rightarrow> 'r list" where
  "sql_update P f t = map (\<lambda>r. if P r then f r else r) t"

definition sql_affected :: "('r \<Rightarrow> bool) \<Rightarrow> 'r list \<Rightarrow> nat" where
  "sql_affected P t = length (filter P t)"

definition sql_delete :: "('r \<Rightarrow> bool) \<Rightarrow> 'r list \<Rightarrow> 'r list" where
  "sql_delete P t = filter (\<lambda>r. \<not> P r) t"

lemma length_sql_update [simp]: "length (sql_update P f t) = length t"
  by (simp add: sql_update_def)

lemma sql_update_Nil [simp]: "sql_update P f [] = []"
  by (simp add: sql_update_def)

lemma sql_update_Cons [simp]:
  "sql_update P f (r # t) = (if P r then f r else r) # sql_update P f t"
  by (simp add: sql_update_def)

lemma sql_affected_0_iff: "sql_affected P t = 0 \<longleftrightarrow> (\<forall>r \<in> set t. \<not> P r)"
  by (simp add: sql_affected_def filter_empty_conv)

lemma sql_update_none: "sql_affected P t = 0 \<Longrightarrow> sql_update P f t = t"
  by (simp add: sql_affected_0_iff sql_update_def map_idI)

lemma set_sql_update: "set (sql_update P f t) = f ` {r \<in> set t. P r} \<union> {r \<in> set t. \<not> P r}"
  by (auto simp: sql_update_def)

lemma map_key_sql_update:
  "(\<And>r. P r \<Longrightarrow> key (f r) = key r) \<Longrightarrow> map key (sql_update P f t) = map key t"
  by (simp add: sql_update_def)

lemma filter_sql_update_other:
  "(\<And>r. P r \<Longrightarrow> \<not> Q r \<and> \<not> Q (f r)) \<Longrightarrow> filter Q (sql_update P f t) = filter Q t"
  by (induction t) auto

lemma find_sql_update_other:
  "(\<And>r. P r \<Longrightarrow> \<not> Q r \<and> \<not> Q (f r)) \<Longrightarrow> find Q (sql_update P f t) = find Q t"
  by (induction t) auto

lemma find_None_conv: "find P t = None \<longleftrightarrow> (\<forall>r \<in> set t. \<not> P r)"
  by (auto simp: find_None_iff)

lemma find_SomeD: "find P t = Some r \<Longrightarrow> r \<in> set t \<and> P r"
  by (induction t) (auto split: if_splits)

lemma find_append: "find P (s @ t) = (case find P s of None \<Rightarrow> find P t | Some r \<Rightarrow> Some r)"
  by (induction s) simp_all

text \<open>A key lookup: the row found is the only one with that key.\<close>

lemma find_key:
  assumes "distinct (map key t)" and "r \<in> set t"
  shows "find (\<lambda>x. key x = key r) t = Some r"
  using assms by (induction t) force+

lemma sql_affected_key:
  assumes "distinct (map key t)"
  shows "sql_affected (\<lambda>r. key r = k \<and> P r) t \<le> 1"
proof -
  have "filter (\<lambda>r. key r = k \<and> P r) t = filter P (filter (\<lambda>r. key r = k) t)" by (simp add: conj_commute)
  moreover have "length (filter (\<lambda>r. key r = k) t) \<le> 1"
    using assms by (induction t) (auto simp: filter_empty_conv image_iff)
  ultimately show ?thesis
    unfolding sql_affected_def by (metis length_filter_le order_trans)
qed

end
