(* ===== verification/KvStore.thy ===== *)
theory KvStore
  imports Prelude "HOL-Library.AList"
begin

text \<open>
  The key-value store interface (\<open>pkg/kvstore/kvstore.go\<close>) and its in-memory provider
  (\<open>pkg/kvstore/memory.go\<close>). The Go interface value is the record \<open>kv_ops\<close> of its
  methods over the store's state; the clients (sessions, refresh tokens, rate limiter, retry
  queue) take such a record, as the Go code takes a \<open>kvstore.KVStore\<close>. The locales say what
  clients may rely on; \<open>MemStore\<close> is their provider here. The Redis adapter is in \<open>Services\<close>.

  Each method takes the instant at which it reads the clock, in nanoseconds.
\<close>

section \<open>The interface\<close>

datatype kv_error = NotFound | KvFail

type_synonym 'a kv_result = "kv_error + 'a"

record 's kv_ops =
  kv_get :: "int \<Rightarrow> string \<Rightarrow> 's \<Rightarrow> string kv_result \<times> 's"
  kv_set :: "int \<Rightarrow> string \<Rightarrow> string \<Rightarrow> int \<Rightarrow> 's \<Rightarrow> unit kv_result \<times> 's"
  kv_setnx :: "int \<Rightarrow> string \<Rightarrow> string \<Rightarrow> int \<Rightarrow> 's \<Rightarrow> bool kv_result \<times> 's"
  kv_del :: "string list \<Rightarrow> 's \<Rightarrow> unit kv_result \<times> 's"
  kv_exists :: "int \<Rightarrow> string \<Rightarrow> 's \<Rightarrow> bool kv_result \<times> 's"
  kv_incrby :: "int \<Rightarrow> string \<Rightarrow> int \<Rightarrow> 's \<Rightarrow> int kv_result \<times> 's"
  kv_expire :: "int \<Rightarrow> string \<Rightarrow> int \<Rightarrow> 's \<Rightarrow> unit kv_result \<times> 's"
  kv_lpush :: "string \<Rightarrow> string \<Rightarrow> 's \<Rightarrow> unit kv_result \<times> 's"
  kv_rpush :: "string \<Rightarrow> string \<Rightarrow> 's \<Rightarrow> unit kv_result \<times> 's"
  kv_rpop :: "string \<Rightarrow> 's \<Rightarrow> string kv_result \<times> 's"

section \<open>The in-memory store\<close>

record kv_entry =
  val :: string
  expiresAt :: "int option"

record mem_store =
  kv :: "(string \<times> kv_entry) list"
  lists :: "string \<Rightarrow> string list"

definition expired :: "int \<Rightarrow> kv_entry \<Rightarrow> bool" where
  "expired now e = (case expiresAt e of None \<Rightarrow> False | Some t \<Rightarrow> t < now)"

definition NewMemStore :: mem_store where
  "NewMemStore = \<lparr>kv = [], lists = (\<lambda>_. [])\<rparr>"

definition getEntry :: "int \<Rightarrow> string \<Rightarrow> mem_store \<Rightarrow> kv_entry option \<times> mem_store" where
  "getEntry now key m =
     (case map_of (kv m) key of
        None \<Rightarrow> (None, m)
      | Some e \<Rightarrow>
          if expired now e then (None, m\<lparr>kv := AList.delete key (kv m)\<rparr>) else (Some e, m))"

definition new_entry :: "int \<Rightarrow> string \<Rightarrow> int \<Rightarrow> kv_entry" where
  "new_entry now v ttl = \<lparr>val = v, expiresAt = (if ttl > 0 then Some (now + ttl) else None)\<rparr>"

definition MemStore_Get :: "int \<Rightarrow> string \<Rightarrow> mem_store \<Rightarrow> string kv_result \<times> mem_store" where
  "MemStore_Get now key m =
     (case getEntry now key m of
        (None, m') \<Rightarrow> (Inl NotFound, m')
      | (Some e, m') \<Rightarrow> (Inr (val e), m'))"

definition MemStore_Set ::
  "int \<Rightarrow> string \<Rightarrow> string \<Rightarrow> int \<Rightarrow> mem_store \<Rightarrow> unit kv_result \<times> mem_store" where
  "MemStore_Set now key v ttl m =
     (Inr (), m\<lparr>kv := AList.update key (new_entry now v ttl) (kv m)\<rparr>)"

definition MemStore_SetNX ::
  "int \<Rightarrow> string \<Rightarrow> string \<Rightarrow> int \<Rightarrow> mem_store \<Rightarrow> bool kv_result \<times> mem_store" where
  "MemStore_SetNX now key v ttl m =
     (case getEntry now key m of
        (Some _, m') \<Rightarrow> (Inr False, m')
      | (None, m') \<Rightarrow> (Inr True, m'\<lparr>kv := AList.update key (new_entry now v ttl) (kv m')\<rparr>))"

definition MemStore_Del :: "string list \<Rightarrow> mem_store \<Rightarrow> unit kv_result \<times> mem_store" where
  "MemStore_Del keys m = (Inr (), m\<lparr>kv := fold AList.delete keys (kv m)\<rparr>)"

definition MemStore_Exists :: "int \<Rightarrow> string \<Rightarrow> mem_store \<Rightarrow> bool kv_result \<times> mem_store" where
  "MemStore_Exists now key m =
     (case getEntry now key m of (e, m') \<Rightarrow> (Inr (e \<noteq> None), m'))"

definition MemStore_IncrBy ::
  "int \<Rightarrow> string \<Rightarrow> int \<Rightarrow> mem_store \<Rightarrow> int kv_result \<times> mem_store" where
  "MemStore_IncrBy now key n m =
     (case getEntry now key m of
        (Some e, m') \<Rightarrow>
          (case parse_int64 (val e) of
             None \<Rightarrow> (Inl KvFail, m')
           | Some cur \<Rightarrow>
               let newVal = wrap64 (cur + n)
               in (Inr newVal, m'\<lparr>kv := AList.update key (e\<lparr>val := show_int newVal\<rparr>) (kv m')\<rparr>))
      | (None, m') \<Rightarrow>
          (Inr n, m'\<lparr>kv := AList.update key \<lparr>val = show_int n, expiresAt = None\<rparr> (kv m')\<rparr>))"

definition MemStore_Expire ::
  "int \<Rightarrow> string \<Rightarrow> int \<Rightarrow> mem_store \<Rightarrow> unit kv_result \<times> mem_store" where
  "MemStore_Expire now key ttl m =
     (case map_of (kv m) key of
        None \<Rightarrow> (Inr (), m)
      | Some e \<Rightarrow>
          if expired now e then (Inr (), m)
          else (Inr (), m\<lparr>kv := AList.update key (e\<lparr>expiresAt := Some (now + ttl)\<rparr>) (kv m)\<rparr>))"

definition MemStore_LPush :: "string \<Rightarrow> string \<Rightarrow> mem_store \<Rightarrow> unit kv_result \<times> mem_store" where
  "MemStore_LPush key v m = (Inr (), m\<lparr>lists := (lists m)(key := v # lists m key)\<rparr>)"

definition MemStore_RPush :: "string \<Rightarrow> string \<Rightarrow> mem_store \<Rightarrow> unit kv_result \<times> mem_store" where
  "MemStore_RPush key v m = (Inr (), m\<lparr>lists := (lists m)(key := lists m key @ [v])\<rparr>)"

definition MemStore_RPop :: "string \<Rightarrow> mem_store \<Rightarrow> string kv_result \<times> mem_store" where
  "MemStore_RPop key m =
     (if lists m key = [] then (Inl NotFound, m)
      else (Inr (last (lists m key)), m\<lparr>lists := (lists m)(key := butlast (lists m key))\<rparr>))"

text \<open>\<open>sweep\<close> evicts every expired key and returns how many it removed and how many remain.\<close>

definition sweep :: "int \<Rightarrow> mem_store \<Rightarrow> (nat \<times> nat) \<times> mem_store" where
  "sweep now m =
     (let kept = filter (\<lambda>(k, e). \<not> expired now e) (kv m)
      in ((length (filter (\<lambda>(k, e). expired now e) (kv m)), length kept), m\<lparr>kv := kept\<rparr>))"

definition mem_ops :: "mem_store kv_ops" where
  "mem_ops = \<lparr>kv_get = MemStore_Get, kv_set = MemStore_Set, kv_setnx = MemStore_SetNX,
     kv_del = MemStore_Del, kv_exists = MemStore_Exists, kv_incrby = MemStore_IncrBy,
     kv_expire = MemStore_Expire, kv_lpush = MemStore_LPush, kv_rpush = MemStore_RPush,
     kv_rpop = MemStore_RPop\<rparr>"

section \<open>What a client sees of the store\<close>

text \<open>The live value of a key at an instant, and the deadline it carries.\<close>

definition mem_view :: "mem_store \<Rightarrow> int \<Rightarrow> string \<Rightarrow> string option" where
  "mem_view m now key =
     (case map_of (kv m) key of
        None \<Rightarrow> None | Some e \<Rightarrow> if expired now e then None else Some (val e))"

text \<open>The keys of the map are distinct, as those of a Go map are.\<close>

definition mem_inv :: "mem_store \<Rightarrow> bool" where
  "mem_inv m \<longleftrightarrow> distinct (map fst (kv m))"

lemma expired_mono: "expired t e \<Longrightarrow> t \<le> t' \<Longrightarrow> expired t' e"
  by (auto simp: expired_def split: option.splits)

lemma expired_new_entry [simp]: "expired t' (new_entry t v ttl) \<longleftrightarrow> 0 < ttl \<and> t + ttl < t'"
  by (simp add: expired_def new_entry_def)

lemma val_new_entry [simp]: "val (new_entry t v ttl) = v"
  by (simp add: new_entry_def)

lemma map_of_update [simp]: "map_of (AList.update k v al) = (map_of al)(k \<mapsto> v)"
  by (simp add: update_conv' fun_eq_iff)

lemma map_of_delete [simp]: "map_of (AList.delete k al) = (map_of al)(k := None)"
  by (simp add: delete_conv' fun_eq_iff)

lemma map_of_fold_delete:
  "map_of (fold AList.delete ks al) k = (if k \<in> set ks then None else map_of al k)"
  by (induction ks arbitrary: al) auto

lemma distinct_fold_delete: "distinct (map fst al) \<Longrightarrow> distinct (map fst (fold AList.delete ks al))"
  by (induction ks arbitrary: al) (auto intro: distinct_delete)

lemma map_of_filter_live:
  "distinct (map fst al) \<Longrightarrow>
   map_of (filter (\<lambda>(k, e). P e) al) k =
     (case map_of al k of None \<Rightarrow> None | Some e \<Rightarrow> if P e then Some e else None)"
proof (induction al)
  case (Cons a al)
  have "map_of al (fst a) = None" using Cons.prems by (simp add: map_of_eq_None_iff)
  with Cons show ?case by (cases a) auto
qed simp

lemma fst_getEntry: "map_option val (fst (getEntry t k m)) = mem_view m t k"
  by (simp add: getEntry_def mem_view_def split: option.split)

lemma getEntry_view: "getEntry t k m = (e, m') \<Longrightarrow> mem_view m t k = map_option val e"
  using fst_getEntry [of t k m] by simp

lemma getEntry_Some: "getEntry t k m = (Some e, m') \<Longrightarrow> m' = m \<and> map_of (kv m) k = Some e \<and> \<not> expired t e"
  by (auto simp: getEntry_def split: option.splits if_splits)

lemma getEntry_frame:
  assumes "getEntry t k m = (e, m')" and "t \<le> t'"
  shows "mem_view m' t' j = mem_view m t' j"
  using assms expired_mono
  by (auto simp: getEntry_def mem_view_def split: option.splits if_splits)

lemma getEntry_inv: "getEntry t k m = (e, m') \<Longrightarrow> mem_inv m \<Longrightarrow> mem_inv m'"
  by (auto simp: getEntry_def mem_inv_def distinct_delete split: option.splits if_splits)

lemma getEntry_lists: "getEntry t k m = (e, m') \<Longrightarrow> lists m' = lists m"
  by (auto simp: getEntry_def split: option.splits if_splits)

lemmas mem_defs = MemStore_Get_def MemStore_Set_def MemStore_SetNX_def MemStore_Del_def
  MemStore_Exists_def MemStore_IncrBy_def MemStore_Expire_def MemStore_LPush_def
  MemStore_RPush_def MemStore_RPop_def

lemma mem_ops_simps [simp]:
  "kv_get mem_ops = MemStore_Get" "kv_set mem_ops = MemStore_Set"
  "kv_setnx mem_ops = MemStore_SetNX" "kv_del mem_ops = MemStore_Del"
  "kv_exists mem_ops = MemStore_Exists" "kv_incrby mem_ops = MemStore_IncrBy"
  "kv_expire mem_ops = MemStore_Expire" "kv_lpush mem_ops = MemStore_LPush"
  "kv_rpush mem_ops = MemStore_RPush" "kv_rpop mem_ops = MemStore_RPop"
  by (simp_all add: mem_ops_def)

section \<open>The contracts\<close>

text \<open>
  The contract of the value operations. \<open>view s t k\<close> is the value that a read at \<open>t\<close> would
  return. A method may fail (\<open>KvFail\<close>: the store is unreachable); the laws speak of the
  calls that return. At the very instant of a deadline the contract leaves open whether the
  key is gone: \<open>MemStore\<close> still answers, Redis does not.
\<close>

locale kv_contract =
  fixes ops :: "'s kv_ops"
    and view :: "'s \<Rightarrow> int \<Rightarrow> string \<Rightarrow> string option"
  assumes view_fades: "t \<le> t' \<Longrightarrow> view s t' k = Some v \<Longrightarrow> view s t k = Some v"
    and get_found: "kv_get ops t k s = (Inr v, s') \<Longrightarrow> view s t k = Some v"
    and get_missing: "kv_get ops t k s = (Inl NotFound, s') \<Longrightarrow> view s t k = None"
    and get_frame: "kv_get ops t k s = (r, s') \<Longrightarrow> t \<le> t' \<Longrightarrow> view s' t' j = view s t' j"
    and set_live: "kv_set ops t k v ttl s = (Inr (), s') \<Longrightarrow> t \<le> t' \<Longrightarrow> t' < t + ttl \<Longrightarrow>
          view s' t' k = Some v"
    and set_over: "kv_set ops t k v ttl s = (Inr (), s') \<Longrightarrow> 0 < ttl \<Longrightarrow> t + ttl < t' \<Longrightarrow>
          view s' t' k = None"
    and set_frame: "kv_set ops t k v ttl s = (Inr (), s') \<Longrightarrow> t \<le> t' \<Longrightarrow> j \<noteq> k \<Longrightarrow>
          view s' t' j = view s t' j"
    and setnx_won: "kv_setnx ops t k v ttl s = (Inr True, s') \<Longrightarrow> view s t k = None"
    and setnx_live: "kv_setnx ops t k v ttl s = (Inr True, s') \<Longrightarrow> t \<le> t' \<Longrightarrow> t' < t + ttl \<Longrightarrow>
          view s' t' k = Some v"
    and setnx_lost: "kv_setnx ops t k v ttl s = (Inr False, s') \<Longrightarrow> view s t k \<noteq> None"
    and setnx_kept: "kv_setnx ops t k v ttl s = (Inr False, s') \<Longrightarrow> t \<le> t' \<Longrightarrow>
          view s' t' k = view s t' k"
    and setnx_frame: "kv_setnx ops t k v ttl s = (Inr b, s') \<Longrightarrow> t \<le> t' \<Longrightarrow> j \<noteq> k \<Longrightarrow>
          view s' t' j = view s t' j"
    and del_gone: "kv_del ops ks s = (Inr (), s') \<Longrightarrow> k \<in> set ks \<Longrightarrow> view s' t k = None"
    and del_frame: "kv_del ops ks s = (Inr (), s') \<Longrightarrow> k \<notin> set ks \<Longrightarrow> view s' t k = view s t k"
begin

text \<open>A key seen absent stays absent until it is written.\<close>

lemma view_gone_mono: "view s t k = None \<Longrightarrow> t \<le> t' \<Longrightarrow> view s t' k = None"
  using view_fades by (metis option.exhaust)

text \<open>Two \<open>SetNX\<close> on one key within the time to live: the second one loses.\<close>

lemma setnx_exclusive:
  assumes "kv_setnx ops t k v ttl s = (Inr True, s1)" and "t \<le> t'" and "t' < t + ttl"
    and "kv_setnx ops t' k v' ttl' s1 = (Inr b, s2)"
  shows "\<not> b"
  using assms setnx_live [OF assms(1-3)] setnx_won [of t' k v' ttl' s1 s2] by (cases b) auto

lemma set_get:
  assumes "kv_set ops t k v ttl s = (Inr (), s1)" and "t \<le> t'" and "t' < t + ttl"
    and "kv_get ops t' k s1 = (r, s2)" and "r \<noteq> Inl KvFail"
  shows "r = Inr v"
proof -
  have v: "view s1 t' k = Some v" using assms(1-3) by (rule set_live)
  show ?thesis
  proof (cases r)
    case (Inl e)
    with assms(5) have "e = NotFound" by (cases e) simp_all
    with Inl assms(4) get_missing v show ?thesis by fastforce
  next
    case (Inr w)
    with assms(4) get_found v show ?thesis by fastforce
  qed
qed

end

text \<open>A store that is always reachable, as the in-memory one is.\<close>

locale kv_reliable = kv_contract +
  assumes get_total: "fst (kv_get ops t k s) \<noteq> Inl KvFail"
    and set_total: "fst (kv_set ops t k v ttl s) = Inr ()"
    and setnx_total: "\<exists>b. fst (kv_setnx ops t k v ttl s) = Inr b"
    and del_total: "fst (kv_del ops ks s) = Inr ()"
begin

lemma get_is_view:
  "kv_get ops t k s = (r, s') \<Longrightarrow> r = (case view s t k of None \<Rightarrow> Inl NotFound | Some v \<Rightarrow> Inr v)"
proof -
  assume g: "kv_get ops t k s = (r, s')"
  show ?thesis
  proof (cases r)
    case (Inl e)
    with g get_total [of t k s] have "e = NotFound" by (cases e) simp_all
    with Inl g get_missing [of t k s s'] show ?thesis by simp
  next
    case (Inr v)
    with g get_found [of t k s v s'] show ?thesis by simp
  qed
qed

lemma setnx_is_view: "fst (kv_setnx ops t k v ttl s) = Inr (view s t k = None)"
proof -
  obtain b s' where r: "kv_setnx ops t k v ttl s = (Inr b, s')"
    using setnx_total [of t k v ttl s] by (cases "kv_setnx ops t k v ttl s") auto
  then show ?thesis using setnx_won [of t k v ttl s s'] setnx_lost [of t k v ttl s s'] by (cases b) auto
qed

end

text \<open>
  A store that keeps a value to the very instant of its deadline, so that of two values with the same
  time to live the one written later never goes first.
\<close>

locale kv_exact = kv_reliable +
  assumes set_deadline: "kv_set ops t k v ttl s = (Inr (), s') \<Longrightarrow> 0 < ttl \<Longrightarrow> t \<le> t' \<Longrightarrow>
          view s' t' k = (if t + ttl < t' then None else Some v)"

text \<open>The contract of the list operations: \<open>RPop\<close> takes from the right end.\<close>

locale kv_queue =
  fixes ops :: "'s kv_ops"
    and queue :: "'s \<Rightarrow> string \<Rightarrow> string list"
  assumes lpush_queue: "kv_lpush ops k v s = (Inr (), s') \<Longrightarrow>
          queue s' = (queue s)(k := v # queue s k)"
    and rpush_queue: "kv_rpush ops k v s = (Inr (), s') \<Longrightarrow>
          queue s' = (queue s)(k := queue s k @ [v])"
    and rpop_empty: "kv_rpop ops k s = (Inl NotFound, s') \<Longrightarrow> queue s k = [] \<and> queue s' = queue s"
    and rpop_last: "kv_rpop ops k s = (Inr v, s') \<Longrightarrow>
          queue s k \<noteq> [] \<and> v = last (queue s k) \<and> queue s' = (queue s)(k := butlast (queue s k))"
begin

text \<open>First in, first out, for the producer's \<open>LPush\<close> and the worker's \<open>RPop\<close>.\<close>

lemma lpush_then_rpop:
  assumes "kv_lpush ops k v s = (Inr (), s1)" and "kv_rpop ops k s1 = (Inr w, s2)"
  shows "w = (if queue s k = [] then v else last (queue s k))"
  using lpush_queue [OF assms(1)] rpop_last [OF assms(2)] by simp

end

text \<open>A queue that is always reachable.\<close>

locale kv_queue_reliable = kv_queue +
  assumes lpush_total: "fst (kv_lpush ops k v s) = Inr ()"
    and rpush_total: "fst (kv_rpush ops k v s) = Inr ()"
    and rpop_total: "fst (kv_rpop ops k s) \<noteq> Inl KvFail"
begin

lemma lpush_effect: "queue (snd (kv_lpush ops k v s)) = (queue s)(k := v # queue s k)"
  using lpush_total [of k v s] by (intro lpush_queue) (simp add: prod_eq_iff)

lemma rpush_effect: "queue (snd (kv_rpush ops k v s)) = (queue s)(k := queue s k @ [v])"
  using rpush_total [of k v s] by (intro rpush_queue) (simp add: prod_eq_iff)

lemma rpop_cases:
  obtains (empty) s' where "kv_rpop ops k s = (Inl NotFound, s')" "queue s k = []" "queue s' = queue s"
  | (item) s' where "kv_rpop ops k s = (Inr (last (queue s k)), s')" "queue s k \<noteq> []"
      "queue s' = (queue s)(k := butlast (queue s k))"
proof (cases "kv_rpop ops k s")
  case (Pair r s')
  show thesis
  proof (cases r)
    case (Inl e)
    then have "e = NotFound" using rpop_total [of k s] Pair by (cases e) simp_all
    then show thesis using Pair Inl rpop_empty empty by blast
  next
    case (Inr v)
    then show thesis using Pair rpop_last item by blast
  qed
qed

end

section \<open>The in-memory store meets the contracts\<close>

lemma mem_get_eq: "fst (MemStore_Get t k m) =
    (case mem_view m t k of None \<Rightarrow> Inl NotFound | Some v \<Rightarrow> Inr v)"
  by (auto simp: MemStore_Get_def mem_view_def getEntry_def split: option.splits)

lemma mem_get_frame: "t \<le> t' \<Longrightarrow> mem_view (snd (MemStore_Get t k m)) t' j = mem_view m t' j"
  by (auto simp: MemStore_Get_def split: prod.splits option.splits dest: getEntry_frame)

lemma mem_set_view: "mem_view (snd (MemStore_Set t k v ttl m)) t' j =
    (if j = k then if 0 < ttl \<and> t + ttl < t' then None else Some v else mem_view m t' j)"
  by (simp add: MemStore_Set_def mem_view_def)

lemma mem_setnx_eq: "fst (MemStore_SetNX t k v ttl m) = Inr (mem_view m t k = None)"
  by (auto simp: MemStore_SetNX_def mem_view_def getEntry_def split: option.splits)

lemma mem_setnx_view:
  assumes "t \<le> t'"
  shows "mem_view (snd (MemStore_SetNX t k v ttl m)) t' j =
    (if j = k \<and> mem_view m t k = None
     then if 0 < ttl \<and> t + ttl < t' then None else Some v else mem_view m t' j)"
proof -
  obtain e m' where g: "getEntry t k m = (e, m')" by fastforce
  note f = getEntry_frame [OF g assms, of j] and v = getEntry_view [OF g]
  show ?thesis
  proof (cases e)
    case None
    with g v have "mem_view (snd (MemStore_SetNX t k v ttl m)) t' j =
        mem_view (m'\<lparr>kv := AList.update k (new_entry t v ttl) (kv m')\<rparr>) t' j"
      by (simp add: MemStore_SetNX_def)
    also have "\<dots> = (if j = k then if 0 < ttl \<and> t + ttl < t' then None else Some v else mem_view m' t' j)"
      by (simp add: mem_view_def)
    finally show ?thesis using None v f by simp
  next
    case (Some x)
    then show ?thesis using g v f by (simp add: MemStore_SetNX_def)
  qed
qed

lemma mem_del_view: "mem_view (snd (MemStore_Del ks m)) t k =
    (if k \<in> set ks then None else mem_view m t k)"
  by (simp add: MemStore_Del_def mem_view_def map_of_fold_delete)

lemma mem_view_fades: "t \<le> t' \<Longrightarrow> mem_view m t' k = Some v \<Longrightarrow> mem_view m t k = Some v"
  by (auto simp: mem_view_def split: option.splits if_splits dest: expired_mono)

interpretation mem: kv_reliable mem_ops mem_view
proof (unfold_locales, goal_cases)
  case (1 t t' s k v) then show ?case by (rule mem_view_fades)
next
  case (2 t k s v s') then show ?case using mem_get_eq [of t k s] by (auto split: option.splits)
next
  case (3 t k s s') then show ?case using mem_get_eq [of t k s] by (auto split: option.splits)
next
  case (4 t k s r s' t' j) then show ?case using mem_get_frame [of t t' k s j] by simp
next
  case (5 t k v ttl s s' t') then show ?case using mem_set_view [of t k v ttl s t' k] by simp
next
  case (6 t k v ttl s s' t') then show ?case using mem_set_view [of t k v ttl s t' k] by simp
next
  case (7 t k v ttl s s' t' j) then show ?case using mem_set_view [of t k v ttl s t' j] by simp
next
  case (8 t k v ttl s s') then show ?case using mem_setnx_eq [of t k v ttl s] by simp
next
  case (9 t k v ttl s s' t')
  then show ?case using mem_setnx_eq [of t k v ttl s] mem_setnx_view [of t t' k v ttl s k] by simp
next
  case (10 t k v ttl s s') then show ?case using mem_setnx_eq [of t k v ttl s] by simp
next
  case (11 t k v ttl s s' t')
  then show ?case using mem_setnx_eq [of t k v ttl s] mem_setnx_view [of t t' k v ttl s k] by auto
next
  case (12 t k v ttl s b s' t' j)
  then show ?case using mem_setnx_view [of t t' k v ttl s j] by simp
next
  case (13 ks s s' k t) then show ?case using mem_del_view [of ks s t k] by simp
next
  case (14 ks s s' k t) then show ?case using mem_del_view [of ks s t k] by simp
next
  case (15 t k s) then show ?case using mem_get_eq [of t k s] by (simp split: option.split)
next
  case (16 t k v ttl s) then show ?case by (simp add: MemStore_Set_def)
next
  case (17 t k v ttl s) then show ?case using mem_setnx_eq [of t k v ttl s] by simp
next
  case (18 ks s) then show ?case by (simp add: MemStore_Del_def)
qed

interpretation memx: kv_exact mem_ops mem_view
proof (unfold_locales, goal_cases)
  case (1 t k v ttl s s' t') then show ?case using mem_set_view [of t k v ttl s t' k] by simp
qed

interpretation memq: kv_queue mem_ops lists
  by unfold_locales
    (auto simp: MemStore_LPush_def MemStore_RPush_def MemStore_RPop_def split: if_splits)

interpretation memqr: kv_queue_reliable mem_ops lists
  by unfold_locales (simp_all add: MemStore_LPush_def MemStore_RPush_def MemStore_RPop_def)

section \<open>Properties\<close>

lemma mem_inv_preserved:
  assumes "mem_inv m"
  shows "mem_inv (snd (MemStore_Get t k m))"
    and "mem_inv (snd (MemStore_Set t k v ttl m))"
    and "mem_inv (snd (MemStore_SetNX t k v ttl m))"
    and "mem_inv (snd (MemStore_Del ks m))"
    and "mem_inv (snd (MemStore_IncrBy t k n m))"
    and "mem_inv (snd (MemStore_Expire t k ttl m))"
    and "mem_inv (snd (sweep t m))"
proof -
  show "mem_inv (snd (MemStore_Get t k m))"
    using assms by (auto simp: MemStore_Get_def split: prod.splits option.splits dest: getEntry_inv)
  show "mem_inv (snd (MemStore_Set t k v ttl m))"
    using assms by (simp add: MemStore_Set_def mem_inv_def distinct_update)
  show "mem_inv (snd (MemStore_SetNX t k v ttl m))"
    using assms getEntry_inv [of t k m]
    by (auto simp: MemStore_SetNX_def mem_inv_def distinct_update split: prod.splits option.splits)
  show "mem_inv (snd (MemStore_Del ks m))"
    using assms by (simp add: MemStore_Del_def mem_inv_def distinct_fold_delete)
  show "mem_inv (snd (MemStore_IncrBy t k n m))"
    using assms getEntry_inv [of t k m]
    by (auto simp: MemStore_IncrBy_def mem_inv_def Let_def distinct_update
        split: prod.splits option.splits)
  show "mem_inv (snd (MemStore_Expire t k ttl m))"
    using assms by (auto simp: MemStore_Expire_def mem_inv_def distinct_update split: option.splits)
  show "mem_inv (snd (sweep t m))"
    using assms by (simp add: sweep_def Let_def mem_inv_def distinct_map_filter)
qed

end
