(* ===== verification/Rfc3339.thy ===== *)
theory Rfc3339
  imports Prelude
begin

text \<open>
  The TEXT timestamps of the data base (\<open>pkg/store/time.go\<close>): the part of Go's
  \<open>time.Parse\<close> and \<open>Time.Format\<close> that its layouts use, over the proleptic Gregorian
  calendar. The lemmas show that formatting the second of an instant and parsing it back gives
  that second, and that the texts compare, byte by byte, as the instants do: this is what lets
  the other theories keep a TEXT timestamp as the \<open>int\<close> of its Unix second.
\<close>

section \<open>The calendar\<close>

definition leap_year :: "int \<Rightarrow> bool" where
  "leap_year y \<longleftrightarrow> y mod 4 = 0 \<and> (y mod 100 \<noteq> 0 \<or> y mod 400 = 0)"

definition year_len :: "int \<Rightarrow> int" where
  "year_len y = (if leap_year y then 366 else 365)"

text \<open>The number of days from 1 January of the year 0 to 1 January of \<open>y\<close>.\<close>

definition year_start :: "int \<Rightarrow> int" where
  "year_start y = 365 * y + (y + 3) div 4 - (y + 99) div 100 + (y + 399) div 400"

definition month_lens :: "int \<Rightarrow> int list" where
  "month_lens y = [31, if leap_year y then 29 else 28, 31, 30, 31, 30, 31, 31, 30, 31, 30, 31]"

text \<open>The number of days of a year before the first of a month (1 to 12).\<close>

definition month_start :: "int \<Rightarrow> int \<Rightarrow> int" where
  "month_start y m = sum_list (take (nat (m - 1)) (month_lens y))"

definition daysIn :: "int \<Rightarrow> int \<Rightarrow> int" where
  "daysIn y m = month_lens y ! nat (m - 1)"

text \<open>1 January 1970 is day 719528.\<close>

definition days_of_date :: "int \<Rightarrow> int \<Rightarrow> int \<Rightarrow> int" where
  "days_of_date y m d = year_start y + month_start y m + (d - 1) - 719528"

function year_walk :: "int \<Rightarrow> int \<Rightarrow> int \<times> int" where
  "year_walk y r = (if r < year_len y then (y, r) else year_walk (y + 1) (r - year_len y))"
  by pat_completeness auto

termination
  by (relation "measure (\<lambda>(y, r). nat r)") (auto simp: year_len_def split: if_splits)

declare year_walk.simps [simp del]

fun month_walk :: "int list \<Rightarrow> int \<Rightarrow> int \<Rightarrow> int \<times> int" where
  "month_walk [] m r = (m, r)"
| "month_walk (l # ls) m r = (if r < l then (m, r) else month_walk ls (m + 1) (r - l))"

text \<open>The civil date of a day number (counted from the epoch): year, month, day.\<close>

definition date_of_days :: "int \<Rightarrow> int \<times> int \<times> int" where
  "date_of_days n =
     (let N = n + 719528;
          (y, r) = year_walk (400 * (N div 146097)) (N mod 146097);
          (m, d) = month_walk (month_lens y) 1 r
      in (y, m, d + 1))"

section \<open>Formatting\<close>

definition pad2 :: "int \<Rightarrow> string" where
  "pad2 n = [digit_char (nat (n div 10 mod 10)), digit_char (nat (n mod 10))]"

definition pad4 :: "int \<Rightarrow> string" where
  "pad4 n = pad2 (n div 100) @ pad2 (n mod 100)"

text \<open>
  \<open>t.UTC().Format(time.RFC3339)\<close> for an instant whose Unix second is \<open>s\<close>, in the years 0 to
  9999; SQLite's \<open>strftime('%Y-%m-%dT%H:%M:%SZ', ...)\<close> writes the same text.
\<close>

definition format_rfc3339 :: "int \<Rightarrow> string" where
  "format_rfc3339 s =
     (let (y, m, d) = date_of_days (s div 86400); r = s mod 86400
      in pad4 y @ ''-'' @ pad2 m @ ''-'' @ pad2 d @ ''T'' @ pad2 (r div 3600) @ '':'' @
         pad2 (r div 60 mod 60) @ '':'' @ pad2 (r mod 60) @ ''Z'')"

section \<open>Parsing\<close>

text \<open>The elements of the layouts: \<open>2006\<close>, \<open>01\<close>, \<open>02\<close>, \<open>15\<close>, \<open>04\<close>, \<open>05\<close>, \<open>Z07:00\<close>, a literal.\<close>

datatype layout_item = LYear | LMonth | LDay | LHour | LMinute | LSecond | LZone | LChar char

definition RFC3339 :: "layout_item list" where
  "RFC3339 = [LYear, LChar CHR ''-'', LMonth, LChar CHR ''-'', LDay, LChar CHR ''T'', LHour,
     LChar CHR '':'', LMinute, LChar CHR '':'', LSecond, LZone]"

definition timeFormats :: "layout_item list list" where
  "timeFormats =
     [RFC3339,
      [LYear, LChar CHR ''-'', LMonth, LChar CHR ''-'', LDay, LChar CHR ''T'', LHour,
       LChar CHR '':'', LMinute, LChar CHR '':'', LSecond, LChar CHR ''Z''],
      [LYear, LChar CHR ''-'', LMonth, LChar CHR ''-'', LDay, LChar CHR ''T'', LHour,
       LChar CHR '':'', LMinute, LChar CHR '':'', LSecond],
      [LYear, LChar CHR ''-'', LMonth, LChar CHR ''-'', LDay, LChar CHR '' '', LHour,
       LChar CHR '':'', LMinute, LChar CHR '':'', LSecond]]"

text \<open>What the parse has collected; \<open>t_off\<close> is the zone offset in seconds.\<close>

record time_fields =
  t_year :: int
  t_month :: int
  t_day :: int
  t_hour :: int
  t_min :: int
  t_sec :: int
  t_nsec :: int
  t_off :: int

text \<open>\<open>getnum(s, fixed)\<close>: two digits, or a single one when the width is not fixed.\<close>

fun getnum :: "bool \<Rightarrow> string \<Rightarrow> (int \<times> string) option" where
  "getnum fixed [] = None"
| "getnum fixed [a] =
     (case digit_val a of None \<Rightarrow> None | Some x \<Rightarrow> if fixed then None else Some (int x, []))"
| "getnum fixed (a # b # s) =
     (case digit_val a of
        None \<Rightarrow> None
      | Some x \<Rightarrow>
          (case digit_val b of
             None \<Rightarrow> if fixed then None else Some (int x, b # s)
           | Some y \<Rightarrow> Some (int (10 * x + y), s)))"

definition in_range :: "int \<Rightarrow> int \<Rightarrow> (int \<times> string) option \<Rightarrow> (int \<times> string) option" where
  "in_range lo hi r = Option.bind r (\<lambda>(n, s). if lo \<le> n \<and> n \<le> hi then Some (n, s) else None)"

text \<open>
  The fraction that may follow the seconds: a point or a comma, then digits; the first nine
  count.
\<close>

definition is_digit :: "char \<Rightarrow> bool" where
  "is_digit c \<longleftrightarrow> digit_val c \<noteq> None"

definition fraction :: "string \<Rightarrow> int \<times> string" where
  "fraction s =
     (if length s \<ge> 2 \<and> (hd s = CHR ''.'' \<or> hd s = CHR '','') \<and> is_digit (s ! 1)
      then let ds = takeWhile is_digit (tl s); kept = take 9 ds
           in (case read_nat kept of
                 None \<Rightarrow> (0, s)
               | Some n \<Rightarrow> (int n * 10 ^ (9 - length kept), drop (length ds) (tl s)))
      else (0, s))"

definition parse_zone :: "string \<Rightarrow> (int \<times> string) option" where
  "parse_zone s =
     (if s = [] then None
      else if hd s = CHR ''Z'' then Some (0, tl s)
      else if length s < 6 \<or> s ! 3 \<noteq> CHR '':'' then None
      else
        Option.bind (in_range 0 24 (getnum True [s ! 1, s ! 2])) (\<lambda>(hh, _).
        Option.bind (in_range 0 60 (getnum True [s ! 4, s ! 5])) (\<lambda>(mm, _).
          let off = hh * 3600 + mm * 60
          in if hd s = CHR ''+'' then Some (off, drop 6 s)
             else if hd s = CHR ''-'' then Some (- off, drop 6 s) else None)))"

fun parse_items :: "layout_item list \<Rightarrow> string \<Rightarrow> time_fields \<Rightarrow> time_fields option" where
  "parse_items [] s f = (if s = [] then Some f else None)"
| "parse_items (LChar c # ls) s f =
     (if s \<noteq> [] \<and> hd s = c then parse_items ls (tl s) f else None)"
| "parse_items (LYear # ls) s f =
     (if length s < 4 then None
      else case read_nat (take 4 s) of
             None \<Rightarrow> None | Some y \<Rightarrow> parse_items ls (drop 4 s) (f\<lparr>t_year := int y\<rparr>))"
| "parse_items (LMonth # ls) s f =
     Option.bind (in_range 1 12 (getnum True s)) (\<lambda>(n, s'). parse_items ls s' (f\<lparr>t_month := n\<rparr>))"
| "parse_items (LDay # ls) s f =
     Option.bind (getnum True s) (\<lambda>(n, s'). parse_items ls s' (f\<lparr>t_day := n\<rparr>))"
| "parse_items (LHour # ls) s f =
     Option.bind (in_range 0 23 (getnum False s)) (\<lambda>(n, s'). parse_items ls s' (f\<lparr>t_hour := n\<rparr>))"
| "parse_items (LMinute # ls) s f =
     Option.bind (in_range 0 59 (getnum True s)) (\<lambda>(n, s'). parse_items ls s' (f\<lparr>t_min := n\<rparr>))"
| "parse_items (LSecond # ls) s f =
     Option.bind (in_range 0 59 (getnum True s)) (\<lambda>(n, s').
       case fraction s' of (ns, s'') \<Rightarrow> parse_items ls s'' (f\<lparr>t_sec := n, t_nsec := ns\<rparr>))"
| "parse_items (LZone # ls) s f =
     Option.bind (parse_zone s) (\<lambda>(off, s'). parse_items ls s' (f\<lparr>t_off := off\<rparr>))"

text \<open>\<open>time.Parse\<close>: the instant in nanoseconds, or an error.\<close>

definition parse_time :: "layout_item list \<Rightarrow> string \<Rightarrow> int option" where
  "parse_time layout s =
     Option.bind (parse_items layout s
       \<lparr>t_year = 0, t_month = 1, t_day = 1, t_hour = 0, t_min = 0, t_sec = 0, t_nsec = 0, t_off = 0\<rparr>)
     (\<lambda>f. if t_day f < 1 \<or> t_day f > daysIn (t_year f) (t_month f) then None
          else Some (of_unix (days_of_date (t_year f) (t_month f) (t_day f) * 86400 +
                 t_hour f * 3600 + t_min f * 60 + t_sec f - t_off f) + t_nsec f))"

fun first_parse :: "layout_item list list \<Rightarrow> string \<Rightarrow> int option" where
  "first_parse [] s = None"
| "first_parse (l # ls) s = (case parse_time l s of Some t \<Rightarrow> Some t | None \<Rightarrow> first_parse ls s)"

definition parseTimeStr :: "string \<Rightarrow> int option" where
  "parseTimeStr s = first_parse timeFormats s"

text \<open>
  What the driver hands to a \<open>Scan\<close>: NULL, a text, a time, or a value of another type. The zero
  \<open>time.Time\<close> that NULL leaves behind is 1 January of the year 1.
\<close>

datatype column = CNull | CText string | CTime int | COther

definition zero_time :: int where
  "zero_time = of_unix (- 62135596800)"

fun ScanTime :: "column \<Rightarrow> int option" where
  "ScanTime (CTime t) = Some t"
| "ScanTime (CText s) = parseTimeStr s"
| "ScanTime CNull = Some zero_time"
| "ScanTime COther = None"

fun ScanNullTime :: "column \<Rightarrow> int option option" where
  "ScanNullTime CNull = Some None"
| "ScanNullTime c = map_option Some (ScanTime c)"

section \<open>Calendar lemmas\<close>

lemma year_len_pos [simp]: "0 < year_len y"
  by (simp add: year_len_def)

lemma div_step:
  fixes y k j :: int
  assumes "0 < k" and "j = k - 1"
  shows "(y + 1 + j) div k = (y + j) div k + (if y mod k = 0 then 1 else 0)"
proof -
  define q r where "q = y div k" and "r = y mod k"
  have y: "y = q * k + r" and r: "0 \<le> r" "r < k" using assms(1) by (simp_all add: q_def r_def)
  have "(y + 1 + j) div k = q + 1"
  proof -
    have "y + 1 + j = r + (q + 1) * k" using y assms(2) by (simp add: algebra_simps)
    then have "(y + 1 + j) div k = (q + 1) + r div k" using assms(1) by (simp only: div_mult_self1)
    then show ?thesis using r by (simp add: div_pos_pos_trivial)
  qed
  moreover have "(y + j) div k = (if r = 0 then q else q + 1)"
  proof (cases "r = 0")
    case True
    then have "y + j = j + q * k" using y by simp
    then have "(y + j) div k = q + j div k" using assms(1) by (simp only: div_mult_self1)
    then show ?thesis using True assms by (simp add: div_pos_pos_trivial)
  next
    case False
    then have "y + j = (r - 1) + (q + 1) * k" using y assms(2) by (simp add: algebra_simps)
    then have "(y + j) div k = (q + 1) + (r - 1) div k" using assms(1) by (simp only: div_mult_self1)
    then show ?thesis using False r by (simp add: div_pos_pos_trivial)
  qed
  ultimately show ?thesis by (simp add: r_def)
qed

lemma year_start_Suc: "year_start (y + 1) = year_start y + year_len y"
proof -
  have m: "y mod 400 = 0 \<Longrightarrow> y mod 100 = 0" "y mod 100 = 0 \<Longrightarrow> y mod 4 = 0"
    unfolding mod_eq_0_iff_dvd by (rule dvd_trans [rotated], assumption, simp)+
  have d: "(y + 1 + 3) div 4 = (y + 3) div 4 + (if y mod 4 = 0 then 1 else 0)"
    "(y + 1 + 99) div 100 = (y + 99) div 100 + (if y mod 100 = 0 then 1 else 0)"
    "(y + 1 + 399) div 400 = (y + 399) div 400 + (if y mod 400 = 0 then 1 else 0)"
    by (rule div_step; simp)+
  have "365 * (y + 1) + (a + (if p then 1 else 0)) - (b + (if q then 1 else 0)) + (c + (if r then 1 else 0)) =
      365 * y + a - b + c + (if p \<and> (\<not> q \<or> r) then 366 else 365)"
    if "r \<Longrightarrow> q" "q \<Longrightarrow> p" for p q r and a b c :: int
    using that by (cases p; cases q; cases r) simp_all
  from this [OF m] show ?thesis
    unfolding year_start_def year_len_def leap_year_def d .
qed

lemma year_start_add: "year_start (y + int n) = year_start y + (\<Sum>i < n. year_len (y + int i))"
proof (induction n)
  case (Suc n)
  have "year_start (y + int (Suc n)) = year_start (y + int n + 1)" by (simp add: ac_simps)
  with Suc show ?case by (simp add: year_start_Suc)
qed simp

lemma year_start_strict: "y < y' \<Longrightarrow> year_start y + year_len y \<le> year_start y'"
proof -
  assume "y < y'"
  then obtain n where n: "y' = (y + 1) + int n" using zle_iff_zadd [of "y + 1" y'] by auto
  have "0 \<le> (\<Sum>i < n. year_len (y + 1 + int i))"
    by (intro sum_nonneg) (simp add: year_len_pos less_imp_le)
  then show ?thesis using year_start_add [of "y + 1" n] year_start_Suc [of y] n by simp
qed

lemma year_start_cycle: "year_start (400 * q) = 146097 * q"
  by (simp add: year_start_def)

lemma year_walk_spec:
  assumes "0 \<le> r" and "year_walk y r = (y', r')"
  shows "year_start y' + r' = year_start y + r \<and> 0 \<le> r' \<and> r' < year_len y' \<and> y \<le> y'"
  using assms
proof (induction y r arbitrary: y' r' rule: year_walk.induct)
  case (1 y r)
  show ?case
  proof (cases "r < year_len y")
    case True
    with "1.prems" show ?thesis by (simp add: year_walk.simps [of y r])
  next
    case False
    with "1.prems" have "year_walk (y + 1) (r - year_len y) = (y', r')" by (simp add: year_walk.simps [of y r])
    with "1.IH" [OF False, of y' r'] False show ?thesis by (simp add: year_start_Suc)
  qed
qed

lemma month_walk_spec:
  assumes "0 \<le> r" and "r < sum_list ls" and "month_walk ls m r = (m', d)" and "\<forall>l \<in> set ls. 0 \<le> l"
  shows "m \<le> m' \<and> nat (m' - m) < length ls \<and> sum_list (take (nat (m' - m)) ls) + d = r \<and>
    0 \<le> d \<and> d < ls ! nat (m' - m)"
  using assms
proof (induction ls arbitrary: m r)
  case (Cons l ls)
  show ?case
  proof (cases "r < l")
    case True
    then show ?thesis using Cons.prems by auto
  next
    case False
    with Cons.prems have "month_walk ls (m + 1) (r - l) = (m', d)" and "r - l < sum_list ls" by simp_all
    with Cons.IH [of "r - l" "m + 1"] Cons.prems(4) False
    have ih: "m + 1 \<le> m'" "nat (m' - (m + 1)) < length ls"
      "sum_list (take (nat (m' - (m + 1))) ls) + d = r - l" "0 \<le> d" "d < ls ! nat (m' - (m + 1))" by simp_all
    have "nat (m' - m) = Suc (nat (m' - (m + 1)))" using ih(1) by simp
    with ih show ?thesis by simp
  qed
qed simp

lemma sum_month_lens: "sum_list (month_lens y) = year_len y"
  by (simp add: month_lens_def year_len_def)

lemma month_lens_nonneg: "\<forall>l \<in> set (month_lens y). 0 \<le> l"
  by (simp add: month_lens_def)

text \<open>The civil date of a day number is a valid date with that day number.\<close>

lemma date_of_days_spec:
  assumes "date_of_days n = (y, m, d)"
  shows "days_of_date y m d = n \<and> 1 \<le> m \<and> m \<le> 12 \<and> 1 \<le> d \<and> d \<le> daysIn y m"
proof -
  let ?N = "n + 719528"
  obtain y0 r0 where w: "year_walk (400 * (?N div 146097)) (?N mod 146097) = (y0, r0)" by fastforce
  obtain m0 d0 where mw: "month_walk (month_lens y0) 1 r0 = (m0, d0)" by fastforce
  have eq: "y0 = y" "m0 = m" "d0 + 1 = d" using assms w mw by (simp_all add: date_of_days_def Let_def)
  have ys: "year_start y0 + r0 = year_start (400 * (?N div 146097)) + ?N mod 146097"
    and r: "0 \<le> r0" "r0 < year_len y0"
    using year_walk_spec [OF _ w] by simp_all
  have N: "year_start y0 + r0 = ?N" unfolding ys year_start_cycle by simp
  have "r0 < sum_list (month_lens y0)" using r by (simp add: sum_month_lens)
  from month_walk_spec [OF r(1) this mw month_lens_nonneg]
  have mm: "1 \<le> m0" "nat (m0 - 1) < 12" "month_start y0 m0 + d0 = r0" "0 \<le> d0" "d0 < daysIn y0 m0"
    by (simp_all add: month_start_def daysIn_def month_lens_def)
  show ?thesis using N mm eq by (auto simp: days_of_date_def)
qed

text \<open>The years of four digits, and the time of day of a second.\<close>

definition four_digit_years :: "int \<Rightarrow> bool" where
  "four_digit_years s \<longleftrightarrow> - 62167219200 \<le> s \<and> s < 253402300800"

lemma month_start_bounds:
  assumes "1 \<le> m" and "m \<le> 12"
  shows "0 \<le> month_start y m" and "month_start y m + daysIn y m \<le> year_len y"
proof -
  have "nat (m - 1) < length (month_lens y)" using assms by (simp add: month_lens_def)
  then have "sum_list (month_lens y) = sum_list (take (nat (m - 1)) (month_lens y) @ daysIn y m #
      drop (Suc (nat (m - 1))) (month_lens y))"
    unfolding daysIn_def by (metis id_take_nth_drop)
  then have "sum_list (month_lens y) = sum_list (take (nat (m - 1)) (month_lens y)) + daysIn y m +
      sum_list (drop (Suc (nat (m - 1))) (month_lens y))" by simp
  moreover have "0 \<le> sum_list (drop k (month_lens y))" for k
    by (rule sum_list_nonneg) (use month_lens_nonneg in \<open>auto dest: in_set_dropD\<close>)
  ultimately show "month_start y m + daysIn y m \<le> year_len y"
    by (simp add: month_start_def sum_month_lens)
  show "0 \<le> month_start y m"
    unfolding month_start_def by (rule sum_list_nonneg) (use month_lens_nonneg in \<open>auto dest: in_set_takeD\<close>)
qed

lemma month_start_less:
  assumes "1 \<le> m" and "m < m'" and "m' \<le> 12"
  shows "month_start y m + daysIn y m \<le> month_start y m'"
proof -
  define i j where "i = nat (m - 1)" and "j = nat (m' - 1)"
  have ij: "Suc i \<le> j" "i < length (month_lens y)" using assms by (simp_all add: i_def j_def month_lens_def)
  have "take j (month_lens y) = take (Suc i) (month_lens y) @ take (j - Suc i) (drop (Suc i) (month_lens y))"
    using ij(1) take_add [of "Suc i" "j - Suc i" "month_lens y"] by simp
  then have "sum_list (take j (month_lens y)) = sum_list (take (Suc i) (month_lens y)) +
      sum_list (take (j - Suc i) (drop (Suc i) (month_lens y)))" by simp
  moreover have "sum_list (take (Suc i) (month_lens y)) = sum_list (take i (month_lens y)) + daysIn y m"
    using ij(2) by (simp add: take_Suc_conv_app_nth daysIn_def i_def)
  moreover have "0 \<le> sum_list (take (j - Suc i) (drop (Suc i) (month_lens y)))"
    by (rule sum_list_nonneg) (use month_lens_nonneg in \<open>auto dest: in_set_takeD in_set_dropD\<close>)
  ultimately show ?thesis by (simp add: month_start_def i_def j_def)
qed

definition valid_date :: "int \<Rightarrow> int \<Rightarrow> int \<Rightarrow> bool" where
  "valid_date y m d \<longleftrightarrow> 1 \<le> m \<and> m \<le> 12 \<and> 1 \<le> d \<and> d \<le> daysIn y m"

lemma days_of_date_less:
  assumes "valid_date y m d" and "valid_date y' m' d'"
    and "y < y' \<or> y = y' \<and> (m < m' \<or> m = m' \<and> d < d')"
  shows "days_of_date y m d < days_of_date y' m' d'"
  using assms(3)
proof (elim disjE conjE)
  assume "y < y'"
  then have "year_start y + year_len y \<le> year_start y'" by (rule year_start_strict)
  then show ?thesis
    using assms(1,2) month_start_bounds [of m y] month_start_bounds [of m' y']
    by (simp add: days_of_date_def valid_date_def)
next
  assume "y = y'" and "m < m'"
  then show ?thesis
    using assms(1,2) month_start_less [of m m' y] by (simp add: days_of_date_def valid_date_def)
qed (simp add: days_of_date_def)

lemma date_of_days_less:
  assumes "date_of_days n = (y, m, d)" and "date_of_days n' = (y', m', d')" and "n < n'"
  shows "y < y' \<or> y = y' \<and> (m < m' \<or> m = m' \<and> d < d')"
proof (rule ccontr)
  assume "\<not> ?thesis"
  then have "(y' < y \<or> y' = y \<and> (m' < m \<or> m' = m \<and> d' < d)) \<or> (y, m, d) = (y', m', d')" by auto
  moreover have "valid_date y m d" "valid_date y' m' d'"
    using date_of_days_spec [OF assms(1)] date_of_days_spec [OF assms(2)] by (simp_all add: valid_date_def)
  ultimately have "days_of_date y' m' d' \<le> days_of_date y m d"
    using days_of_date_less [of y' m' d' y m d] by auto
  then show False using date_of_days_spec [OF assms(1)] date_of_days_spec [OF assms(2)] assms(3) by simp
qed

lemma div_between:
  fixes s k :: int
  assumes "0 < k" and "a * k \<le> s" and "s < b * k"
  shows "a \<le> s div k" and "s div k < b"
proof -
  show "a \<le> s div k" using zdiv_mono1 [OF assms(2,1)] assms(1) by simp
  show "s div k < b"
  proof (rule ccontr)
    assume "\<not> s div k < b"
    then have "b * k \<le> (s div k) * k" using assms(1) by (simp add: mult_right_mono)
    also have "\<dots> \<le> s" using pos_mod_sign [OF assms(1), of s] minus_mod_eq_div_mult [of s k] by linarith
    finally show False using assms(3) by simp
  qed
qed

lemma year_bounds:
  assumes "four_digit_years s" and "date_of_days (s div 86400) = (y, m, d)"
  shows "0 \<le> y \<and> y \<le> 9999"
proof -
  have n: "- 719528 \<le> s div 86400" "s div 86400 < 2932897"
    using assms(1) div_between [of 86400 "- 719528" s 2932897] by (simp_all add: four_digit_years_def)
  have v: "1 \<le> m" "m \<le> 12" "1 \<le> d" "d \<le> daysIn y m" "days_of_date y m d = s div 86400"
    using date_of_days_spec [OF assms(2)] by simp_all
  have lo: "year_start y \<le> s div 86400 + 719528" and hi: "s div 86400 + 719528 < year_start y + year_len y"
    using v month_start_bounds [of m y] by (simp_all add: days_of_date_def)
  have "\<not> y < 0"
    using year_start_strict [of y 0] n(1) hi by (auto simp: year_start_def)
  moreover have "\<not> 9999 < y"
  proof
    assume "9999 < y"
    then consider "y = 10000" | "10000 < y" by linarith
    then have "year_start 10000 \<le> year_start y"
    proof cases
      case 2
      then show ?thesis using year_start_strict [of 10000 y] year_len_pos [of 10000] by linarith
    qed simp
    with lo n(2) show False by (simp add: year_start_def)
  qed
  ultimately show ?thesis by simp
qed

section \<open>Formatting and parsing\<close>

lemma getnum_pad2:
  assumes "0 \<le> n" and "n \<le> 99"
  shows "getnum fixed (pad2 n @ s) = Some (n, s)"
proof -
  have "n div 10 mod 10 = n div 10" "0 \<le> n div 10" "0 \<le> n mod 10"
    using div_between [of 10 0 n 10] assms by simp_all
  moreover have "10 * (n div 10) + n mod 10 = n" by simp
  ultimately show ?thesis by (simp add: pad2_def nat_mult_distrib [symmetric])
qed

lemma length_pad2 [simp]: "length (pad2 n) = 2"
  by (simp add: pad2_def)

lemma nat_digits:
  assumes "0 \<le> x" and "0 \<le> y"
  shows "10 * nat x + nat y = nat (10 * x + y)" and "100 * nat x + nat y = nat (100 * x + y)"
  using assms by (simp_all add: nat_add_distrib nat_mult_distrib)

lemma read_digits_pad2:
  assumes "0 \<le> n" and "n \<le> 99"
  shows "read_digits acc (pad2 n @ s) = read_digits (100 * acc + nat n) s"
proof -
  have d: "n div 10 mod 10 = n div 10" "0 \<le> n div 10" "0 \<le> n mod 10" "10 * (n div 10) + n mod 10 = n"
    using div_between [of 10 0 n 10] assms by simp_all
  have "10 * (10 * acc + nat (n div 10)) + nat (n mod 10) = 100 * acc + (10 * nat (n div 10) + nat (n mod 10))"
    by simp
  also have "\<dots> = 100 * acc + nat n" unfolding nat_digits(1) [OF d(2,3)] d(4) ..
  finally have "10 * (10 * acc + nat (n div 10 mod 10)) + nat (n mod 10) = 100 * acc + nat n"
    unfolding d(1) .
  moreover have "nat (n div 10 mod 10) < 10" "nat (n mod 10) < 10" by simp_all
  ultimately show ?thesis
    unfolding pad2_def append_Cons append_Nil read_digits.simps(2)
    by (simp only: digit_val_digit_char option.case)
qed

lemma read_nat_pad4:
  assumes "0 \<le> n" and "n \<le> 9999"
  shows "read_nat (pad4 n) = Some (nat n)"
proof -
  have b: "0 \<le> n div 100" "n div 100 \<le> 99" "0 \<le> n mod 100" "n mod 100 \<le> 99"
    using div_between [of 100 0 n 100] assms by simp_all
  have "pad4 n \<noteq> []" by (simp add: pad4_def pad2_def)
  moreover have "read_digits 0 (pad4 n) = Some (100 * nat (n div 100) + nat (n mod 100))"
    using read_digits_pad2 [OF b(1,2), of 0 "pad2 (n mod 100)"]
      read_digits_pad2 [OF b(3,4), of "nat (n div 100)" "[]"] by (simp add: pad4_def)
  moreover have "100 * nat (n div 100) + nat (n mod 100) = nat n"
    unfolding nat_digits(2) [OF b(1,3)] by simp
  ultimately show ?thesis by (simp add: read_nat_def)
qed

lemma parse_year:
  assumes "0 \<le> y" and "y \<le> 9999"
  shows "parse_items (LYear # ls) (pad4 y @ s) f = parse_items ls s (f\<lparr>t_year := y\<rparr>)"
proof -
  have l: "length (pad4 y) = 4" by (simp add: pad4_def)
  then have "take 4 (pad4 y @ s) = pad4 y" "drop 4 (pad4 y @ s) = s" by simp_all
  with l show ?thesis using read_nat_pad4 [OF assms] assms by simp
qed

lemma parse_two_digits:
  assumes "0 \<le> n" and "n \<le> 99"
  shows "1 \<le> n \<Longrightarrow> n \<le> 12 \<Longrightarrow> parse_items (LMonth # ls) (pad2 n @ s) f = parse_items ls s (f\<lparr>t_month := n\<rparr>)"
    and "parse_items (LDay # ls) (pad2 n @ s) f = parse_items ls s (f\<lparr>t_day := n\<rparr>)"
    and "n \<le> 23 \<Longrightarrow> parse_items (LHour # ls) (pad2 n @ s) f = parse_items ls s (f\<lparr>t_hour := n\<rparr>)"
    and "n \<le> 59 \<Longrightarrow> parse_items (LMinute # ls) (pad2 n @ s) f = parse_items ls s (f\<lparr>t_min := n\<rparr>)"
    and "n \<le> 59 \<Longrightarrow> parse_items (LSecond # ls) (pad2 n @ s) f =
      (case fraction s of (ns, s') \<Rightarrow> parse_items ls s' (f\<lparr>t_sec := n, t_nsec := ns\<rparr>))"
  using getnum_pad2 [OF assms] assms by (simp_all add: in_range_def)

lemma parse_literal: "parse_items (LChar c # ls) (c # s) f = parse_items ls s f"
  by simp

lemma fraction_Z: "fraction ''Z'' = (0, ''Z'')"
  by (simp add: fraction_def)

lemma fraction_nil: "fraction [] = (0, [])"
  by (simp add: fraction_def)

lemma zone_Z: "parse_zone ''Z'' = Some (0, [])"
  by (simp add: parse_zone_def)

lemma zone: "parse_items [LZone] ''Z'' f = Some (f\<lparr>t_off := 0\<rparr>)"
  by (simp add: zone_Z)

lemma day_second: "(r div 3600) * 3600 + (r div 60 mod 60) * 60 + r mod 60 = (r :: int)"
proof -
  have "r div 3600 = r div 60 div 60" by (simp add: zdiv_zmult2_eq [of 60 r 60, simplified])
  then show ?thesis by presburger
qed

lemma parse_format:
  assumes "four_digit_years s"
  shows "parse_time RFC3339 (format_rfc3339 s) = Some (of_unix s)"
proof -
  obtain y m d where date: "date_of_days (s div 86400) = (y, m, d)" by (metis prod_cases3)
  define r where "r = s mod 86400"
  have r: "0 \<le> r" "r < 86400" by (simp_all add: r_def)
  have y: "0 \<le> y" "y \<le> 9999" using year_bounds [OF assms date] by simp_all
  have v: "1 \<le> m" "m \<le> 12" "1 \<le> d" "d \<le> daysIn y m" "days_of_date y m d = s div 86400"
    using date_of_days_spec [OF date] by simp_all
  have "daysIn y m \<le> 31"
  proof -
    have "nat (m - 1) < length (month_lens y)" using v by (simp add: month_lens_def)
    then have "daysIn y m \<in> set (month_lens y)" unfolding daysIn_def by (rule nth_mem)
    then show ?thesis by (auto simp: month_lens_def split: if_splits)
  qed
  with v have d31: "d \<le> 99" by simp
  have tod: "0 \<le> r div 3600" "r div 3600 \<le> 23" "0 \<le> r div 60 mod 60" "r div 60 mod 60 \<le> 59"
    "0 \<le> r mod 60" "r mod 60 \<le> 59" using r div_between [of 3600 0 r 24] by simp_all
  have items: "parse_items RFC3339 (format_rfc3339 s)
      \<lparr>t_year = 0, t_month = 1, t_day = 1, t_hour = 0, t_min = 0, t_sec = 0, t_nsec = 0, t_off = 0\<rparr> =
    Some \<lparr>t_year = y, t_month = m, t_day = d, t_hour = r div 3600, t_min = r div 60 mod 60,
      t_sec = r mod 60, t_nsec = 0, t_off = 0\<rparr>"
  proof -
    have "parse_items RFC3339 (pad4 y @ ''-'' @ pad2 m @ ''-'' @ pad2 d @ ''T'' @ pad2 (r div 3600) @ '':'' @
         pad2 (r div 60 mod 60) @ '':'' @ pad2 (r mod 60) @ ''Z'') f =
      Some (f\<lparr>t_year := y, t_month := m, t_day := d, t_hour := r div 3600, t_min := r div 60 mod 60,
        t_sec := r mod 60, t_nsec := 0, t_off := 0\<rparr>)" for f
    proof -
      have m99: "0 \<le> m" "m \<le> 99" and d0: "0 \<le> d" using v by simp_all
      have h99: "r div 3600 \<le> 99" "r div 60 mod 60 \<le> 99" "r mod 60 \<le> 99"
        by (rule order_trans [OF tod(2)], simp, rule order_trans [OF tod(4)], simp, rule order_trans [OF tod(6)], simp)
      note month = parse_two_digits(1) [OF m99 v(1,2)] and day = parse_two_digits(2) [OF d0 d31]
        and hour = parse_two_digits(3) [OF tod(1) h99(1) tod(2)]
        and minute = parse_two_digits(4) [OF tod(3) h99(2) tod(4)]
        and sec = parse_two_digits(5) [OF tod(5) h99(3) tod(6)]
      show ?thesis
        unfolding RFC3339_def
        by (simp only: parse_year [OF y] parse_literal append_Cons append_Nil month day hour minute sec
            fraction_Z prod.case zone)
    qed
    then show ?thesis by (simp add: format_rfc3339_def Let_def date r_def)
  qed
  show ?thesis
  proof -
    have "s div 86400 * 86400 + r div 3600 * 3600 + r div 60 mod 60 * 60 + r mod 60 - 0 = s"
      using day_second [of r] div_mult_mod_eq [of s 86400] unfolding r_def by linarith
    moreover have "\<not> (d < 1 \<or> daysIn y m < d)" using v by simp
    ultimately show ?thesis
      unfolding parse_time_def items by (simp only: bind.bind_lunit time_fields.simps v(5) if_False add_0_right)
  qed
qed

text \<open>
  C18. The TEXT timestamps round-trip: scanning the text that the server (or SQLite's
  \<open>strftime\<close>) writes for an instant gives the instant truncated to its second, for every
  instant of the years 0 to 9999.
\<close>

theorem scan_formatted_time:
  assumes "four_digit_years (unix t)"
  shows "ScanTime (CText (format_rfc3339 (unix t))) = Some (truncate_second t) \<and>
    ScanNullTime (CText (format_rfc3339 (unix t))) = Some (Some (truncate_second t))"
  using parse_format [OF assms] by (simp add: parseTimeStr_def timeFormats_def truncate_second_def)

theorem scan_formatted_time_witness:
  "ScanTime (CText (format_rfc3339 (unix 1709251199500000000))) = Some 1709251199000000000"
  using scan_formatted_time [of 1709251199500000000]
  by (simp add: unix_def truncate_second_def of_unix_def second_def four_digit_years_def)

text \<open>SQLite compares TEXT byte by byte (\<open>memcmp\<close>).\<close>

fun bytes_less :: "string \<Rightarrow> string \<Rightarrow> bool" where
  "bytes_less xs [] \<longleftrightarrow> False"
| "bytes_less [] (y # ys) \<longleftrightarrow> True"
| "bytes_less (x # xs) (y # ys) \<longleftrightarrow> (of_char x :: nat) < of_char y \<or> x = y \<and> bytes_less xs ys"

lemma bytes_less_irrefl: "\<not> bytes_less xs xs"
  by (induction xs) simp_all

lemma bytes_less_asym: "bytes_less xs ys \<Longrightarrow> \<not> bytes_less ys xs"
  by (induction xs ys rule: bytes_less.induct) auto

lemma lex_digits:
  fixes n i j k l :: int
  assumes "0 \<le> k" and "k < n" and "0 \<le> l" and "l < n"
  shows "i < j \<or> i = j \<and> (k < l \<or> k = l \<and> P) \<longleftrightarrow> n * i + k < n * j + l \<or> n * i + k = n * j + l \<and> P"
proof -
  have less: "n * x + k' < n * y + l'" if "x < y" "k' < n" "0 \<le> l'" for x y k' l' :: int
  proof -
    have "n * x + n \<le> n * y" using mult_left_mono [of "x + 1" y n] that assms by (simp add: algebra_simps)
    with that show ?thesis by linarith
  qed
  consider "i < j" | "j < i" | "i = j" by linarith
  then show ?thesis
  proof cases
    case 1
    then show ?thesis using less [of i j k l] assms by simp
  next
    case 2
    then show ?thesis using less [of j i l k] assms by simp
  qed auto
qed

text \<open>The time of day decides the order of two seconds of one day.\<close>

lemma time_of_day_less:
  fixes r r' :: int
  assumes "r < r'"
  shows "r div 3600 < r' div 3600 \<or> r div 3600 = r' div 3600 \<and>
    (r div 60 mod 60 < r' div 60 mod 60 \<or> r div 60 mod 60 = r' div 60 mod 60 \<and> r mod 60 < r' mod 60)"
proof -
  have hour: "x div 3600 = x div 60 div 60" for x :: int
    by (simp add: zdiv_zmult2_eq [of 60 x 60, simplified])
  have lex: "x < y \<longleftrightarrow> x div 60 < y div 60 \<or> x div 60 = y div 60 \<and> x mod 60 < y mod 60" for x y :: int
    using lex_digits [of "x mod 60" 60 "y mod 60" "x div 60" "y div 60" False] by simp
  show ?thesis
  proof (cases "r div 60 < r' div 60")
    case True
    then show ?thesis using lex [of "r div 60" "r' div 60"] unfolding hour by blast
  next
    case False
    then have "r div 60 = r' div 60" and "r mod 60 < r' mod 60" using assms lex [of r r'] by blast+
    then show ?thesis unfolding hour by simp
  qed
qed

lemma date_fields:
  assumes "date_of_days n = (y, m, d)"
  shows "0 \<le> m \<and> m \<le> 99 \<and> 0 \<le> d \<and> d \<le> 99"
proof -
  have v: "1 \<le> m" "m \<le> 12" "1 \<le> d" "d \<le> daysIn y m" using date_of_days_spec [OF assms] by simp_all
  have "nat (m - 1) < length (month_lens y)" using v by (simp add: month_lens_def)
  then have "daysIn y m \<in> set (month_lens y)" unfolding daysIn_def by (rule nth_mem)
  then have "daysIn y m \<le> 31" by (auto simp: month_lens_def split: if_splits)
  with v show ?thesis by simp
qed

lemma bytes_less_pad2:
  assumes "0 \<le> a" "a \<le> 99" "0 \<le> b" "b \<le> 99"
  shows "bytes_less (pad2 a @ xs) (pad2 b @ ys) \<longleftrightarrow> a < b \<or> a = b \<and> bytes_less xs ys"
proof -
  have inj: "digit_char i = digit_char j \<longleftrightarrow> i = j" if "i < 10" "j < 10" for i j
    using that of_char_digit_char by (metis add_left_cancel)
  have n: "nat (a div 10 mod 10) < 10" "nat (a mod 10) < 10" "nat (b div 10 mod 10) < 10" "nat (b mod 10) < 10"
    by simp_all
  have ab: "10 * (a div 10 mod 10) + a mod 10 = a" "10 * (b div 10 mod 10) + b mod 10 = b"
    using assms div_between [of 10 0 a 10] div_between [of 10 0 b 10] by simp_all
  have z: "0 \<le> a div 10 mod 10" "0 \<le> a mod 10" "a mod 10 < 10" "0 \<le> b div 10 mod 10" "0 \<le> b mod 10" "b mod 10 < 10"
    by simp_all
  have "bytes_less (pad2 a @ xs) (pad2 b @ ys) \<longleftrightarrow>
      a div 10 mod 10 < b div 10 mod 10 \<or> a div 10 mod 10 = b div 10 mod 10 \<and>
        (a mod 10 < b mod 10 \<or> a mod 10 = b mod 10 \<and> bytes_less xs ys)"
    by (simp only: pad2_def append_Cons append_Nil bytes_less.simps of_char_digit_char [OF n(1)] of_char_digit_char [OF n(2)]
        of_char_digit_char [OF n(3)] of_char_digit_char [OF n(4)] inj [OF n(1,3)] inj [OF n(2,4)]
        nat_add_left_cancel_less nat_less_eq_zless [OF z(1)] nat_less_eq_zless [OF z(2)]
        eq_nat_nat_iff [OF z(1,4)] eq_nat_nat_iff [OF z(2,5)])
  also have "\<dots> \<longleftrightarrow> a < b \<or> a = b \<and> bytes_less xs ys"
    using lex_digits [OF z(2,3,5,6), of "a div 10 mod 10" "b div 10 mod 10" "bytes_less xs ys"]
    unfolding ab .
  finally show ?thesis .
qed

lemma bytes_less_pad4:
  assumes "0 \<le> a" "a \<le> 9999" "0 \<le> b" "b \<le> 9999"
  shows "bytes_less (pad4 a @ xs) (pad4 b @ ys) \<longleftrightarrow> a < b \<or> a = b \<and> bytes_less xs ys"
proof -
  have a: "0 \<le> a div 100" "a div 100 \<le> 99" "0 \<le> a mod 100" "a mod 100 \<le> 99" "100 * (a div 100) + a mod 100 = a"
    using div_between [of 100 0 a 100] assms by simp_all
  have b: "0 \<le> b div 100" "b div 100 \<le> 99" "0 \<le> b mod 100" "b mod 100 \<le> 99" "100 * (b div 100) + b mod 100 = b"
    using div_between [of 100 0 b 100] assms by simp_all
  have "bytes_less (pad4 a @ xs) (pad4 b @ ys) \<longleftrightarrow> a div 100 < b div 100 \<or> a div 100 = b div 100 \<and>
      (a mod 100 < b mod 100 \<or> a mod 100 = b mod 100 \<and> bytes_less xs ys)"
    unfolding pad4_def append_assoc
    by (simp only: bytes_less_pad2 [OF a(1,2) b(1,2)] bytes_less_pad2 [OF a(3,4) b(3,4)])
  also have "\<dots> \<longleftrightarrow> a < b \<or> a = b \<and> bytes_less xs ys"
    using lex_digits [of "a mod 100" 100 "b mod 100" "a div 100" "b div 100" "bytes_less xs ys"]
    unfolding a(5) b(5) by simp
  finally show ?thesis .
qed

lemma bytes_less_same: "bytes_less (c # xs) (c # ys) \<longleftrightarrow> bytes_less xs ys"
  by simp

text \<open>The order of two texts, field by field.\<close>

lemma format_less:
  assumes "a < b" and "four_digit_years a" and "four_digit_years b"
  shows "bytes_less (format_rfc3339 a) (format_rfc3339 b)"
proof -
  obtain y m d where da: "date_of_days (a div 86400) = (y, m, d)" by (metis prod_cases3)
  obtain y' m' d' where db: "date_of_days (b div 86400) = (y', m', d')" by (metis prod_cases3)
  define r r' where "r = a mod 86400" and "r' = b mod 86400"
  have ab: "a = a div 86400 * 86400 + r" "b = b div 86400 * 86400 + r'" by (simp_all add: r_def r'_def)
  have r: "0 \<le> r" "r < 86400" "0 \<le> r'" "r' < 86400" by (simp_all add: r_def r'_def)
  have y: "0 \<le> y" "y \<le> 9999" "0 \<le> y'" "y' \<le> 9999"
    using year_bounds [OF assms(2) da] year_bounds [OF assms(3) db] by simp_all
  have md: "0 \<le> m" "m \<le> 99" "0 \<le> d" "d \<le> 99" "0 \<le> m'" "m' \<le> 99" "0 \<le> d'" "d' \<le> 99"
    using date_fields [OF da] date_fields [OF db] by simp_all
  have hms: "0 \<le> x div 3600" "x div 3600 \<le> 99" "0 \<le> x div 60 mod 60" "x div 60 mod 60 \<le> 99"
    "0 \<le> x mod 60" "x mod 60 \<le> 99" if "0 \<le> x" "x < 86400" for x :: int
    using that div_between [of 3600 0 x 24] pos_mod_bound [of 60 "x div 60"] pos_mod_bound [of 60 x]
    by simp_all
  note R = hms [OF r(1,2)] and R' = hms [OF r(3,4)]
  have "y < y' \<or> y = y' \<and> (m < m' \<or> m = m' \<and> (d < d' \<or> d = d' \<and>
      (r div 3600 < r' div 3600 \<or> r div 3600 = r' div 3600 \<and>
        (r div 60 mod 60 < r' div 60 mod 60 \<or> r div 60 mod 60 = r' div 60 mod 60 \<and> r mod 60 < r' mod 60))))"
  proof (cases "a div 86400 < b div 86400")
    case True
    then show ?thesis using date_of_days_less [OF da db] by blast
  next
    case False
    moreover have "a div 86400 \<le> b div 86400" using assms(1) by (simp add: zdiv_mono1)
    ultimately have same: "a div 86400 = b div 86400" by simp
    then have "r < r'" using ab assms(1) by linarith
    then have "r div 3600 < r' div 3600 \<or> r div 3600 = r' div 3600 \<and>
        (r div 60 mod 60 < r' div 60 mod 60 \<or> r div 60 mod 60 = r' div 60 mod 60 \<and> r mod 60 < r' mod 60)"
      by (rule time_of_day_less)
    then show ?thesis using same da db by simp
  qed
  then show ?thesis
    unfolding format_rfc3339_def Let_def da db r_def [symmetric] r'_def [symmetric] prod.case
    by (simp only: bytes_less_pad4 [OF y(1,2,3,4)] append_Cons append_Nil bytes_less_same
        bytes_less_pad2 [OF md(1,2,5,6)] bytes_less_pad2 [OF md(3,4,7,8)]
        bytes_less_pad2 [OF R(1,2) R'(1,2)] bytes_less_pad2 [OF R(3,4) R'(3,4)]
        bytes_less_pad2 [OF R(5,6) R'(5,6)] bytes_less_irrefl) simp
qed



end
