(* ===== verification/SkinPool.thy ===== *)
theory SkinPool
  imports Rfc3339 "HOL-Library.List_Lexorder" "HOL-Library.Char_ord"
begin

text \<open>
  The skin pool (\<open>internal/gacha/pool.go\<close>, \<open>internal/gacha/rng.go\<close>): the reader of the
  master data \<open>skins.csv\<close> and the weighted roll. The reader of Go's \<open>encoding/csv\<close> (with
  \<open>FieldsPerRecord = -1\<close>) and the string functions are modelled on bytes; Go's Unicode case
  tables are the parameter \<open>uni\<close>, used only for a text with a byte above 127. The random bytes
  are an argument (\<open>None\<close>: the source failed), SHA-256 the parameter \<open>digest\<close>.
\<close>

section \<open>The CSV reader\<close>

text \<open>
  One line with its end normalised to a line feed, and what follows; \<open>None\<close> at the end of the
  input. A last line without a line feed loses a trailing carriage return.
\<close>

definition LF :: char where "LF = CHR 0x0A"
definition CR :: char where "CR = CHR 0x0D"
definition QUOTE :: char where "QUOTE = CHR 0x22"
definition COMMA :: char where "COMMA = CHR 0x2C"

definition drop_cr :: "string \<Rightarrow> string" where
  "drop_cr l = (if l \<noteq> [] \<and> last l = CR then butlast l else l)"

definition readLine :: "string \<Rightarrow> (string \<times> string) option" where
  "readLine s =
     (if s = [] then None
      else
        let l = takeWhile (\<lambda>c. c \<noteq> LF) s; rest = dropWhile (\<lambda>c. c \<noteq> LF) s
        in if rest = [] then Some (drop_cr l, []) else Some (drop_cr l @ [LF], tl rest))"

lemma length_drop_cr: "length (drop_cr l) \<le> length l"
  by (simp add: drop_cr_def)

lemma readLine_length:
  assumes "readLine s = Some (l, rest)"
  shows "length l + length rest \<le> length s" and "length rest < length s"
proof -
  define a b where "a = takeWhile (\<lambda>c. c \<noteq> LF) s" and "b = dropWhile (\<lambda>c. c \<noteq> LF) s"
  have s: "length s = length a + length b"
    unfolding a_def b_def by (metis length_append takeWhile_dropWhile_id)
  have r: "readLine s = (if s = [] then None
      else if b = [] then Some (drop_cr a, []) else Some (drop_cr a @ [LF], tl b))"
    by (simp only: readLine_def Let_def a_def [symmetric] b_def [symmetric])
  have c: "length (drop_cr a) \<le> length a" by (rule length_drop_cr)
  have "s \<noteq> []" using assms by (auto simp: readLine_def)
  then have "length l + length rest \<le> length s \<and> length rest < length s"
    using assms s c unfolding r by (cases b) auto
  then show "length l + length rest \<le> length s" and "length rest < length s" by simp_all
qed

text \<open>
  The fields of one record. \<open>q = None\<close>: at the start of a field; \<open>q = Some buf\<close>: inside quotes,
  with the text so far, which may run over the following lines.
\<close>

definition no_newline :: "string \<Rightarrow> string" where
  "no_newline l = (if l \<noteq> [] \<and> last l = LF then butlast l else l)"

lemma dropWhile_shorter: "dropWhile P xs \<noteq> [] \<Longrightarrow> length (tl (dropWhile P xs)) < length xs"
  using length_dropWhile_le [of P xs] by (cases "dropWhile P xs") auto

function csv_fields ::
  "string option \<Rightarrow> string \<Rightarrow> string \<Rightarrow> string list \<Rightarrow> string list option \<times> string" where
  "csv_fields None line rest acc =
     (if line \<noteq> [] \<and> hd line = QUOTE then csv_fields (Some []) (tl line) rest acc
      else
        let field = takeWhile (\<lambda>c. c \<noteq> COMMA) line; more = dropWhile (\<lambda>c. c \<noteq> COMMA) line
        in if more = []
           then if QUOTE \<in> set field then (None, rest) else (Some (acc @ [no_newline field]), rest)
           else if QUOTE \<in> set field then (None, rest)
           else csv_fields None (tl more) rest (acc @ [field]))"
| "csv_fields (Some buf) line rest acc =
     (let part = takeWhile (\<lambda>c. c \<noteq> QUOTE) line; more = dropWhile (\<lambda>c. c \<noteq> QUOTE) line
      in if more \<noteq> []
         then
           let line' = tl more
           in if line' \<noteq> [] \<and> hd line' = QUOTE
              then csv_fields (Some (buf @ part @ [QUOTE])) (tl line') rest acc
              else if line' \<noteq> [] \<and> hd line' = COMMA
              then csv_fields None (tl line') rest (acc @ [buf @ part])
              else if no_newline line' = [] then (Some (acc @ [buf @ part]), rest)
              else (None, rest)
         else if line \<noteq> []
         then (case readLine rest of
                 None \<Rightarrow> csv_fields (Some (buf @ line)) [] [] acc
               | Some (l, rest') \<Rightarrow> csv_fields (Some (buf @ line)) l rest' acc)
         else (None, rest))"
  by pat_completeness auto

termination
proof (relation "measure (\<lambda>(q, line, rest, acc). length line + length rest)", goal_cases)
  case (2 line rest acc) then show ?case by (cases line) simp_all
next
  case (3 line rest acc x xa) then show ?case using dropWhile_shorter [of _ line] by simp
next
  case (4 buf line rest acc x xa xb)
  then show ?case using dropWhile_shorter [of "\<lambda>c. c \<noteq> QUOTE" line] by (cases xb) simp_all
next
  case (5 buf line rest acc x xa xb)
  then show ?case using dropWhile_shorter [of "\<lambda>c. c \<noteq> QUOTE" line] by (cases xb) simp_all
next
  case (6 buf line rest acc x xa) then show ?case by (cases line) simp_all
next
  case (7 buf line rest acc x xa x2 l rest')
  then show ?case using readLine_length(1) [of rest l rest'] by (cases line) simp_all
qed simp

declare csv_fields.simps [simp del]

lemma csv_fields_rest: "length (snd (csv_fields q line rest acc)) \<le> length rest"
proof (induction q line rest acc rule: csv_fields.induct)
  case (1 line rest acc)
  let ?field = "takeWhile (\<lambda>c. c \<noteq> COMMA) line" and ?more = "dropWhile (\<lambda>c. c \<noteq> COMMA) line"
  note eq = csv_fields.simps(1) [of line rest acc, unfolded Let_def]
  show ?case
  proof (cases "line \<noteq> [] \<and> hd line = QUOTE")
    case True
    then show ?thesis using "1.IH"(1) unfolding eq by (simp only: simp_thms if_True)
  next
    case False
    show ?thesis
    proof (cases "?more = [] \<or> QUOTE \<in> set ?field")
      case True
      then show ?thesis using False unfolding eq by (auto simp only: if_False snd_conv le_refl split: if_split)
    next
      case ok: False
      then show ?thesis using "1.IH"(2) [OF False refl refl] False unfolding eq by (simp only: simp_thms if_True if_False de_Morgan_disj)
    qed
  qed
next
  case (2 buf line rest acc)
  let ?more = "dropWhile (\<lambda>c. c \<noteq> QUOTE) line"
  note eq = csv_fields.simps(2) [of buf line rest acc, unfolded Let_def]
  show ?case
  proof (cases "?more = []")
    case False
    note ih = "2.IH"(1,2) [OF refl refl False refl]
    let ?l = "tl ?more"
    consider "?l \<noteq> [] \<and> hd ?l = QUOTE" | "\<not> (?l \<noteq> [] \<and> hd ?l = QUOTE)" "?l \<noteq> [] \<and> hd ?l = COMMA"
      | "\<not> (?l \<noteq> [] \<and> hd ?l = QUOTE)" "\<not> (?l \<noteq> [] \<and> hd ?l = COMMA)" by blast
    then show ?thesis
    proof cases
      case 1
      then show ?thesis using False ih(1) unfolding eq by (simp only: simp_thms if_True if_False)
    next
      case 2
      then show ?thesis using False ih(2) unfolding eq by (simp only: simp_thms if_True if_False)
    next
      case 3
      then show ?thesis using False unfolding eq by (simp only: simp_thms if_True if_False split: if_split) simp
    qed
  next
    case True
    show ?thesis
    proof (cases "line = []")
      case l: True
      show ?thesis using True l unfolding eq by simp
    next
      case l: False
      note ih = "2.IH"(3,4) [OF refl refl _ l]
      show ?thesis
      proof (cases "readLine rest")
        case None
        then have "csv_fields (Some buf) line rest acc = csv_fields (Some (buf @ line)) [] [] acc"
          unfolding eq by (simp only: True l simp_thms if_True if_False option.case not_False_eq_True)
        then show ?thesis using ih(1) [OF _ None] True by simp
      next
        case (Some p)
        obtain a rest' where p: "p = (a, rest')" by (cases p)
        have "length rest' < length rest" using readLine_length(2) Some p by simp
        moreover have "csv_fields (Some buf) line rest acc = csv_fields (Some (buf @ line)) a rest' acc"
          unfolding eq by (simp only: True l Some p simp_thms if_True if_False option.case prod.case not_False_eq_True)
        moreover have "length (snd (csv_fields (Some (buf @ line)) a rest' acc)) \<le> length rest'"
          by (rule ih(2) [OF _ Some]) (simp_all add: True p)
        ultimately show ?thesis by simp
      qed
    qed
  qed
qed

text \<open>\<open>Reader.Read\<close>: skip empty lines; \<open>None\<close> is \<open>io.EOF\<close>, \<open>Some (None, _)\<close> a parse error.\<close>

function csv_read :: "string \<Rightarrow> (string list option \<times> string) option" where
  "csv_read s =
     (case readLine s of
        None \<Rightarrow> None
      | Some (l, rest) \<Rightarrow> if no_newline l = [] then csv_read rest else Some (csv_fields None l rest []))"
  by pat_completeness auto

termination
  by (relation "measure length") (auto dest: readLine_length(2))

declare csv_read.simps [simp del]

lemma csv_read_rest: "csv_read s = Some (r, rest) \<Longrightarrow> length rest < length s"
proof (induction s rule: csv_read.induct)
  case (1 s)
  obtain l s' where l: "readLine s = Some (l, s')"
    using "1.prems" by (subst (asm) csv_read.simps) (auto split: option.splits)
  note shorter = readLine_length(2) [OF l]
  show ?case
  proof (cases "no_newline l = []")
    case True
    then have "csv_read s' = Some (r, rest)" using "1.prems" l by (subst (asm) csv_read.simps) simp
    then show ?thesis using "1.IH" [OF l refl True] shorter by simp
  next
    case False
    then have "csv_fields None l s' [] = (r, rest)" using "1.prems" l by (subst (asm) csv_read.simps) simp
    then show ?thesis using csv_fields_rest [of None l s' "[]"] shorter by simp
  qed
qed

section \<open>String functions\<close>

text \<open>The UTF-8 encodings of the code points that \<open>unicode.IsSpace\<close> accepts.\<close>

definition space_bytes :: "string list" where
  "space_bytes = [[CHR 0x09], [CHR 0x0A], [CHR 0x0B], [CHR 0x0C], [CHR 0x0D], [CHR 0x20], [CHR 0xC2, CHR 0x85],
     [CHR 0xC2, CHR 0xA0], [CHR 0xE1, CHR 0x9A, CHR 0x80], [CHR 0xE2, CHR 0x80, CHR 0x80], [CHR
     0xE2, CHR 0x80, CHR 0x81], [CHR 0xE2, CHR 0x80, CHR 0x82], [CHR 0xE2, CHR 0x80, CHR 0x83], [CHR
     0xE2, CHR 0x80, CHR 0x84], [CHR 0xE2, CHR 0x80, CHR 0x85], [CHR 0xE2, CHR 0x80, CHR 0x86], [CHR
     0xE2, CHR 0x80, CHR 0x87], [CHR 0xE2, CHR 0x80, CHR 0x88], [CHR 0xE2, CHR 0x80, CHR 0x89], [CHR
     0xE2, CHR 0x80, CHR 0x8A], [CHR 0xE2, CHR 0x80, CHR 0xA8], [CHR 0xE2, CHR 0x80, CHR 0xA9], [CHR
     0xE2, CHR 0x80, CHR 0xAF], [CHR 0xE2, CHR 0x81, CHR 0x9F], [CHR 0xE3, CHR 0x80, CHR 0x80]]"

definition starts_with :: "string \<Rightarrow> string \<Rightarrow> bool" where
  "starts_with p s \<longleftrightarrow> p \<noteq> [] \<and> take (length p) s = p"

function strip :: "string list \<Rightarrow> string \<Rightarrow> string" where
  "strip ps s = (case find (\<lambda>p. starts_with p s) ps of
                   None \<Rightarrow> s | Some p \<Rightarrow> strip ps (drop (length p) s))"
  by pat_completeness auto

termination
proof (relation "measure (\<lambda>(ps, s). length s)", goal_cases)
  case (2 ps s p)
  then have p: "p \<noteq> []" "take (length p) s = p"
    by (auto simp: starts_with_def dest!: find_SomeD)
  then have "s \<noteq> []" by auto
  with p(1) show ?case by (simp add: diff_less)
qed simp

declare strip.simps [simp del]

definition TrimSpace :: "string \<Rightarrow> string" where
  "TrimSpace s = rev (strip (map rev space_bytes) (rev (strip space_bytes s)))"

definition ascii_lower :: "char \<Rightarrow> char" where
  "ascii_lower c = (let v = of_char c :: nat in if 65 \<le> v \<and> v \<le> 90 then char_of (v + 32) else c)"

definition ToLower :: "(string \<Rightarrow> string) \<Rightarrow> string \<Rightarrow> string" where
  "ToLower uni s = (if list_all (\<lambda>c. (of_char c :: nat) < 128) s then map ascii_lower s else uni s)"

text \<open>\<open>strings.TrimPrefix\<close> of the byte order mark.\<close>

definition trim_bom :: "string \<Rightarrow> string" where
  "trim_bom s = (if starts_with [CHR 0xEF, CHR 0xBB, CHR 0xBF] s then drop 3 s else s)"

section \<open>Rarities\<close>

definition Common :: string where "Common = ''common''"
definition Uncommon :: string where "Uncommon = ''uncommon''"
definition Rare :: string where "Rare = ''rare''"
definition Unique :: string where "Unique = ''unique''"
definition Legendary :: string where "Legendary = ''legendary''"

lemmas rarity_defs = Common_def Uncommon_def Rare_def Unique_def Legendary_def

definition gachaRarities :: "string list" where
  "gachaRarities = [Common, Uncommon, Rare, Unique, Legendary]"

definition isGachaRarity :: "string \<Rightarrow> bool" where
  "isGachaRarity r \<longleftrightarrow> r = Common \<or> r = Uncommon \<or> r = Rare \<or> r = Unique \<or> r = Legendary"

definition rarityThresholds :: "(string \<times> nat) list" where
  "rarityThresholds =
     [(Common, 8000), (Uncommon, 9000), (Rare, 9500), (Unique, 9990), (Legendary, 10000)]"

definition determineRarity :: "nat \<Rightarrow> string" where
  "determineRarity roll =
     (case find (\<lambda>(_, t). roll < t) rarityThresholds of Some (r, _) \<Rightarrow> r | None \<Rightarrow> Legendary)"

section \<open>Loading the pool\<close>

definition knownPartTypes :: "string list" where
  "knownPartTypes = [''top'', ''bottom'', ''outfit'', ''accessory'', ''face'', ''effect'']"

record load_stats =
  Total :: int
  Loaded :: int
  SkippedBadRarity :: int
  SkippedBadPart :: int
  SkippedMalformed :: int

text \<open>\<open>partTypes\<close> are the keys of \<open>byPartRarity\<close>, in some order.\<close>

record skin_pool =
  partsByRarity :: "string \<Rightarrow> string list"
  byPartRarity :: "string \<Rightarrow> string \<Rightarrow> string list"
  partTypes :: "string list"
  skinRarity :: "string \<Rightarrow> string option"
  stats :: load_stats

datatype load_error =
  OpenFailed | ReadHeader | BadHeader "string list" | ReadRow int | DuplicateSkin string | EmptyRarity string

definition no_stats :: load_stats where
  "no_stats = \<lparr>Total = 0, Loaded = 0, SkippedBadRarity = 0, SkippedBadPart = 0, SkippedMalformed = 0\<rparr>"

definition empty_pool :: skin_pool where
  "empty_pool = \<lparr>partsByRarity = (\<lambda>_. []), byPartRarity = (\<lambda>_ _. []), partTypes = [],
     skinRarity = (\<lambda>_. None), stats = no_stats\<rparr>"

definition malformed :: "skin_pool \<Rightarrow> skin_pool" where
  "malformed p = p\<lparr>stats := (stats p)\<lparr>SkippedMalformed := SkippedMalformed (stats p) + 1\<rparr>\<rparr>"

text \<open>The body of the loop for one record; the set \<open>seen\<close> travels beside the pool.\<close>

definition add_record ::
  "(string \<Rightarrow> string) \<Rightarrow> string list \<Rightarrow> string list \<times> skin_pool \<Rightarrow> load_error + string list \<times> skin_pool" where
  "add_record uni rcd sp =
     (let seen = fst sp;
          p = (snd sp)\<lparr>stats := (stats (snd sp))\<lparr>Total := Total (stats (snd sp)) + 1\<rparr>\<rparr>
      in if length rcd \<noteq> 3 then Inr (seen, malformed p)
         else
           let skinID = TrimSpace (rcd ! 0);
               part = ToLower uni (TrimSpace (rcd ! 1));
               r = ToLower uni (TrimSpace (rcd ! 2))
           in if skinID = [] then Inr (seen, malformed p)
              else if skinID \<noteq> ToLower uni skinID then Inr (seen, malformed p)
              else if \<not> isGachaRarity r
              then Inr (seen, p\<lparr>stats := (stats p)\<lparr>SkippedBadRarity := SkippedBadRarity (stats p) + 1\<rparr>\<rparr>)
              else if part \<notin> set knownPartTypes
              then Inr (seen, p\<lparr>stats := (stats p)\<lparr>SkippedBadPart := SkippedBadPart (stats p) + 1\<rparr>\<rparr>)
              else if skinID \<in> set seen then Inl (DuplicateSkin skinID)
              else Inr (skinID # seen,
                p\<lparr>byPartRarity := (byPartRarity p)(part := (byPartRarity p part)(r := byPartRarity p part r @ [skinID])),
                  partTypes := (if part \<in> set (partTypes p) then partTypes p else partTypes p @ [part]),
                  skinRarity := (skinRarity p)(skinID \<mapsto> r),
                  stats := (stats p)\<lparr>Loaded := Loaded (stats p) + 1\<rparr>\<rparr>))"

function load_rows ::
  "(string \<Rightarrow> string) \<Rightarrow> string \<Rightarrow> string list \<times> skin_pool \<Rightarrow> load_error + string list \<times> skin_pool" where
  "load_rows uni s sp =
     (case csv_read s of
        None \<Rightarrow> Inr sp
      | Some (None, rest) \<Rightarrow> Inl (ReadRow (Total (stats (snd sp)) + 1))
      | Some (Some rcd, rest) \<Rightarrow>
          (case add_record uni rcd sp of Inl e \<Rightarrow> Inl e | Inr sp' \<Rightarrow> load_rows uni rest sp'))"
  by pat_completeness auto

termination
  by (relation "measure (\<lambda>(uni, s, sp). length s)") (auto dest: csv_read_rest)

declare load_rows.simps [simp del]

text \<open>The part types that hold a skin of a rarity, sorted.\<close>

definition index_parts :: "skin_pool \<Rightarrow> skin_pool" where
  "index_parts p =
     p\<lparr>partsByRarity := (\<lambda>r. sort (filter (\<lambda>part. byPartRarity p part r \<noteq> []) (partTypes p)))\<rparr>"

definition parseSkinPool :: "(string \<Rightarrow> string) \<Rightarrow> string \<Rightarrow> load_error + skin_pool" where
  "parseSkinPool uni s =
     (case csv_read s of
        None \<Rightarrow> Inl ReadHeader
      | Some (None, _) \<Rightarrow> Inl ReadHeader
      | Some (Some header, rest) \<Rightarrow>
          let h = (if header = [] then [] else trim_bom (hd header) # tl header)
          in if length h \<noteq> 3 \<or> TrimSpace (h ! 0) \<noteq> ''skinId'' \<or> TrimSpace (h ! 1) \<noteq> ''partType'' \<or>
                TrimSpace (h ! 2) \<noteq> ''rarity''
             then Inl (BadHeader h)
             else bindE (load_rows uni rest ([], empty_pool)) (\<lambda>(seen, p0).
               let p = index_parts p0
               in case find (\<lambda>r. partsByRarity p r = []) gachaRarities of
                    Some r \<Rightarrow> Inl (EmptyRarity r)
                  | None \<Rightarrow> Inr p))"

text \<open>\<open>LoadSkinPool\<close>: the content of the file, or \<open>None\<close> when it cannot be opened.\<close>

definition LoadSkinPool :: "(string \<Rightarrow> string) \<Rightarrow> string option \<Rightarrow> load_error + skin_pool" where
  "LoadSkinPool uni file = (case file of None \<Rightarrow> Inl OpenFailed | Some s \<Rightarrow> parseSkinPool uni s)"

definition RarityOf :: "skin_pool \<Rightarrow> string \<Rightarrow> string option" where
  "RarityOf p skinID = skinRarity p skinID"

section \<open>Rolling\<close>

text \<open>\<open>binary.BigEndian\<close>.\<close>

definition big_endian :: "8 word list \<Rightarrow> nat" where
  "big_endian bs = foldl (\<lambda>n b. 256 * n + unat b) 0 bs"

definition bytes_between :: "nat \<Rightarrow> nat \<Rightarrow> 8 word list \<Rightarrow> 8 word list" where
  "bytes_between i j bs = take (j - i) (drop i bs)"

text \<open>\<open>xs[n % uint32(len(xs))]\<close>; \<open>None\<close> is the run-time panic of the division by zero.\<close>

definition pick_mod :: "nat \<Rightarrow> 'a list \<Rightarrow> 'a option" where
  "pick_mod n xs = (if xs = [] then None else Some (xs ! (n mod length xs)))"

record roll_result =
  ItemID :: string
  Rarity :: string
  SeedHash :: string

datatype roll_error = RandFailed | RollPanic

definition PickByRarity :: "skin_pool \<Rightarrow> 8 word list option \<Rightarrow> string \<Rightarrow> string option" where
  "PickByRarity p rand r =
     (let parts = partsByRarity p r
      in if parts = [] then None
         else case rand of
                None \<Rightarrow> None
              | Some seed \<Rightarrow>
                  Option.bind (pick_mod (big_endian (bytes_between 0 4 seed)) parts) (\<lambda>part.
                    pick_mod (big_endian (bytes_between 4 8 seed)) (byPartRarity p part r)))"

definition Roll ::
  "(8 word list \<Rightarrow> string) \<Rightarrow> skin_pool \<Rightarrow> 8 word list option \<Rightarrow> roll_error + roll_result" where
  "Roll digest p rand =
     (case rand of
        None \<Rightarrow> Inl RandFailed
      | Some seed \<Rightarrow>
          let r = determineRarity (big_endian (bytes_between 0 8 seed) mod 10000)
          in case pick_mod (big_endian (bytes_between 8 12 seed)) (partsByRarity p r) of
               None \<Rightarrow> Inl RollPanic
             | Some part \<Rightarrow>
                 (case pick_mod (big_endian (bytes_between 12 16 seed)) (byPartRarity p part r) of
                    None \<Rightarrow> Inl RollPanic
                  | Some item \<Rightarrow> Inr \<lparr>ItemID = item, Rarity = r, SeedHash = digest seed\<rparr>))"

section \<open>The invariant of the loop\<close>

definition loading_ok :: "string list \<times> skin_pool \<Rightarrow> bool" where
  "loading_ok sp \<longleftrightarrow>
     (let seen = fst sp; p = snd sp; st = stats p
      in distinct seen \<and>
         (\<forall>s. s \<in> set seen \<longleftrightarrow> skinRarity p s \<noteq> None) \<and>
         (\<forall>part r. byPartRarity p part r \<noteq> [] \<longrightarrow> part \<in> set (partTypes p) \<and> isGachaRarity r) \<and>
         (\<forall>part r s. s \<in> set (byPartRarity p part r) \<longrightarrow> skinRarity p s = Some r) \<and>
         (\<forall>s r. skinRarity p s = Some r \<longrightarrow> (\<exists>part. s \<in> set (byPartRarity p part r))) \<and>
         set (partTypes p) \<subseteq> set knownPartTypes \<and>
         Total st = Loaded st + SkippedBadRarity st + SkippedBadPart st + SkippedMalformed st \<and>
         Loaded st = int (length seen))"

lemma loading_ok_empty: "loading_ok ([], empty_pool)"
  by (simp add: loading_ok_def empty_pool_def no_stats_def)

text \<open>A row that only moves the counters keeps the invariant when it counts once.\<close>

lemma loading_ok_skip:
  assumes "loading_ok (seen, p)"
    and "Total st = Total (stats p) + 1" and "Loaded st = Loaded (stats p)"
    and "SkippedBadRarity st + SkippedBadPart st + SkippedMalformed st =
      SkippedBadRarity (stats p) + SkippedBadPart (stats p) + SkippedMalformed (stats p) + 1"
  shows "loading_ok (seen, p\<lparr>stats := st\<rparr>)"
  using assms unfolding loading_ok_def Let_def by simp

lemma loading_ok_insert:
  assumes ok: "loading_ok (seen, p)" and fresh: "s \<notin> set seen" and r: "isGachaRarity r"
    and part: "part \<in> set knownPartTypes"
    and st: "Total st = Total (stats p) + 1" "Loaded st = Loaded (stats p) + 1"
      "SkippedBadRarity st = SkippedBadRarity (stats p)" "SkippedBadPart st = SkippedBadPart (stats p)"
      "SkippedMalformed st = SkippedMalformed (stats p)"
    and p': "byPartRarity p' = (byPartRarity p)(part := (byPartRarity p part)(r := byPartRarity p part r @ [s]))"
      "set (partTypes p') = insert part (set (partTypes p))"
      "skinRarity p' = (skinRarity p)(s \<mapsto> r)" "stats p' = st"
  shows "loading_ok (s # seen, p')"
proof -
  from ok have o: "distinct seen" "\<And>s. s \<in> set seen \<longleftrightarrow> skinRarity p s \<noteq> None"
    "\<And>part r. byPartRarity p part r \<noteq> [] \<Longrightarrow> part \<in> set (partTypes p) \<and> isGachaRarity r"
    "\<And>part r s. s \<in> set (byPartRarity p part r) \<Longrightarrow> skinRarity p s = Some r"
    "\<And>s r. skinRarity p s = Some r \<Longrightarrow> \<exists>part. s \<in> set (byPartRarity p part r)"
    "set (partTypes p) \<subseteq> set knownPartTypes"
    by (simp_all add: loading_ok_def Let_def)
  have mem: "x \<in> set (byPartRarity p' q t) \<longleftrightarrow> x \<in> set (byPartRarity p q t) \<or> x = s \<and> q = part \<and> t = r" for x q t
    by (auto simp: p'(1))
  have nil: "skinRarity p s = None" using fresh o(2) by simp
  have "byPartRarity p' q t \<noteq> [] \<Longrightarrow> q \<in> set (partTypes p') \<and> isGachaRarity t" for q t
    using o(3) [of q t] r by (auto simp: p'(1,2) split: if_splits)
  moreover have "x \<in> set (byPartRarity p' q t) \<Longrightarrow> skinRarity p' x = Some t" for x q t
    using o(4) [of x q t] nil by (auto simp: mem p'(3))
  moreover have "skinRarity p' x = Some t \<Longrightarrow> \<exists>q. x \<in> set (byPartRarity p' q t)" for x t
    using o(5) [of x t] by (auto simp: mem p'(3) split: if_splits)
  moreover have "(x \<in> set (s # seen)) = (skinRarity p' x \<noteq> None)" for x
    using o(2) [of x] by (simp add: p'(3))
  moreover have "distinct (s # seen)" using o(1) fresh by simp
  moreover have "set (partTypes p') \<subseteq> set knownPartTypes" using o(6) part by (simp add: p'(2))
  moreover have "Total st = Loaded st + SkippedBadRarity st + SkippedBadPart st + SkippedMalformed st \<and>
      Loaded st = int (length (s # seen))" using ok st by (simp add: loading_ok_def Let_def)
  ultimately show ?thesis unfolding loading_ok_def Let_def p'(4) fst_conv snd_conv by blast
qed

lemma add_record_ok:
  assumes "loading_ok (seen, p)" and "add_record uni rcd (seen, p) = Inr sp'"
  shows "loading_ok sp'"
proof -
  let ?s = "TrimSpace (rcd ! 0)" and ?part = "ToLower uni (TrimSpace (rcd ! 1))"
    and ?r = "ToLower uni (TrimSpace (rcd ! 2))"
  note def = add_record_def [of uni rcd "(seen, p)", unfolded Let_def fst_conv snd_conv]
  consider (bad) "length rcd \<noteq> 3 \<or> ?s = [] \<or> ?s \<noteq> ToLower uni ?s"
    | (rarity) "length rcd = 3" "?s \<noteq> []" "?s = ToLower uni ?s" "\<not> isGachaRarity ?r"
    | (part) "length rcd = 3" "?s \<noteq> []" "?s = ToLower uni ?s" "isGachaRarity ?r" "?part \<notin> set knownPartTypes"
    | (ok) "length rcd = 3" "?s \<noteq> []" "?s = ToLower uni ?s" "isGachaRarity ?r" "?part \<in> set knownPartTypes"
    by blast
  then show ?thesis
  proof cases
    case bad
    then have "sp' = (seen, malformed (p\<lparr>stats := (stats p)\<lparr>Total := Total (stats p) + 1\<rparr>\<rparr>))"
      using assms(2) unfolding def by (metis sum.inject(2))
    then show ?thesis by (simp add: malformed_def) (rule loading_ok_skip [OF assms(1)], simp_all)
  next
    case rarity
    then have "sp' = (seen, p\<lparr>stats := (stats p)\<lparr>Total := Total (stats p) + 1,
        SkippedBadRarity := SkippedBadRarity (stats p) + 1\<rparr>\<rparr>)"
      using assms(2) unfolding def by simp
    then show ?thesis by simp (rule loading_ok_skip [OF assms(1)], simp_all)
  next
    case part
    then have "sp' = (seen, p\<lparr>stats := (stats p)\<lparr>Total := Total (stats p) + 1,
        SkippedBadPart := SkippedBadPart (stats p) + 1\<rparr>\<rparr>)"
      using assms(2) unfolding def by simp
    then show ?thesis by simp (rule loading_ok_skip [OF assms(1)], simp_all)
  next
    case ok
    then have fresh: "?s \<notin> set seen" using assms(2) unfolding def by (simp split: if_splits)
    let ?st = "(stats p)\<lparr>Total := Total (stats p) + 1, Loaded := Loaded (stats p) + 1\<rparr>"
    let ?parts = "if ?part \<in> set (partTypes p) then partTypes p else partTypes p @ [?part]"
    have sp': "sp' = (?s # seen,
        p\<lparr>byPartRarity := (byPartRarity p)(?part := (byPartRarity p ?part)(?r := byPartRarity p ?part ?r @ [?s])),
          partTypes := ?parts, skinRarity := (skinRarity p)(?s \<mapsto> ?r), stats := ?st\<rparr>)"
      using assms(2) fresh ok unfolding def
      by (cases "?part \<in> set (partTypes p)") simp_all
    have parts: "set ?parts = insert ?part (set (partTypes p))" by auto
    show ?thesis
      unfolding sp' by (rule loading_ok_insert [OF assms(1) fresh ok(4,5), where st = ?st]) (use parts in simp_all)
  qed
qed

lemma load_rows_ok:
  "load_rows uni s (seen, p) = Inr sp' \<Longrightarrow> loading_ok (seen, p) \<Longrightarrow> loading_ok sp'"
proof (induction uni s "(seen, p)" arbitrary: seen p rule: load_rows.induct)
  case (1 uni s seen p)
  show ?case
  proof (cases "csv_read s")
    case None
    then show ?thesis using "1.prems" by (subst (asm) load_rows.simps) simp
  next
    case (Some x)
    obtain row rest where x: "x = (row, rest)" by (cases x)
    show ?thesis
    proof (cases row)
      case None
      then show ?thesis using "1.prems" Some x by (subst (asm) load_rows.simps) simp
    next
      case row: (Some rcd)
      obtain sp1 where sp1: "add_record uni rcd (seen, p) = Inr sp1" and rec: "load_rows uni rest sp1 = Inr sp'"
        using "1.prems"(1) Some x row by (subst (asm) load_rows.simps) (auto split: sum.splits)
      have "loading_ok sp1" using add_record_ok [OF "1.prems"(2) sp1] .
      then show ?thesis using "1.hyps" [OF Some x [symmetric] row, of "fst sp1" "snd sp1"] sp1 rec by simp
    qed
  qed
qed

section \<open>The pool\<close>

definition pool_ok :: "skin_pool \<Rightarrow> bool" where
  "pool_ok p \<longleftrightarrow>
     (\<forall>r. isGachaRarity r \<longrightarrow> partsByRarity p r \<noteq> []) \<and>
     (\<forall>part r. part \<in> set (partsByRarity p r) \<longleftrightarrow> byPartRarity p part r \<noteq> []) \<and>
     (\<forall>part r s. s \<in> set (byPartRarity p part r) \<longrightarrow> skinRarity p s = Some r) \<and>
     (\<forall>s r. skinRarity p s = Some r \<longrightarrow> isGachaRarity r)"

lemma parseSkinPool_Inr:
  assumes "parseSkinPool uni s = Inr p"
  obtains seen p0 where "loading_ok (seen, p0)" and "p = index_parts p0"
    and "\<forall>r \<in> set gachaRarities. partsByRarity p r \<noteq> []"
proof -
  obtain header rest where c: "csv_read s = Some (Some header, rest)"
  proof (cases "csv_read s")
    case None
    then show thesis using assms by (simp add: parseSkinPool_def)
  next
    case (Some x)
    obtain row rest where x: "x = (row, rest)" by (cases x)
    then show thesis using that Some assms by (cases row) (simp_all add: parseSkinPool_def)
  qed
  let ?h = "if header = [] then [] else trim_bom (hd header) # tl header"
  have passed: "(if b then Inl e else y) = Inr p \<Longrightarrow> y = Inr p" for b and e :: load_error and y
    by (cases b) simp_all
  have "bindE (load_rows uni rest ([], empty_pool)) (\<lambda>(seen, p0).
       case find (\<lambda>r. partsByRarity (index_parts p0) r = []) gachaRarities of
         Some r \<Rightarrow> Inl (EmptyRarity r) | None \<Rightarrow> Inr (index_parts p0)) = Inr p"
    by (rule passed [OF assms [unfolded parseSkinPool_def c Let_def option.case prod.case]])
  then obtain seen p0 where l: "load_rows uni rest ([], empty_pool) = Inr (seen, p0)"
    and f: "find (\<lambda>r. partsByRarity (index_parts p0) r = []) gachaRarities = None" and p: "p = index_parts p0"
    by (auto simp: run_simps split: option.splits)
  have "\<forall>r \<in> set gachaRarities. partsByRarity p r \<noteq> []" using f unfolding p find_None_conv .
  with that load_rows_ok [OF l loading_ok_empty] p show thesis by blast
qed

lemma isGachaRarity_iff: "isGachaRarity r \<longleftrightarrow> r \<in> set gachaRarities"
  by (auto simp: isGachaRarity_def gachaRarities_def)

lemma parseSkinPool_pool_ok:
  assumes "parseSkinPool uni s = Inr p"
  shows "pool_ok p"
  using assms
proof (rule parseSkinPool_Inr)
  fix seen p0
  assume ok: "loading_ok (seen, p0)" and p: "p = index_parts p0"
    and all: "\<forall>r \<in> set gachaRarities. partsByRarity p r \<noteq> []"
  from ok have o: "\<And>part r. byPartRarity p0 part r \<noteq> [] \<Longrightarrow> part \<in> set (partTypes p0) \<and> isGachaRarity r"
    "\<And>part r s. s \<in> set (byPartRarity p0 part r) \<Longrightarrow> skinRarity p0 s = Some r"
    "\<And>s r. skinRarity p0 s = Some r \<Longrightarrow> \<exists>part. s \<in> set (byPartRarity p0 part r)"
    by (simp_all add: loading_ok_def Let_def)
  have "isGachaRarity r" if sr: "skinRarity p0 s = Some r" for s r
  proof -
    obtain part where "s \<in> set (byPartRarity p0 part r)" using o(3) [OF sr] by blast
    then have "byPartRarity p0 part r \<noteq> []" by auto
    then show ?thesis using o(1) by blast
  qed
  moreover have "part \<in> set (partsByRarity p r) \<longleftrightarrow> byPartRarity p part r \<noteq> []" for part r
    using o(1) [of part r] by (auto simp: p index_parts_def)
  ultimately show ?thesis
    using all o(2) unfolding pool_ok_def isGachaRarity_iff by (simp add: p index_parts_def)
qed

lemma pick_mod_in: "xs \<noteq> [] \<Longrightarrow> \<exists>x \<in> set xs. pick_mod n xs = Some x"
  by (simp add: pick_mod_def)

lemma determineRarity_gacha: "isGachaRarity (determineRarity n)"
  by (auto simp: determineRarity_def rarityThresholds_def isGachaRarity_def)

text \<open>A skin of a rarity can be drawn from a loaded pool, whatever the random bytes.\<close>

lemma pool_draw:
  assumes "pool_ok p" and "isGachaRarity r"
  obtains part s where "pick_mod i (partsByRarity p r) = Some part"
    and "pick_mod j (byPartRarity p part r) = Some s" and "skinRarity p s = Some r"
proof -
  have "partsByRarity p r \<noteq> []" using assms by (simp add: pool_ok_def)
  from pick_mod_in [OF this, of i] obtain part where part: "part \<in> set (partsByRarity p r)"
    "pick_mod i (partsByRarity p r) = Some part" by blast
  then have "byPartRarity p part r \<noteq> []" using assms(1) by (simp add: pool_ok_def)
  from pick_mod_in [OF this, of j] obtain s where s: "s \<in> set (byPartRarity p part r)"
    "pick_mod j (byPartRarity p part r) = Some s" by blast
  then have "skinRarity p s = Some r" using assms(1) by (simp add: pool_ok_def)
  with that part(2) s(2) show thesis by blast
qed

lemma Roll_ok:
  assumes "pool_ok p"
  obtains res where "Roll digest p (Some seed) = Inr res" and "RarityOf p (ItemID res) = Some (Rarity res)"
    and "Rarity res = determineRarity (big_endian (bytes_between 0 8 seed) mod 10000)"
    and "SeedHash res = digest seed"
proof -
  let ?r = "determineRarity (big_endian (bytes_between 0 8 seed) mod 10000)"
  obtain part s where "pick_mod (big_endian (bytes_between 8 12 seed)) (partsByRarity p ?r) = Some part"
    "pick_mod (big_endian (bytes_between 12 16 seed)) (byPartRarity p part ?r) = Some s" "skinRarity p s = Some ?r"
    using pool_draw [OF assms determineRarity_gacha] by blast
  with that show thesis by (simp add: Roll_def Let_def RarityOf_def)
qed

lemma PickByRarity_ok:
  assumes "pool_ok p" and "isGachaRarity r"
  obtains s where "PickByRarity p (Some seed) r = Some s" and "RarityOf p s = Some r"
proof -
  obtain part s where d: "pick_mod (big_endian (bytes_between 0 4 seed)) (partsByRarity p r) = Some part"
    "pick_mod (big_endian (bytes_between 4 8 seed)) (byPartRarity p part r) = Some s" "skinRarity p s = Some r"
    using pool_draw [OF assms] by blast
  then have "partsByRarity p r \<noteq> []" by (auto simp: pick_mod_def)
  with that d show thesis by (simp add: PickByRarity_def Let_def RarityOf_def)
qed

section \<open>Properties\<close>

text \<open>A master file with one skin per rarity, an empty line, and a row that is skipped.\<close>

definition demo_csv :: string where
  "demo_csv = concat (map (\<lambda>l. l @ [LF])
     [''skinId,partType,rarity'', ''a,Top,Common'', ''b,face, uncommon'', ''c,top,rare'' @ [CR], [],
      ''d,top,unique'', ''e,hat,rare'', ''f,top,legendary''])"

lemma demo_pool_loads: "\<not> isl (parseSkinPool id demo_csv)"
  by code_simp

text \<open>
  The statistics of a loaded pool add up, and the index is the accepted rows: every data row
  is counted once, the loaded rows are exactly the skins the pool knows, and a skin listed in a
  bucket has that bucket's rarity.
\<close>

lemma load_statistics:
  assumes "LoadSkinPool uni file = Inr p"
  shows "Total (stats p) = Loaded (stats p) + SkippedBadRarity (stats p) + SkippedBadPart (stats p) +
      SkippedMalformed (stats p) \<and>
    Loaded (stats p) = int (card {s. RarityOf p s \<noteq> None}) \<and>
    (\<forall>s r. RarityOf p s = Some r \<longleftrightarrow> (\<exists>part \<in> set (partsByRarity p r). s \<in> set (byPartRarity p part r)))"
proof -
  from assms obtain s where "parseSkinPool uni s = Inr p" by (auto simp: LoadSkinPool_def split: option.splits)
  then obtain seen p0 where ok: "loading_ok (seen, p0)" and p: "p = index_parts p0" by (rule parseSkinPool_Inr)
  have i: "stats p = stats p0" "skinRarity p = skinRarity p0" "byPartRarity p = byPartRarity p0"
    "set (partsByRarity p r) = {part \<in> set (partTypes p0). byPartRarity p0 part r \<noteq> []}" for r
    by (simp_all add: p index_parts_def)
  note o = ok [unfolded loading_ok_def Let_def fst_conv snd_conv]
  have "{s. skinRarity p0 s \<noteq> None} = set seen" using o by blast
  moreover have "distinct seen" using o by blast
  ultimately have "card {s. RarityOf p s \<noteq> None} = length seen"
    unfolding RarityOf_def i by (simp only: distinct_card)
  moreover have "RarityOf p s = Some r \<longleftrightarrow> (\<exists>part \<in> set (partsByRarity p r). s \<in> set (byPartRarity p part r))" for s r
  proof
    assume "RarityOf p s = Some r"
    then obtain part where s: "s \<in> set (byPartRarity p0 part r)" using o unfolding RarityOf_def i by blast
    then have "byPartRarity p0 part r \<noteq> []" by auto
    then have "part \<in> set (partTypes p0)" using o by blast
    with s show "\<exists>part \<in> set (partsByRarity p r). s \<in> set (byPartRarity p part r)"
      unfolding i(3,4) using \<open>byPartRarity p0 part r \<noteq> []\<close> by blast
  next
    assume "\<exists>part \<in> set (partsByRarity p r). s \<in> set (byPartRarity p part r)"
    then show "RarityOf p s = Some r" using o unfolding RarityOf_def i(2,3) by blast
  qed
  ultimately show ?thesis using o unfolding i(1) by presburger
qed

theorem load_statistics_witness:
  "\<exists>p. LoadSkinPool id (Some demo_csv) = Inr p \<and> Total (stats p) = Loaded (stats p) +
     SkippedBadRarity (stats p) + SkippedBadPart (stats p) + SkippedMalformed (stats p)"
proof -
  obtain p where "LoadSkinPool id (Some demo_csv) = Inr p"
    using demo_pool_loads by (cases "parseSkinPool id demo_csv") (simp_all add: LoadSkinPool_def)
  with load_statistics [OF this] show ?thesis by blast
qed

text \<open>
  C13. Drawing from a pool that loaded never fails or panics, for any random bytes: \<open>Roll\<close> returns
  a skin whose registered rarity is the rolled one, and \<open>PickByRarity\<close> returns a skin of the
  requested rarity. Only a failing random source makes them fail.
\<close>

theorem loaded_pool_draws:
  assumes "LoadSkinPool uni file = Inr p"
  shows "(\<exists>res. Roll digest p (Some seed) = Inr res \<and> RarityOf p (ItemID res) = Some (Rarity res) \<and>
      Rarity res = determineRarity (big_endian (bytes_between 0 8 seed) mod 10000) \<and> SeedHash res = digest seed) \<and>
    (\<forall>r. isGachaRarity r \<longrightarrow> (\<exists>s. PickByRarity p (Some seed) r = Some s \<and> RarityOf p s = Some r)) \<and>
    Roll digest p None = Inl RandFailed"
proof -
  from assms obtain s where "parseSkinPool uni s = Inr p" by (auto simp: LoadSkinPool_def split: option.splits)
  then have ok: "pool_ok p" by (rule parseSkinPool_pool_ok)
  have "\<exists>s. PickByRarity p (Some seed) r = Some s \<and> RarityOf p s = Some r" if "isGachaRarity r" for r
    using PickByRarity_ok [OF ok that] by metis
  moreover have "Roll digest p None = Inl RandFailed" by (simp add: Roll_def)
  ultimately show ?thesis using Roll_ok [OF ok, of digest seed] by metis
qed

theorem loaded_pool_draws_witness:
  "\<exists>p res. LoadSkinPool id (Some demo_csv) = Inr p \<and>
     Roll (\<lambda>_. []) p (Some (replicate 16 7)) = Inr res \<and> RarityOf p (ItemID res) = Some (Rarity res)"
proof -
  obtain p where "LoadSkinPool id (Some demo_csv) = Inr p"
    using demo_pool_loads by (cases "parseSkinPool id demo_csv") (simp_all add: LoadSkinPool_def)
  with loaded_pool_draws [OF this, of "\<lambda>_. []" "replicate 16 7"] show ?thesis by blast
qed

text \<open>
  The drop table: of the 10000 values a roll can take, exactly 8000 are common, 1000 uncommon,
  500 rare, 490 unique and 10 legendary, as the comment in the code says.
\<close>

lemma drop_rates:
  "map (\<lambda>r. card {roll. roll < 10000 \<and> determineRarity roll = r}) gachaRarities = [8000, 1000, 500, 490, 10]"
proof -
  have d: "determineRarity n = (if n < 8000 then Common else if n < 9000 then Uncommon
      else if n < 9500 then Rare else if n < 9990 then Unique else Legendary)" for n
    by (simp add: determineRarity_def rarityThresholds_def)
  have ne: "Common \<noteq> Uncommon" "Common \<noteq> Rare" "Common \<noteq> Unique" "Common \<noteq> Legendary" "Uncommon \<noteq> Rare"
    "Uncommon \<noteq> Unique" "Uncommon \<noteq> Legendary" "Rare \<noteq> Unique" "Rare \<noteq> Legendary" "Unique \<noteq> Legendary"
    by (simp_all add: rarity_defs)
  have sets: "{n. n < 10000 \<and> determineRarity n = Common} = {0..<8000}"
    "{n. n < 10000 \<and> determineRarity n = Uncommon} = {8000..<9000}"
    "{n. n < 10000 \<and> determineRarity n = Rare} = {9000..<9500}"
    "{n. n < 10000 \<and> determineRarity n = Unique} = {9500..<9990}"
    "{n. n < 10000 \<and> determineRarity n = Legendary} = {9990..<10000}"
    unfolding d using ne by auto
  show ?thesis by (simp add: gachaRarities_def sets)
qed

end
