(* ===== verification/Float64.thy ===== *)
theory Float64
  imports Prelude "HOL-Library.Log_Nat"
begin

text \<open>
  Go's \<open>float64\<close> (and SQLite's REAL): IEEE 754 binary64 with rounding to nearest, ties to
  even, subnormals and overflow to an infinity. A finite value is a rational number; the
  sign of zero is not kept (the program only adds, compares and prints such values).
  Rounding is shown monotone and exact on the integers up to \<open>2 ^ 53\<close>: every property of
  the point balances below rests on these two facts and on no assumption about rounding.
\<close>

section \<open>Rounding a rational to 53 significant bits\<close>

text \<open>The binary exponent of a positive rational: \<open>2 powi ilog2 x \<le> x < 2 powi (ilog2 x + 1)\<close>.\<close>

definition ilog2 :: "rat \<Rightarrow> int" where
  "ilog2 x = (if 1 \<le> x then bitlen \<lfloor>x\<rfloor> - 1 else - bitlen (\<lceil>1 / x\<rceil> - 1))"

text \<open>Round to the nearest integer, ties to the even one.\<close>

definition round_even :: "rat \<Rightarrow> int" where
  "round_even x =
     (let f = \<lfloor>x\<rfloor>; d = x - of_int f
      in if d < 1 / 2 then f else if d > 1 / 2 then f + 1 else if even f then f else f + 1)"

text \<open>The exponent of the last place, not below that of the subnormals.\<close>

definition ulp_exp :: "rat \<Rightarrow> int" where
  "ulp_exp x = max (ilog2 \<bar>x\<bar> - 52) (- 1074)"

definition round64 :: "rat \<Rightarrow> rat" where
  "round64 x =
     (if x = 0 then 0
      else of_int (round_even (x / 2 powi ulp_exp x)) * 2 powi ulp_exp x)"

datatype f64 = Fin rat | PInf | NInf | NaN

definition to_f64 :: "rat \<Rightarrow> f64" where
  "to_f64 x =
     (let r = round64 x
      in if 2 ^ 1024 \<le> r then PInf else if r \<le> - (2 ^ 1024) then NInf else Fin r)"

fun fneg :: "f64 \<Rightarrow> f64" where
  "fneg (Fin a) = Fin (- a)"
| "fneg PInf = NInf"
| "fneg NInf = PInf"
| "fneg NaN = NaN"

fun fadd :: "f64 \<Rightarrow> f64 \<Rightarrow> f64" where
  "fadd NaN _ = NaN"
| "fadd _ NaN = NaN"
| "fadd (Fin a) (Fin b) = to_f64 (a + b)"
| "fadd PInf NInf = NaN"
| "fadd NInf PInf = NaN"
| "fadd PInf _ = PInf"
| "fadd _ PInf = PInf"
| "fadd NInf _ = NInf"
| "fadd _ NInf = NInf"

definition fsub :: "f64 \<Rightarrow> f64 \<Rightarrow> f64" where
  "fsub a b = fadd a (fneg b)"

definition inf_of_sign :: "rat \<Rightarrow> f64" where
  "inf_of_sign s = (if s = 0 then NaN else if 0 < s then PInf else NInf)"

fun fsign :: "f64 \<Rightarrow> rat" where
  "fsign (Fin a) = sgn a"
| "fsign PInf = 1"
| "fsign NInf = - 1"
| "fsign NaN = 0"

fun fmul :: "f64 \<Rightarrow> f64 \<Rightarrow> f64" where
  "fmul NaN _ = NaN"
| "fmul _ NaN = NaN"
| "fmul (Fin a) (Fin b) = to_f64 (a * b)"
| "fmul a b = inf_of_sign (fsign a * fsign b)"

fun fdiv :: "f64 \<Rightarrow> f64 \<Rightarrow> f64" where
  "fdiv NaN _ = NaN"
| "fdiv _ NaN = NaN"
| "fdiv (Fin a) (Fin b) = (if b = 0 then inf_of_sign a else to_f64 (a / b))"
| "fdiv (Fin a) _ = Fin 0"
| "fdiv a (Fin b) = inf_of_sign (if b = 0 then fsign a else fsign a * sgn b)"
| "fdiv _ _ = NaN"

fun flt :: "f64 \<Rightarrow> f64 \<Rightarrow> bool" where
  "flt (Fin a) (Fin b) \<longleftrightarrow> a < b"
| "flt NInf (Fin _) \<longleftrightarrow> True"
| "flt NInf PInf \<longleftrightarrow> True"
| "flt (Fin _) PInf \<longleftrightarrow> True"
| "flt _ _ \<longleftrightarrow> False"

fun feq :: "f64 \<Rightarrow> f64 \<Rightarrow> bool" where
  "feq (Fin a) (Fin b) \<longleftrightarrow> a = b"
| "feq PInf PInf \<longleftrightarrow> True"
| "feq NInf NInf \<longleftrightarrow> True"
| "feq _ _ \<longleftrightarrow> False"

definition fle :: "f64 \<Rightarrow> f64 \<Rightarrow> bool" where
  "fle a b \<longleftrightarrow> flt a b \<or> feq a b"

definition is_nan :: "f64 \<Rightarrow> bool" where
  "is_nan a \<longleftrightarrow> a = NaN"

definition is_inf :: "f64 \<Rightarrow> bool" where
  "is_inf a \<longleftrightarrow> a = PInf \<or> a = NInf"

text \<open>\<open>float64(n)\<close> of a Go integer, and \<open>int(x)\<close> of a finite float (toward zero).\<close>

definition of_go_int :: "int \<Rightarrow> f64" where
  "of_go_int n = to_f64 (of_int n)"

fun floor64 :: "f64 \<Rightarrow> f64" where
  "floor64 (Fin a) = Fin (of_int \<lfloor>a\<rfloor>)"
| "floor64 x = x"

fun finite64 :: "f64 \<Rightarrow> bool" where
  "finite64 (Fin _) \<longleftrightarrow> True"
| "finite64 _ \<longleftrightarrow> False"

section \<open>The exponent\<close>

lemma powi_split: "2 powi (a + b) = (2 powi a * 2 powi b :: rat)"
  by (simp add: power_int_add)

lemma powi_pos [simp]: "0 < (2 powi a :: rat)"
  by (simp add: zero_less_power_int)

lemma powi_mono: "a \<le> b \<Longrightarrow> 2 powi a \<le> (2 powi b :: rat)"
  by (simp add: power_int_increasing)

lemma powi_of_nat: "0 \<le> k \<Longrightarrow> (2 powi k :: rat) = of_int (2 ^ nat k)"
  by (simp add: power_int_def)

lemma bitlen_powi:
  assumes "0 < n"
  shows "2 powi (bitlen n - 1) \<le> (of_int n :: rat)" and "(of_int n :: rat) < 2 powi bitlen n"
proof -
  have b: "0 \<le> bitlen n - 1" using assms bitlen_nonneg [of n] bitlen_eq_zero_iff [of n] by linarith
  have "2 ^ nat (bitlen n - 1) \<le> n \<and> n < 2 ^ nat (bitlen n)" using assms by (rule bitlen_bounds)
  then show "2 powi (bitlen n - 1) \<le> (of_int n :: rat)" and "(of_int n :: rat) < 2 powi bitlen n"
    using b by (simp_all only: powi_of_nat of_int_le_iff of_int_less_iff bitlen_nonneg)
qed

lemma ilog2_bounds:
  assumes "0 < x"
  shows "2 powi ilog2 x \<le> x \<and> x < 2 powi (ilog2 x + 1)"
proof (cases "1 \<le> x")
  case True
  then have n: "0 < \<lfloor>x\<rfloor>" by simp
  have "2 powi (bitlen \<lfloor>x\<rfloor> - 1) \<le> x"
    using bitlen_powi(1) [OF n] of_int_floor_le [of x] by linarith
  moreover have "x < 2 powi bitlen \<lfloor>x\<rfloor>"
  proof -
    have "\<lfloor>x\<rfloor> < 2 ^ nat (bitlen \<lfloor>x\<rfloor>)" using bitlen_bounds n by blast
    then have "x < of_int (2 ^ nat (bitlen \<lfloor>x\<rfloor>))" by (simp only: floor_less_iff)
    then show ?thesis by (simp only: powi_of_nat bitlen_nonneg)
  qed
  ultimately show ?thesis using True by (simp add: ilog2_def)
next
  case False
  with assms have y: "1 < 1 / x" by simp
  define k where "k = \<lceil>1 / x\<rceil> - 1"
  have k: "0 < k" using y unfolding k_def by linarith
  have "of_int k < 1 / x" unfolding k_def by linarith
  with bitlen_powi(1) [OF k] have lo: "2 powi (bitlen k - 1) < 1 / x" by linarith
  have "k + 1 \<le> 2 ^ nat (bitlen k)" using bitlen_bounds [OF k] by simp
  then have "1 / x \<le> of_int (2 ^ nat (bitlen k))" unfolding k_def by (simp only: ceiling_le_iff diff_add_cancel)
  then have hi: "1 / x \<le> 2 powi bitlen k" by (simp only: powi_of_nat bitlen_nonneg)
  have "x < 2 powi (1 - bitlen k)"
  proof -
    have "2 powi (1 - bitlen k) = 1 / (2 powi (bitlen k - 1) :: rat)"
      by (metis minus_diff_eq power_int_minus inverse_eq_divide)
    moreover have "x < 1 / 2 powi (bitlen k - 1)"
      using lo assms by (subst pos_less_divide_eq) (simp_all add: pos_less_divide_eq mult.commute)
    ultimately show ?thesis by simp
  qed
  moreover have "2 powi (- bitlen k) \<le> x"
    using hi assms by (simp add: power_int_minus field_simps)
  ultimately show ?thesis using False by (simp add: ilog2_def k_def [symmetric])
qed

lemma ilog2_mono:
  assumes "0 < x" and "x \<le> y"
  shows "ilog2 x \<le> ilog2 y"
proof (rule ccontr)
  assume "\<not> ?thesis"
  then have "ilog2 y + 1 \<le> ilog2 x" by simp
  then have "2 powi (ilog2 y + 1) \<le> (2 powi ilog2 x :: rat)" by (rule powi_mono)
  with ilog2_bounds [of x] ilog2_bounds [of y] assms show False by simp
qed

lemma ilog2_le: "0 < x \<Longrightarrow> x < 2 powi (e + 1) \<Longrightarrow> ilog2 x \<le> e"
  using ilog2_bounds [of x] powi_mono [of "e + 1" "ilog2 x"] by force

lemma ilog2_ge: "2 powi e \<le> x \<Longrightarrow> e \<le> ilog2 x"
proof (rule ccontr)
  assume x: "2 powi e \<le> x" and "\<not> e \<le> ilog2 x"
  then have "2 powi (ilog2 x + 1) \<le> (2 powi e :: rat)" by (intro powi_mono) simp
  moreover have "0 < x" using x powi_pos [of e] by linarith
  ultimately show False using ilog2_bounds [of x] x by simp
qed

section \<open>Rounding\<close>

lemma round_even_of_int [simp]: "round_even (of_int n) = n"
  by (simp add: round_even_def)

lemma round_even_between: "\<lfloor>x\<rfloor> \<le> round_even x \<and> round_even x \<le> \<lfloor>x\<rfloor> + 1"
  by (simp add: round_even_def Let_def)

lemma round_even_mono:
  assumes "x \<le> y"
  shows "round_even x \<le> round_even y"
proof (cases "\<lfloor>x\<rfloor> = \<lfloor>y\<rfloor>")
  case True
  with assms show ?thesis by (auto simp: round_even_def Let_def)
next
  case False
  with assms have "\<lfloor>x\<rfloor> + 1 \<le> \<lfloor>y\<rfloor>" using floor_mono [of x y] by linarith
  with round_even_between [of x] round_even_between [of y] show ?thesis by linarith
qed

lemma round_even_uminus: "round_even (- x) = - round_even x"
proof (cases "x \<in> \<int>")
  case True
  then obtain n where "x = of_int n" by (auto simp: Ints_def)
  then show ?thesis by (metis of_int_minus round_even_of_int)
next
  case False
  then have "x \<noteq> of_int \<lfloor>x\<rfloor>" by (metis Ints_of_int)
  moreover have "of_int \<lfloor>x\<rfloor> \<le> x" by (rule of_int_floor_le)
  ultimately have "of_int \<lfloor>x\<rfloor> < x" by linarith
  then have "\<lfloor>- x\<rfloor> = - \<lfloor>x\<rfloor> - 1"
    using of_int_floor_le [of x] floor_correct [of x] by (intro floor_unique) simp_all
  then show ?thesis by (auto simp: round_even_def Let_def)
qed

lemma round_even_le_int: "x \<le> of_int n \<Longrightarrow> round_even x \<le> n"
  by (metis round_even_mono round_even_of_int)

lemma round_even_ge_int: "of_int n \<le> x \<Longrightarrow> n \<le> round_even x"
  by (metis round_even_mono round_even_of_int)

lemma round64_0 [simp]: "round64 0 = 0"
  by (simp add: round64_def)

lemma ulp_exp_uminus [simp]: "ulp_exp (- x) = ulp_exp x"
  by (simp add: ulp_exp_def)

lemma round64_uminus: "round64 (- x) = - round64 x"
  by (simp add: round64_def round_even_uminus)

lemma round64_nonneg: "0 \<le> x \<Longrightarrow> 0 \<le> round64 x"
  using round_even_ge_int [of 0] by (auto simp: round64_def intro!: mult_nonneg_nonneg divide_nonneg_pos)

lemma round64_upper:
  assumes "0 < x" and "x \<le> of_int n * 2 powi ulp_exp x"
  shows "round64 x \<le> of_int n * 2 powi ulp_exp x"
proof -
  have "x / 2 powi ulp_exp x \<le> of_int n" using assms by (simp add: divide_le_eq)
  then have "round_even (x / 2 powi ulp_exp x) \<le> n" by (rule round_even_le_int)
  with assms show ?thesis by (simp add: round64_def)
qed

lemma round64_lower:
  assumes "0 < x" and "of_int n * 2 powi ulp_exp x \<le> x"
  shows "of_int n * 2 powi ulp_exp x \<le> round64 x"
proof -
  have "of_int n \<le> x / 2 powi ulp_exp x" using assms by (simp add: le_divide_eq)
  then have "n \<le> round_even (x / 2 powi ulp_exp x)" by (rule round_even_ge_int)
  with assms show ?thesis by (simp add: round64_def)
qed

lemma round64_mono_pos:
  assumes "0 < x" and "x \<le> y"
  shows "round64 x \<le> round64 y"
proof (cases "ulp_exp x = ulp_exp y")
  case True
  have "round_even (x / 2 powi ulp_exp y) \<le> round_even (y / 2 powi ulp_exp y)"
    using assms by (intro round_even_mono divide_right_mono) (simp_all add: less_imp_le)
  with True assms show ?thesis by (simp add: round64_def)
next
  case False
  have "0 < y" using assms by simp
  have le: "ilog2 x \<le> ilog2 y" using assms by (rule ilog2_mono)
  with False assms have e: "ulp_exp y = ilog2 y - 52" and lt: "ulp_exp x < ilog2 y - 52"
    by (auto simp: ulp_exp_def max_def split: if_splits)
  text \<open>A power of two with an exponent between the two separates the rounded values.\<close>
  have "x \<le> of_int (2 ^ 53) * 2 powi ulp_exp x"
  proof -
    have "x < 2 powi (ilog2 x + 1)" using ilog2_bounds [OF assms(1)] by simp
    also have "\<dots> \<le> 2 powi (53 + ulp_exp x)" using assms by (intro powi_mono) (simp add: ulp_exp_def)
    finally show ?thesis by (simp only: powi_split) (simp add: power_int_def)
  qed
  then have "round64 x \<le> of_int (2 ^ 53) * 2 powi ulp_exp x" by (rule round64_upper [OF assms(1)])
  also have "\<dots> = 2 powi (53 + ulp_exp x)" by (simp only: powi_split) (simp add: power_int_def)
  also have "\<dots> \<le> 2 powi (52 + ulp_exp y)" using lt e by (intro powi_mono) simp
  also have "\<dots> = of_int (2 ^ 52) * 2 powi ulp_exp y" by (simp only: powi_split) (simp add: power_int_def)
  also have "\<dots> \<le> round64 y"
  proof (rule round64_lower [OF \<open>0 < y\<close>])
    have "of_int (2 ^ 52) * 2 powi ulp_exp y = (2 powi (52 + ulp_exp y) :: rat)"
      by (simp only: powi_split) (simp add: power_int_def)
    also have "\<dots> = 2 powi ilog2 y" using e by simp
    also have "\<dots> \<le> y" using ilog2_bounds [OF \<open>0 < y\<close>] by simp
    finally show "of_int (2 ^ 52) * 2 powi ulp_exp y \<le> y" .
  qed
  finally show ?thesis .
qed

text \<open>Rounding preserves the order.\<close>

lemma round64_mono:
  assumes "x \<le> y"
  shows "round64 x \<le> round64 y"
proof -
  consider "0 < x" | "x \<le> 0" "0 \<le> y" | "y < 0" by linarith
  then show ?thesis
  proof cases
    case 1
    then show ?thesis using assms by (rule round64_mono_pos)
  next
    case 2
    then have "round64 x \<le> 0" using round64_nonneg [of "- x"] by (simp add: round64_uminus)
    also have "0 \<le> round64 y" using 2 by (simp add: round64_nonneg)
    finally show ?thesis .
  next
    case 3
    then have "round64 (- y) \<le> round64 (- x)" using assms by (intro round64_mono_pos) simp_all
    then show ?thesis by (simp add: round64_uminus)
  qed
qed

text \<open>A number with at most 53 significant bits is kept.\<close>

lemma round64_exact_pos:
  assumes "0 < m" and "m \<le> 2 ^ 53" and "- 1074 \<le> e"
  shows "round64 (of_int m * 2 powi e) = of_int m * 2 powi e"
proof -
  let ?x = "of_int m * 2 powi e :: rat"
  have pos: "0 < ?x" using assms(1) by simp
  have ge: "ulp_exp ?x \<le> e" if "m < 2 ^ 53"
  proof -
    have "?x < of_int (2 ^ 53) * 2 powi e" using that by (simp only: mult_less_cancel_right_pos powi_pos of_int_less_iff)
    also have "\<dots> = 2 powi (53 + e)" by (simp only: powi_split) (simp add: power_int_def)
    finally have "ilog2 ?x \<le> 52 + e" using pos by (intro ilog2_le) (simp_all add: add.assoc)
    with assms(3) pos show ?thesis by (simp add: ulp_exp_def)
  qed
  have key: "round64 y = y" if y: "0 < y" "y = of_int n * 2 powi ulp_exp y" for n y
    using y by (metis divide_eq_eq less_numeral_extra(3) powi_pos round64_def round_even_of_int)
  show ?thesis
  proof (cases "m < 2 ^ 53")
    case True
    have "?x = of_int (m * 2 ^ nat (e - ulp_exp ?x)) * 2 powi ulp_exp ?x"
    proof -
      have "2 powi e = 2 powi (e - ulp_exp ?x) * (2 powi ulp_exp ?x :: rat)"
        by (simp add: power_int_add [symmetric])
      moreover have "2 powi (e - ulp_exp ?x) = (of_int (2 ^ nat (e - ulp_exp ?x)) :: rat)"
        using ge [OF True] by (intro powi_of_nat) simp
      ultimately show ?thesis by simp
    qed
    then show ?thesis by (rule key [OF pos])
  next
    case False
    with assms(2) have m: "m = 2 ^ 53" by simp
    have x: "?x = 2 powi (53 + e)" unfolding m by (simp only: powi_split) (simp add: power_int_def)
    have "ilog2 ?x = 53 + e"
      unfolding x by (intro antisym ilog2_le ilog2_ge) (simp_all add: power_int_strict_increasing)
    then have "ulp_exp ?x = e + 1" using assms(3) pos by (simp add: ulp_exp_def)
    moreover have "?x = of_int (2 ^ 52) * 2 powi (e + 1)"
      unfolding x by (simp add: power_int_add)
    ultimately have "?x = of_int (2 ^ 52) * 2 powi ulp_exp ?x" by simp
    then show ?thesis by (rule key [OF pos])
  qed
qed

lemma round64_exact:
  assumes "\<bar>m\<bar> \<le> 2 ^ 53" and "- 1074 \<le> e"
  shows "round64 (of_int m * 2 powi e) = of_int m * 2 powi e"
proof -
  consider "m = 0" | "0 < m" | "m < 0" by linarith
  then show ?thesis
  proof cases
    case 2
    then show ?thesis using assms by (intro round64_exact_pos) simp_all
  next
    case 3
    then have "round64 (of_int (- m) * 2 powi e) = of_int (- m) * 2 powi e"
      using assms by (intro round64_exact_pos) simp_all
    then show ?thesis using round64_uminus [of "of_int m * 2 powi e"] by simp
  qed simp
qed

lemma round64_of_int: "\<bar>n\<bar> \<le> 2 ^ 53 \<Longrightarrow> round64 (of_int n) = of_int n"
  using round64_exact [of n 0] by simp

section \<open>The operations\<close>

lemma to_f64_0 [simp]: "to_f64 0 = Fin 0"
  by (simp add: to_f64_def Let_def)

lemma to_f64_exact:
  assumes "round64 x = x" and "\<bar>x\<bar> < 2 ^ 1024"
  shows "to_f64 x = Fin x"
  using assms by (auto simp: to_f64_def Let_def abs_less_iff)

lemma to_f64_of_int: "\<bar>n\<bar> \<le> 2 ^ 53 \<Longrightarrow> to_f64 (of_int n) = Fin (of_int n)"
proof -
  assume n: "\<bar>n\<bar> \<le> 2 ^ 53"
  then have "\<bar>n\<bar> < 2 ^ 1024" by simp
  then have "of_int \<bar>n\<bar> < (of_int (2 ^ 1024) :: rat)" by (simp only: of_int_less_iff)
  with n show ?thesis by (intro to_f64_exact round64_of_int) simp_all
qed

lemma to_f64_numeral [simp]:
  "(numeral n :: int) \<le> 2 ^ 53 \<Longrightarrow> to_f64 (numeral n) = Fin (numeral n)"
  "(numeral n :: int) \<le> 2 ^ 53 \<Longrightarrow> to_f64 (- numeral n) = Fin (- numeral n)"
  "to_f64 1 = Fin 1"
  "to_f64 (- 1) = Fin (- 1)"
  using to_f64_of_int [of "numeral n"] to_f64_of_int [of "- numeral n"]
    to_f64_of_int [of 1] to_f64_of_int [of "- 1"] by simp_all

lemma to_f64_dyadic:
  assumes "\<bar>m\<bar> \<le> 2 ^ 53" and "- 1074 \<le> e" and "e \<le> 0"
  shows "to_f64 (of_int m * 2 powi e) = Fin (of_int m * 2 powi e)"
proof (rule to_f64_exact)
  have "(2 powi e :: rat) \<le> 2 powi 0" using assms(3) by (rule powi_mono)
  then have p: "(2 powi e :: rat) \<le> 1" by simp
  have "\<bar>of_int m * 2 powi e\<bar> = of_int \<bar>m\<bar> * (2 powi e :: rat)" by (simp add: abs_mult)
  also have "\<dots> \<le> of_int \<bar>m\<bar> * 1" using p by (intro mult_left_mono) simp_all
  also have "\<dots> \<le> of_int (2 ^ 53)" using assms(1) by (simp only: mult_1_right of_int_le_iff)
  also have "\<dots> < (2 :: rat) ^ 1024" by simp
  finally show "\<bar>of_int m * 2 powi e\<bar> < (2 :: rat) ^ 1024" .
qed (use assms round64_exact in simp)

text \<open>Evaluation: the integers and the halves of 53 bits need no rounding.\<close>

lemma to_f64_code [code]:
  "to_f64 x = (case quotient_of x of (n, d) \<Rightarrow>
     if (d = 1 \<or> d = 2) \<and> - 9007199254740992 \<le> n \<and> n \<le> 9007199254740992 then Fin x
     else let r = round64 x
          in if 2 ^ 1024 \<le> r then PInf else if r \<le> - (2 ^ 1024) then NInf else Fin r)"
proof (cases "quotient_of x")
  case (Pair n d)
  show ?thesis
  proof (cases "(d = 1 \<or> d = 2) \<and> - 9007199254740992 \<le> n \<and> n \<le> 9007199254740992")
    case True
    then have n: "\<bar>n\<bar> \<le> 2 ^ 53" by (simp add: abs_le_iff)
    have "to_f64 x = Fin x"
    proof (cases "d = 1")
      case True
      then have "x = of_int n" using quotient_of_div [OF Pair] by simp
      then show ?thesis using n to_f64_of_int [of n] by simp
    next
      case False
      then have "d = 2" using True by blast
      then have "x = of_int n * (1 / 2)" using quotient_of_div [OF Pair] by simp
      moreover have "(2 :: rat) powi (- 1) = 1 / 2" by (simp add: power_int_def)
      ultimately have "x = of_int n * 2 powi (- 1)" by (simp only:)
      moreover have "to_f64 (of_int n * 2 powi (- 1)) = Fin (of_int n * 2 powi (- 1))"
        by (rule to_f64_dyadic [OF n]) simp_all
      ultimately show ?thesis by (simp only:)
    qed
    then show ?thesis by (simp only: Pair prod.case if_P [OF True])
  next
    case False
    then show ?thesis by (simp only: Pair prod.case False if_False to_f64_def)
  qed
qed

lemma of_go_int_exact: "\<bar>n\<bar> \<le> 2 ^ 53 \<Longrightarrow> of_go_int n = Fin (of_int n)"
  by (simp add: of_go_int_def to_f64_of_int)

lemma fle_Fin [simp]: "fle (Fin a) (Fin b) \<longleftrightarrow> a \<le> b"
  by (auto simp: fle_def)

lemma fle_inf [simp]:
  "fle (Fin a) PInf" "fle NInf (Fin a)" "\<not> fle PInf (Fin a)" "\<not> fle (Fin a) NInf"
  "fle NInf PInf" "fle PInf PInf" "fle NInf NInf" "\<not> fle PInf NInf"
  "\<not> fle NaN b" "\<not> fle b NaN"
  by (simp_all add: fle_def)

lemma fle_refl: "a \<noteq> NaN \<Longrightarrow> fle a a"
  by (cases a) (simp_all add: fle_def)

lemma fle_trans: "fle a b \<Longrightarrow> fle b c \<Longrightarrow> fle a c"
  by (cases a; cases b; cases c) simp_all

lemma fle_antisym: "fle a b \<Longrightarrow> fle b a \<Longrightarrow> a = b"
  by (cases a; cases b) simp_all

lemma flt_not_fle: "a \<noteq> NaN \<Longrightarrow> b \<noteq> NaN \<Longrightarrow> flt a b \<longleftrightarrow> \<not> fle b a"
  by (cases a; cases b) auto

lemma flt_imp_fle: "flt a b \<Longrightarrow> fle a b"
  by (simp add: fle_def)

lemma flt_NaN [simp]: "\<not> flt NaN a" "\<not> flt a NaN"
  by (cases a; simp)+

lemma to_f64_not_NaN [simp]: "to_f64 x \<noteq> NaN"
  by (simp add: to_f64_def Let_def)

text \<open>The conversion, and with it every operation in each finite argument, is monotone.\<close>

lemma to_f64_mono: "x \<le> y \<Longrightarrow> fle (to_f64 x) (to_f64 y)"
  using round64_mono [of x y] by (auto simp: to_f64_def Let_def)

lemma fadd_mono_left: "fle a b \<Longrightarrow> fle (fadd a (Fin c)) (fadd b (Fin c))"
  by (cases a; cases b) (simp_all add: to_f64_mono fle_refl split: f64.split, simp_all add: to_f64_def Let_def)

lemma fadd_mono_right: "fle a b \<Longrightarrow> fle (fadd (Fin c) a) (fadd (Fin c) b)"
  by (cases a; cases b) (simp_all add: to_f64_mono fle_refl split: f64.split, simp_all add: to_f64_def Let_def)

lemma fadd_nonneg: "fle (Fin 0) a \<Longrightarrow> fle (Fin 0) b \<Longrightarrow> fle (Fin 0) (fadd a b)"
  using to_f64_mono [of 0] by (cases a; cases b) auto

lemma fadd_ge_left: "fle (Fin 0) b \<Longrightarrow> to_f64 a = Fin a \<Longrightarrow> fle (Fin a) (fadd (Fin a) b)"
  using to_f64_mono [of a] by (cases b) auto

lemma fsub_nonneg: "fle (Fin b) a \<Longrightarrow> fle (Fin 0) (fsub a (Fin b))"
  using to_f64_mono [of 0] by (cases a) (auto simp: fsub_def)

lemma fsub_nonneg_any: "fle c a \<Longrightarrow> fsub a c \<noteq> NaN \<Longrightarrow> fle (Fin 0) (fsub a c)"
proof (cases c)
  case (Fin x)
  then show "fle c a \<Longrightarrow> fle (Fin 0) (fsub a c)" using fsub_nonneg by simp
qed (cases a; simp add: fsub_def)+

lemma fmul_nonneg: "fle (Fin 0) (Fin a) \<Longrightarrow> fle (Fin 0) (Fin b) \<Longrightarrow> fle (Fin 0) (fmul (Fin a) (Fin b))"
  using to_f64_mono [of 0 "a * b"] by simp

lemma fadd_int:
  assumes "\<bar>a + b\<bar> \<le> 2 ^ 53"
  shows "fadd (Fin (of_int a)) (Fin (of_int b)) = Fin (of_int (a + b))"
  using to_f64_of_int [OF assms] by simp

lemma fsub_int:
  assumes "\<bar>a - b\<bar> \<le> 2 ^ 53"
  shows "fsub (Fin (of_int a)) (Fin (of_int b)) = Fin (of_int (a - b))"
  using to_f64_of_int [OF assms] by (simp add: fsub_def)

lemma fmul_int:
  assumes "\<bar>a * b\<bar> \<le> 2 ^ 53"
  shows "fmul (Fin (of_int a)) (Fin (of_int b)) = Fin (of_int (a * b))"
  using to_f64_of_int [OF assms] by simp

section \<open>Representable numbers\<close>

text \<open>The rationals that are a \<open>float64\<close>: those that the rounding keeps.\<close>

fun is_float :: "f64 \<Rightarrow> bool" where
  "is_float (Fin a) \<longleftrightarrow> to_f64 a = Fin a"
| "is_float _ \<longleftrightarrow> True"

lemma is_float_round64: "is_float (Fin a) \<Longrightarrow> round64 a = a"
  by (auto simp: to_f64_def Let_def split: if_splits)

lemma is_float_less: "is_float (Fin a) \<Longrightarrow> a < 2 ^ 1024"
  by (auto simp: to_f64_def Let_def not_le split: if_splits)

section \<open>math.Abs, math.Max and Duration.Seconds\<close>

definition fabs :: "f64 \<Rightarrow> f64" where
  "fabs x = (case x of Fin a \<Rightarrow> Fin \<bar>a\<bar> | NInf \<Rightarrow> PInf | _ \<Rightarrow> x)"

text \<open>\<open>Duration.Seconds\<close>: whole seconds and the rest, added as floats.\<close>

definition Seconds :: "int \<Rightarrow> f64" where
  "Seconds d = fadd (of_go_int (d sdiv second)) (fdiv (of_go_int (d smod second)) (of_go_int second))"

definition fmax :: "f64 \<Rightarrow> f64 \<Rightarrow> f64" where
  "fmax a b = (if a = PInf \<or> b = PInf then PInf else if a = NaN \<or> b = NaN then NaN else if flt a b then b else a)"

text \<open>The whole seconds are never rounded down, and rounded up by less than one.\<close>

lemma Seconds_near:
  assumes "0 \<le> d" and "d \<le> 2 ^ 53"
  shows "\<exists>x. Seconds d = Fin x \<and> of_int (d div second) \<le> x \<and> x \<le> of_int (d div second + 1)"
proof -
  let ?q = "d div second" and ?r = "d mod second"
  have q: "0 \<le> ?q" "?q + 1 \<le> 2 ^ 53" and r: "0 \<le> ?r" "?r < second"
    using assms by (simp_all add: second_def)
  have sd: "d sdiv second = ?q" using assms by (simp add: sdiv_nonneg)
  have sm: "d smod second = ?r" using assms(1) by (cases "d = 0") (simp_all add: signed_modulo_int_def)
  have "of_go_int second = Fin (of_int second)" by (rule of_go_int_exact) (simp add: second_def)
  moreover have "of_go_int ?r = Fin (of_int ?r)" by (rule of_go_int_exact) (use r in \<open>simp add: second_def\<close>)
  ultimately have f: "fdiv (of_go_int ?r) (of_go_int second) = to_f64 (of_int ?r / of_int second)"
    by (simp add: second_def)
  have lo: "fle (Fin 0) (to_f64 (of_int ?r / of_int second))"
    using to_f64_mono [of 0 "of_int ?r / of_int second"] r by simp
  have "of_int ?r / of_int second \<le> (1 :: rat)" using less_imp_le [OF r(2)] by (simp add: divide_le_eq)
  from to_f64_mono [OF this] have hi: "fle (to_f64 (of_int ?r / of_int second)) (Fin 1)" by simp
  have s: "Seconds d = fadd (Fin (of_int ?q)) (to_f64 (of_int ?r / of_int second))"
    unfolding Seconds_def sd sm f using q by (simp add: of_go_int_exact)
  have qq: "to_f64 (of_int ?q) = Fin (of_int ?q)" using q by (intro to_f64_of_int) simp
  have "fle (Fin (of_int ?q)) (Seconds d)" unfolding s by (rule fadd_ge_left [OF lo qq])
  moreover have "fle (Seconds d) (Fin (of_int (?q + 1)))"
    using fadd_mono_right [OF hi, of "of_int ?q"] to_f64_of_int [of "?q + 1"] q unfolding s by simp
  ultimately show ?thesis by (cases "Seconds d") simp_all
qed

end
