(* ===== verification/Db.thy ===== *)
theory Db
  imports Float64
begin

text \<open>
  The SQLite schema (\<open>pkg/sqlitedb/sqlitedb.go\<close>): one record per table row, the data base as
  the record of its tables, the key and foreign-key constraints, the boot-time backfills, and
  the point-accrual expression that the handlers share. Transactions are serialised by
  \<open>SetMaxOpenConns(1)\<close>; a transaction is therefore a function on the data base whose result is
  kept on commit and dropped on rollback.
\<close>

section \<open>Rows and tables\<close>

record player_row =
  p_id :: string
  steam_id :: string
  created_at :: int
  last_login :: "int option"

text \<open>
  The text of \<open>cairn_last_growth_at\<close>: RFC3339 for a Unix second, or a text that \<open>time.Parse\<close>
  rejects. (The compare-and-set of the growth works on the text.)
\<close>

datatype stamp = Stamp int | BadText string

record state_row =
  s_player :: string
  enlightenment_pts :: f64
  time_stone_count :: int
  streak_days :: int
  last_login_date :: "int option"
  next_gacha_at :: "int option"
  enlightenment_rate :: f64
  last_sync_at :: "int option"
  cairn_last_growth_at :: "stamp option"
  updated_at :: int

record inv_row =
  inv_id :: string
  inv_player :: string
  item_id :: string
  rarity :: string
  item_count :: int
  item_type :: string
  source_type :: string
  acquired_at :: int

record gacha_log =
  gl_id :: string
  gl_player :: string
  gl_item_id :: string
  gl_rarity :: string
  gl_is_duplicate :: bool
  gl_refund_points :: f64
  gl_cost_points :: f64
  gl_seed_hash :: string
  gl_pulled_at :: int
  gl_balance_before :: f64
  gl_balance_after :: f64
  gl_accrued_pts :: f64

record vow_log =
  vl_id :: string
  vl_player :: string
  vl_base_rarity :: string
  vl_target_rarity :: string
  vl_success_rate :: f64
  vl_cost_points :: f64
  vl_result :: string
  vl_reward_item_id :: string
  vl_reward_rarity :: string
  vl_is_duplicate :: bool
  vl_materials :: "(string \<times> int) list"
  vl_prayed_at :: int
  vl_balance_before :: f64
  vl_balance_after :: f64
  vl_accrued_pts :: f64

record ach_row =
  ach_player :: string
  achievement_id :: string
  unlocked_at :: int
  steam_synced :: bool

record slot_row =
  slot_player :: string
  slot_index :: int
  started_at :: int
  claimed_at :: "int option"
  layer_count :: int

record retry_row =
  rq_id :: string
  rq_player :: string
  rq_achievement :: string
  retry_count :: int
  last_error :: "string option"
  next_retry_at :: int
  resolved_at :: "int option"

record database =
  players :: "player_row list"
  player_states :: "state_row list"
  inventories :: "inv_row list"
  gacha_logs :: "gacha_log list"
  vow_logs :: "vow_log list"
  player_achievements :: "ach_row list"
  wish_cairn_slots :: "slot_row list"
  achievement_retry_queue :: "retry_row list"

definition empty_db :: database where
  "empty_db = \<lparr>players = [], player_states = [], inventories = [], gacha_logs = [],
     vow_logs = [], player_achievements = [], wish_cairn_slots = [],
     achievement_retry_queue = []\<rparr>"

text \<open>The errors of a data base call: no row for \<open>QueryRow\<close>, or the driver's error.\<close>

datatype sql_error = ErrNoRows | DbError

text \<open>A call that the driver may fail.\<close>

definition attempt :: "bool \<Rightarrow> sql_error + 'a \<Rightarrow> sql_error + 'a" where
  "attempt fault r = (if fault then Inl DbError else r)"

lemma attempt_simps [simp]:
  "attempt True r = Inl DbError"
  "attempt False r = r"
  by (simp_all add: attempt_def)

lemma attempt_eq_Inr [run_simps]: "attempt b r = Inr x \<longleftrightarrow> \<not> b \<and> r = Inr x"
  by (auto simp: attempt_def)

text \<open>\<open>Scan\<close> of the row that \<open>QueryRow\<close> found.\<close>

definition one_row :: "'r option \<Rightarrow> sql_error + 'r" where
  "one_row r = (case r of None \<Rightarrow> Inl ErrNoRows | Some x \<Rightarrow> Inr x)"

lemma one_row_simps [simp]:
  "one_row None = Inl ErrNoRows"
  "one_row (Some x) = Inr x"
  by (simp_all add: one_row_def)

lemma one_row_eq_Inr [run_simps]: "one_row r = Inr x \<longleftrightarrow> r = Some x"
  by (cases r) auto

section \<open>Lookups and constraints\<close>

definition state_of :: "database \<Rightarrow> string \<Rightarrow> state_row option" where
  "state_of db pid = find (\<lambda>r. s_player r = pid) (player_states db)"

definition inv_of :: "database \<Rightarrow> string \<Rightarrow> string \<Rightarrow> inv_row option" where
  "inv_of db pid item = find (\<lambda>r. inv_player r = pid \<and> item_id r = item) (inventories db)"

definition slots_of :: "database \<Rightarrow> string \<Rightarrow> slot_row list" where
  "slots_of db pid = filter (\<lambda>r. slot_player r = pid) (wish_cairn_slots db)"

definition slot_of :: "database \<Rightarrow> string \<Rightarrow> int \<Rightarrow> slot_row option" where
  "slot_of db pid i = find (\<lambda>r. slot_player r = pid \<and> slot_index r = i) (wish_cairn_slots db)"

text \<open>The number of copies of an item that a player holds (0 without a row).\<close>

definition owned :: "database \<Rightarrow> string \<Rightarrow> string \<Rightarrow> int" where
  "owned db pid item = (case inv_of db pid item of None \<Rightarrow> 0 | Some r \<Rightarrow> item_count r)"

text \<open>\<open>REFERENCES players(id)\<close> with \<open>PRAGMA foreign_keys=ON\<close>.\<close>

definition has_player :: "database \<Rightarrow> string \<Rightarrow> bool" where
  "has_player db pid \<longleftrightarrow> list_ex (\<lambda>p. p_id p = pid) (players db)"

text \<open>The keys that the schema declares, the foreign keys of the rows, and the sign of the stock.\<close>

definition keys_ok :: "database \<Rightarrow> bool" where
  "keys_ok db \<longleftrightarrow>
     distinct (map p_id (players db)) \<and>
     distinct (map steam_id (players db)) \<and>
     distinct (map s_player (player_states db)) \<and>
     distinct (map (\<lambda>r. (inv_player r, item_id r)) (inventories db)) \<and>
     distinct (map (\<lambda>r. (slot_player r, slot_index r)) (wish_cairn_slots db)) \<and>
     distinct (map (\<lambda>r. (ach_player r, achievement_id r)) (player_achievements db))"

definition refs_ok :: "database \<Rightarrow> bool" where
  "refs_ok db \<longleftrightarrow>
     (\<forall>r \<in> set (player_states db). has_player db (s_player r)) \<and>
     (\<forall>r \<in> set (inventories db). has_player db (inv_player r)) \<and>
     (\<forall>r \<in> set (wish_cairn_slots db). has_player db (slot_player r))"

definition balances_ok :: "database \<Rightarrow> bool" where
  "balances_ok db \<longleftrightarrow> (\<forall>r \<in> set (player_states db). fle (Fin 0) (enlightenment_pts r))"

definition stock_ok :: "database \<Rightarrow> bool" where
  "stock_ok db \<longleftrightarrow> (\<forall>r \<in> set (inventories db). 1 \<le> item_count r)"

section \<open>Passive accrual\<close>

text \<open>
  \<open>MAX(0, COALESCE((CAST(strftime('%s','now') AS REAL) - CAST(strftime('%s', last_sync_at) AS
  REAL)) * enlightenment_rate, 0))\<close>: NULL when the player was never synchronised, and NULL in
  place of a not-a-number.
\<close>

definition accrual :: "int \<Rightarrow> state_row \<Rightarrow> f64" where
  "accrual now r =
     (case last_sync_at r of
        None \<Rightarrow> Fin 0
      | Some ls \<Rightarrow>
          let x = fmul (fsub (of_go_int now) (of_go_int ls)) (enlightenment_rate r)
          in if x = NaN then Fin 0 else if flt x (Fin 0) then Fin 0 else x)"

text \<open>The balance after the accrual, \<open>enlightenment_pts + MAX(0, ...)\<close>.\<close>

definition accrued_balance :: "int \<Rightarrow> state_row \<Rightarrow> f64" where
  "accrued_balance now r = fadd (enlightenment_pts r) (accrual now r)"

text \<open>
  The atomic accrue-and-deduct UPDATE of a pull and of a vow, with its RETURNING row. A result
  that is not a number would be NULL and violate NOT NULL.
\<close>

definition accrue_deduct :: "int \<Rightarrow> f64 \<Rightarrow> string \<Rightarrow> database \<Rightarrow> sql_error + (database \<times> state_row)" where
  "accrue_deduct now cost pid db =
     (let P = (\<lambda>r. s_player r = pid \<and> fle cost (accrued_balance now r));
          f = (\<lambda>r. r\<lparr>enlightenment_pts := fsub (accrued_balance now r) cost,
                     last_sync_at := Some now\<rparr>)
      in bindE (one_row (find P (player_states db))) (\<lambda>r.
         checkE (enlightenment_pts (f r) \<noteq> NaN) DbError
           (db\<lparr>player_states := sql_update P f (player_states db)\<rparr>, f r)))"

lemma accrual_nonneg: "fle (Fin 0) (accrual now r)"
proof (cases "last_sync_at r")
  case None
  then show ?thesis by (simp add: accrual_def)
next
  case (Some ls)
  then show ?thesis by (auto simp: accrual_def Let_def flt_not_fle)
qed

lemma accrual_never_synced: "last_sync_at r = None \<Longrightarrow> accrual now r = Fin 0"
  by (simp add: accrual_def)

lemma accrual_int:
  assumes "last_sync_at r = Some ls" and "enlightenment_rate r = Fin (of_int k)"
    and "\<bar>now\<bar> \<le> 2 ^ 53" and "\<bar>ls\<bar> \<le> 2 ^ 53" and "\<bar>now - ls\<bar> \<le> 2 ^ 53" and "\<bar>(now - ls) * k\<bar> \<le> 2 ^ 53"
  shows "accrual now r = Fin (of_int (max 0 ((now - ls) * k)))"
proof -
  have "fmul (fsub (of_go_int now) (of_go_int ls)) (enlightenment_rate r) = Fin (of_int ((now - ls) * k))"
    using assms by (simp only: of_go_int_exact fsub_int fmul_int)
  moreover have "(of_int ((now - ls) * k) :: rat) < 0 \<longleftrightarrow> (now - ls) * k < 0"
    by (simp only: of_int_less_0_iff)
  ultimately show ?thesis using assms(1) by (simp add: accrual_def max_def)
qed

text \<open>No accrual in the second of the last synchronisation.\<close>

lemma accrual_same_second:
  assumes "last_sync_at r = Some now" and "\<bar>now\<bar> \<le> 2 ^ 53"
  shows "accrual now r = Fin 0"
  using assms of_go_int_exact [of now]
  by (cases "enlightenment_rate r") (simp_all add: accrual_def fsub_def inf_of_sign_def)

lemma accrued_balance_nonneg:
  "fle (Fin 0) (enlightenment_pts r) \<Longrightarrow> fle (Fin 0) (accrued_balance now r)"
  unfolding accrued_balance_def by (rule fadd_nonneg) (simp_all add: accrual_nonneg)

section \<open>Frame facts of the lookups\<close>

lemma state_ofD: "state_of db pid = Some r \<Longrightarrow> r \<in> set (player_states db) \<and> s_player r = pid"
  unfolding state_of_def by (auto dest: find_SomeD)

lemma state_of_iff:
  assumes "keys_ok db"
  shows "state_of db pid = Some r \<longleftrightarrow> r \<in> set (player_states db) \<and> s_player r = pid"
proof
  assume "r \<in> set (player_states db) \<and> s_player r = pid"
  with assms show "state_of db pid = Some r"
    using find_key [of s_player "player_states db" r] by (simp add: state_of_def keys_ok_def)
qed (rule state_ofD)

lemma find_sql_update_key:
  assumes "\<And>r. key (f r) = key r"
  shows "find (\<lambda>r. key r = k) (sql_update P f t) =
    map_option (\<lambda>r. if P r then f r else r) (find (\<lambda>r. key r = k) t)"
  using assms by (induction t) auto

lemma find_conj_key:
  assumes "distinct (map key t)"
  shows "find (\<lambda>r. key r = k \<and> Q r) t =
    (case find (\<lambda>r. key r = k) t of None \<Rightarrow> None | Some r \<Rightarrow> if Q r then Some r else None)"
  using assms
proof (induction t)
  case (Cons a t)
  show ?case
  proof (cases "key a = k")
    case True
    with Cons.prems have "find (\<lambda>r. key r = k \<and> Q r) t = None"
      by (auto simp: find_None_iff image_iff)
    with True show ?thesis by simp
  qed (use Cons in simp)
qed simp

text \<open>What the accrue-and-deduct statement does when it finds a row.\<close>

lemma accrue_deduct_Inr:
  assumes "keys_ok db" and "accrue_deduct now cost pid db = Inr (db', r')"
  obtains r where "state_of db pid = Some r" and "fle cost (accrued_balance now r)"
    and "r' = r\<lparr>enlightenment_pts := fsub (accrued_balance now r) cost, last_sync_at := Some now\<rparr>"
    and "db' = db\<lparr>player_states := sql_update (\<lambda>x. s_player x = pid) (\<lambda>_. r') (player_states db)\<rparr>"
    and "state_of db' pid = Some r'"
proof -
  define P where "P = (\<lambda>r. s_player r = pid \<and> fle cost (accrued_balance now r))"
  define f where "f = (\<lambda>r. r\<lparr>enlightenment_pts := fsub (accrued_balance now r) cost,
      last_sync_at := Some now\<rparr>)"
  from assms(2) obtain r where find: "find P (player_states db) = Some r"
    and db': "db' = db\<lparr>player_states := sql_update P f (player_states db)\<rparr>" and r': "r' = f r"
    by (auto simp: accrue_deduct_def Let_def P_def f_def run_simps)
  from find_SomeD [OF find] have r: "r \<in> set (player_states db)" "s_player r = pid"
    and c: "fle cost (accrued_balance now r)" by (auto simp: P_def)
  have st: "state_of db pid = Some r" using assms(1) r by (simp add: state_of_iff)
  have uniq: "x = r" if "x \<in> set (player_states db)" "s_player x = pid" for x
    using assms(1) that st state_of_iff by (metis option.inject)
  have upd: "sql_update P f (player_states db) =
      sql_update (\<lambda>x. s_player x = pid) (\<lambda>_. r') (player_states db)"
    unfolding sql_update_def using uniq c r' by (auto simp: P_def)
  have "state_of db' pid = Some r'"
    using find_sql_update_key [of s_player f pid P "player_states db"] st r' c r(2)
    by (simp add: db' state_of_def f_def P_def)
  with that st c r' upd db' show thesis by (simp add: f_def)
qed

section \<open>Writing one player's rows\<close>

text \<open>An UPDATE of the own \<open>player_states\<close> row, and what it leaves alone.\<close>

definition set_state :: "string \<Rightarrow> (state_row \<Rightarrow> state_row) \<Rightarrow> database \<Rightarrow> database" where
  "set_state pid f db = db\<lparr>player_states := sql_update (\<lambda>r. s_player r = pid) f (player_states db)\<rparr>"

named_theorems frame_simps "tables and lookups that a write leaves alone"

lemma set_state_tables [frame_simps]:
  "players (set_state pid f db) = players db"
  "inventories (set_state pid f db) = inventories db"
  "gacha_logs (set_state pid f db) = gacha_logs db"
  "vow_logs (set_state pid f db) = vow_logs db"
  "player_achievements (set_state pid f db) = player_achievements db"
  "wish_cairn_slots (set_state pid f db) = wish_cairn_slots db"
  "achievement_retry_queue (set_state pid f db) = achievement_retry_queue db"
  by (simp_all add: set_state_def)

lemma lookup_frames [frame_simps]:
  "inv_of (db\<lparr>player_states := a\<rparr>) q x = inv_of db q x"
  "inv_of (db\<lparr>wish_cairn_slots := b\<rparr>) q x = inv_of db q x"
  "inv_of (db\<lparr>gacha_logs := c\<rparr>) q x = inv_of db q x"
  "state_of (db\<lparr>wish_cairn_slots := b\<rparr>) q = state_of db q"
  "state_of (db\<lparr>inventories := d\<rparr>) q = state_of db q"
  "state_of (db\<lparr>gacha_logs := c\<rparr>) q = state_of db q"
  "slot_of (db\<lparr>player_states := a\<rparr>) q i = slot_of db q i"
  "slot_of (db\<lparr>inventories := d\<rparr>) q i = slot_of db q i"
  "slot_of (db\<lparr>gacha_logs := c\<rparr>) q i = slot_of db q i"
  by (simp_all add: inv_of_def state_of_def slot_of_def)

lemma state_of_set_state:
  assumes "\<And>r. s_player (f r) = s_player r"
  shows "state_of (set_state pid f db) q =
    (if q = pid then map_option f (state_of db q) else state_of db q)"
proof -
  have "find (\<lambda>r. s_player r = q) (sql_update (\<lambda>r. s_player r = pid) f t) =
      map_option (\<lambda>r. if s_player r = pid then f r else r) (find (\<lambda>r. s_player r = q) t)" for t
    using assms by (rule find_sql_update_key)
  moreover have "find (\<lambda>r. s_player r = q) t = Some r \<Longrightarrow> s_player r = q" for t and r :: state_row
    by (drule find_SomeD) simp
  ultimately show ?thesis
    by (cases "find (\<lambda>r. s_player r = q) (player_states db)") (auto simp: state_of_def set_state_def)
qed

lemma keys_ok_set_state:
  assumes "\<And>r. s_player (f r) = s_player r"
  shows "keys_ok (set_state pid f db) = keys_ok db"
  using assms by (simp add: keys_ok_def set_state_def map_key_sql_update)

text \<open>With the key, a guarded UPDATE is an update of the player's only row.\<close>

lemma guarded_update:
  assumes "keys_ok db" and "sql_affected (\<lambda>r. s_player r = pid \<and> Q r) (player_states db) \<noteq> 0"
  obtains st where "state_of db pid = Some st" and "Q st"
    and "\<And>f. db\<lparr>player_states := sql_update (\<lambda>r. s_player r = pid \<and> Q r) f (player_states db)\<rparr> = set_state pid f db"
proof -
  from assms(2) obtain st where st: "st \<in> set (player_states db)" "s_player st = pid" "Q st"
    by (auto simp: sql_affected_0_iff)
  then have s: "state_of db pid = Some st" using assms(1) by (simp add: state_of_iff)
  have "r = st" if "r \<in> set (player_states db)" "s_player r = pid" for r
    using assms(1) that s state_of_iff by (metis option.inject)
  then have "sql_update (\<lambda>r. s_player r = pid \<and> Q r) f (player_states db) =
      sql_update (\<lambda>r. s_player r = pid) f (player_states db)" for f
    unfolding sql_update_def using st(3) by auto
  with that s st(3) show thesis by (simp add: set_state_def)
qed

lemma set_state_none:
  assumes "state_of db pid = None"
  shows "set_state pid f db = db"
proof -
  have "sql_affected (\<lambda>r. s_player r = pid) (player_states db) = 0"
    using assms by (simp add: sql_affected_0_iff state_of_def find_None_iff)
  then show ?thesis by (simp add: set_state_def sql_update_none)
qed

text \<open>The accrue-and-deduct statement as such a write.\<close>

lemma accrue_deduct_set_state:
  assumes "keys_ok db" and "accrue_deduct now cost pid db = Inr (db', r')"
  obtains r where "state_of db pid = Some r" and "fle cost (accrued_balance now r)"
    and "r' = r\<lparr>enlightenment_pts := fsub (accrued_balance now r) cost, last_sync_at := Some now\<rparr>"
    and "db' = set_state pid (\<lambda>_. r') db" and "state_of db' pid = Some r'" and "s_player r' = pid"
    and "enlightenment_pts r' \<noteq> NaN"
proof -
  obtain r where r: "state_of db pid = Some r" "fle cost (accrued_balance now r)"
    "r' = r\<lparr>enlightenment_pts := fsub (accrued_balance now r) cost, last_sync_at := Some now\<rparr>"
    "db' = db\<lparr>player_states := sql_update (\<lambda>x. s_player x = pid) (\<lambda>_. r') (player_states db)\<rparr>"
    "state_of db' pid = Some r'" using assms by (rule accrue_deduct_Inr)
  have "enlightenment_pts r' \<noteq> NaN" using assms(2) by (auto simp: accrue_deduct_def Let_def run_simps)
  moreover have "s_player r' = pid" using state_ofD [OF r(1)] r(3) by simp
  ultimately show thesis using that r by (simp add: set_state_def)
qed

text \<open>The statement fails without a row, and refuses one that cannot pay.\<close>

lemma accrue_deduct_no_rows:
  assumes "keys_ok db"
  shows "accrue_deduct now cost pid db = Inl ErrNoRows \<longleftrightarrow>
    (case state_of db pid of None \<Rightarrow> True | Some r \<Rightarrow> \<not> fle cost (accrued_balance now r))"
proof -
  let ?P = "\<lambda>r. s_player r = pid \<and> fle cost (accrued_balance now r)"
  have "find ?P (player_states db) = (case state_of db pid of None \<Rightarrow> None
      | Some r \<Rightarrow> if fle cost (accrued_balance now r) then Some r else None)"
    unfolding state_of_def using assms by (intro find_conj_key) (simp add: keys_ok_def)
  then show ?thesis
    by (auto simp: accrue_deduct_def Let_def run_simps split: option.splits)
qed

lemma accrue_deduct_succeeds:
  assumes "keys_ok db" and "state_of db pid = Some r" and "fle cost (accrued_balance now r)"
    and "fsub (accrued_balance now r) cost \<noteq> NaN"
  shows "\<exists>x. accrue_deduct now cost pid db = Inr x"
proof -
  let ?P = "\<lambda>r. s_player r = pid \<and> fle cost (accrued_balance now r)"
  have "find ?P (player_states db) = (case state_of db pid of None \<Rightarrow> None
      | Some r \<Rightarrow> if fle cost (accrued_balance now r) then Some r else None)"
    unfolding state_of_def using assms(1) by (intro find_conj_key) (simp add: keys_ok_def)
  then have "find ?P (player_states db) = Some r" using assms(2,3) by simp
  then show ?thesis using assms(4) by (simp add: accrue_deduct_def Let_def)
qed

section \<open>Invariants under the writes\<close>

text \<open>Every state row has a balance that is at least 0; writing rows with such a balance keeps it.\<close>

lemma balances_ok_set_state:
  assumes "balances_ok db"
    and "\<And>r. state_of db pid = Some r \<Longrightarrow> fle (Fin 0) (enlightenment_pts r) \<Longrightarrow> fle (Fin 0) (enlightenment_pts (f r))"
    and "keys_ok db"
  shows "balances_ok (set_state pid f db)"
  unfolding balances_ok_def
proof
  fix r assume "r \<in> set (player_states (set_state pid f db))"
  then obtain x where x: "x \<in> set (player_states db)" "r = (if s_player x = pid then f x else x)"
    by (auto simp: set_state_def sql_update_def)
  then have b: "fle (Fin 0) (enlightenment_pts x)" using assms(1) by (simp add: balances_ok_def)
  show "fle (Fin 0) (enlightenment_pts r)"
  proof (cases "s_player x = pid")
    case True
    then have "state_of db pid = Some x" using x(1) assms(3) by (simp add: state_of_iff)
    with assms(2) b x(2) True show ?thesis by simp
  qed (use x b in simp)
qed

lemma balances_ok_state: "balances_ok db \<Longrightarrow> state_of db pid = Some r \<Longrightarrow> fle (Fin 0) (enlightenment_pts r)"
  using state_ofD unfolding balances_ok_def by blast

lemma refs_ok_frame:
  assumes "refs_ok db" and "players db' = players db"
    and "\<And>r. r \<in> set (player_states db') \<Longrightarrow> has_player db (s_player r)"
    and "\<And>r. r \<in> set (inventories db') \<Longrightarrow> has_player db (inv_player r)"
    and "\<And>r. r \<in> set (wish_cairn_slots db') \<Longrightarrow> has_player db (slot_player r)"
  shows "refs_ok db'"
  using assms by (simp add: refs_ok_def has_player_def)

lemma refs_ok_set_state:
  assumes "refs_ok db" and "\<And>r. s_player (f r) = s_player r"
  shows "refs_ok (set_state pid f db)"
proof (rule refs_ok_frame [OF assms(1)])
  fix r assume "r \<in> set (player_states (set_state pid f db))"
  then obtain x where "x \<in> set (player_states db)" "s_player r = s_player x"
    using assms(2) by (auto simp: set_state_def sql_update_def)
  then show "has_player db (s_player r)" using assms(1) by (simp add: refs_ok_def)
qed (use assms(1) in \<open>simp_all add: frame_simps refs_ok_def\<close>)

section \<open>Boot-time backfills\<close>

text \<open>
  \<open>UPDATE player_states SET last_sync_at = now WHERE last_sync_at IS NULL\<close>, then
  \<open>backfillCairnSlots\<close>: insert the missing slots of every player (INSERT OR IGNORE of the
  cross join, \<open>started_at\<close> staggered by the phase), then delete the surplus ones.
\<close>

definition backfill_last_sync :: "int \<Rightarrow> database \<Rightarrow> database" where
  "backfill_last_sync now db =
     db\<lparr>player_states := sql_update (\<lambda>r. last_sync_at r = None)
          (\<lambda>r. r\<lparr>last_sync_at := Some now\<rparr>) (player_states db)\<rparr>"

definition new_slot :: "string \<Rightarrow> int \<Rightarrow> int \<Rightarrow> slot_row" where
  "new_slot pid i started =
     \<lparr>slot_player = pid, slot_index = i, started_at = started, claimed_at = None, layer_count = 0\<rparr>"

text \<open>One row of an INSERT that does nothing on a conflict with the primary key.\<close>

definition insert_slot :: "slot_row \<Rightarrow> slot_row list \<Rightarrow> slot_row list" where
  "insert_slot s t =
     (if list_ex (\<lambda>r. slot_player r = slot_player s \<and> slot_index r = slot_index s) t
      then t else t @ [s])"

definition backfillCairnSlots :: "int \<Rightarrow> int \<Rightarrow> int \<Rightarrow> database \<Rightarrow> string + database" where
  "backfillCairnSlots slotCount phaseOffsetSeconds now db =
     (if slotCount \<le> 0 then Inl ''slotCount must be > 0''
      else
        let rows = concat (map (\<lambda>p. map (\<lambda>i. new_slot (p_id p) i (now - i * phaseOffsetSeconds))
                     [0..slotCount - 1]) (players db));
            filled = fold insert_slot rows (wish_cairn_slots db)
        in Inr (db\<lparr>wish_cairn_slots := sql_delete (\<lambda>r. slot_index r \<ge> slotCount) filled\<rparr>))"

lemma set_insert_slot:
  "set (insert_slot s t) = (if \<exists>r \<in> set t. slot_player r = slot_player s \<and> slot_index r = slot_index s
     then set t else insert s (set t))"
  by (auto simp: insert_slot_def list_ex_iff)

lemma insert_slot_distinct:
  "distinct (map (\<lambda>r. (slot_player r, slot_index r)) t) \<Longrightarrow>
   distinct (map (\<lambda>r. (slot_player r, slot_index r)) (insert_slot s t))"
  by (auto simp: insert_slot_def list_ex_iff image_iff)

lemma fold_insert_slot_distinct:
  "distinct (map (\<lambda>r. (slot_player r, slot_index r)) t) \<Longrightarrow>
   distinct (map (\<lambda>r. (slot_player r, slot_index r)) (fold insert_slot ss t))"
  by (induction ss arbitrary: t) (simp_all add: insert_slot_distinct)

lemma fold_insert_slot_mono: "set t \<subseteq> set (fold insert_slot ss t)"
proof (induction ss arbitrary: t)
  case (Cons s ss)
  have "set t \<subseteq> set (insert_slot s t)" by (auto simp: set_insert_slot)
  also have "\<dots> \<subseteq> set (fold insert_slot ss (insert_slot s t))" by (rule Cons.IH)
  finally show ?case by simp
qed simp

lemma fold_insert_slot_sub: "set (fold insert_slot ss t) \<subseteq> set t \<union> set ss"
proof (induction ss arbitrary: t)
  case (Cons s ss)
  have "set (insert_slot s t) \<subseteq> insert s (set t)" by (auto simp: set_insert_slot)
  with Cons.IH [of "insert_slot s t"] show ?case by auto
qed simp

lemma fold_insert_slot_has:
  "s \<in> set ss \<Longrightarrow> \<exists>r \<in> set (fold insert_slot ss t).
     slot_player r = slot_player s \<and> slot_index r = slot_index s"
proof (induction ss arbitrary: t)
  case (Cons x ss)
  show ?case
  proof (cases "s \<in> set ss")
    case True
    then show ?thesis using Cons.IH by simp
  next
    case False
    with Cons.prems have "s = x" by simp
    then have "\<exists>r \<in> set (insert_slot x t). slot_player r = slot_player s \<and> slot_index r = slot_index s"
      by (auto simp: set_insert_slot)
    then show ?thesis using fold_insert_slot_mono [of "insert_slot x t" ss] by auto
  qed
qed simp

end
