(* ===== verification/Cairn.thy ===== *)
theory Cairn
  imports Db
begin

unbundle bit_operations_syntax

text \<open>
  The WishCairn slots (\<open>internal/cairn/cairn.go\<close>). Every slot stores its layer count; the
  anchor \<open>cairn_last_growth_at\<close> of the player moves forward on a grid of growth intervals, and
  each grid step adds a layer to one incomplete slot, chosen by a deterministic seed.
  \<open>ApplyGrowth\<close> is split into what it reads and decides (\<open>plan_growth\<close>) and what it writes
  (\<open>commit_growth\<close>), so that two requests that read the same anchor can be interleaved.
\<close>

section \<open>Configuration and status\<close>

record cairn_config =
  SlotCount :: int
  MaxLayers :: int
  SpawnIntervalSeconds :: int

definition Default :: cairn_config where
  "Default = \<lparr>SlotCount = 5, MaxLayers = 5, SpawnIntervalSeconds = 30\<rparr>"

text \<open>\<open>None\<close> is the run-time panic of the division by a zero slot count.\<close>

definition PhaseOffset :: "cairn_config \<Rightarrow> int option" where
  "PhaseOffset c =
     (if SlotCount c = 0 then None
      else Some (wrap64 (wrap64 (wrap64 (SpawnIntervalSeconds c * MaxLayers c) sdiv SlotCount c) * second)))"

datatype slot_status = StatusBuilding | StatusComplete

record slot_state =
  SlotIndex :: int
  StartedAt :: int
  LayerCount :: int
  Status :: slot_status

definition statusFor :: "cairn_config \<Rightarrow> int \<Rightarrow> slot_status" where
  "statusFor c layerCount = (if layerCount \<ge> MaxLayers c then StatusComplete else StatusBuilding)"

datatype cairn_error = Sql sql_error | ParseAnchor string | InvalidInterval | DivisionPanic

fun lift_sql :: "sql_error + 'a \<Rightarrow> cairn_error + 'a" where
  "lift_sql (Inl e) = Inl (Sql e)"
| "lift_sql (Inr x) = Inr x"

lemma lift_sql_eq_Inr [run_simps]: "lift_sql r = Inr x \<longleftrightarrow> r = Inr x"
  by (cases r) simp_all

section \<open>Reading and creating slots\<close>

definition sorted_slots :: "database \<Rightarrow> string \<Rightarrow> slot_row list" where
  "sorted_slots db pid = sort_key slot_index (slots_of db pid)"

definition LoadSlots :: "cairn_config \<Rightarrow> bool \<Rightarrow> string \<Rightarrow> database \<Rightarrow> sql_error + slot_state list" where
  "LoadSlots c fault pid db =
     attempt fault (Inr (map (\<lambda>r. \<lparr>SlotIndex = slot_index r, StartedAt = started_at r,
        LayerCount = layer_count r, Status = statusFor c (layer_count r)\<rparr>) (sorted_slots db pid)))"

definition LoadSlotLayerCount :: "bool \<Rightarrow> string \<Rightarrow> int \<Rightarrow> database \<Rightarrow> sql_error + int" where
  "LoadSlotLayerCount fault pid i db =
     attempt fault (one_row (map_option layer_count (slot_of db pid i)))"

text \<open>
  The loop of \<open>InitializeSlots\<close>: it runs outside a transaction, so the slots inserted before a
  failure stay. A conflict inserts nothing; a new row must reference a player.
\<close>

fun init_slots ::
  "faults \<Rightarrow> string \<Rightarrow> int \<Rightarrow> int \<Rightarrow> int list \<Rightarrow> database \<Rightarrow> (sql_error + unit) \<times> database" where
  "init_slots ft pid now phase [] db = (Inr (), db)"
| "init_slots ft pid now phase (i # is) db =
     (let s = new_slot pid i (unix (now + wrap64 (- i * phase)))
      in if ft (nat i) then (Inl DbError, db)
         else if slot_of db pid i \<noteq> None then init_slots ft pid now phase is db
         else if \<not> has_player db pid then (Inl DbError, db)
         else init_slots ft pid now phase is
                (db\<lparr>wish_cairn_slots := wish_cairn_slots db @ [s]\<rparr>))"

definition InitializeSlots ::
  "cairn_config \<Rightarrow> faults \<Rightarrow> string \<Rightarrow> int \<Rightarrow> database \<Rightarrow> (cairn_error + unit) \<times> database" where
  "InitializeSlots c ft pid now db =
     (case PhaseOffset c of
        None \<Rightarrow> (Inl DivisionPanic, db)
      | Some phase \<Rightarrow>
          (case init_slots ft pid now phase [0..SlotCount c - 1] db of
             (r, db') \<Rightarrow> (lift_sql r, db')))"

section \<open>The growth of the slots\<close>

text \<open>\<open>hash/fnv\<close>, 64-bit FNV-1a.\<close>

definition fnv1a64 :: "string \<Rightarrow> 64 word" where
  "fnv1a64 bs =
     foldl (\<lambda>h c. (h XOR of_char c) * 1099511628211) 14695981039346656037 bs"

definition growthSeed :: "string \<Rightarrow> int \<Rightarrow> 64 word" where
  "growthSeed pid stepUnix = fnv1a64 (pid @ '':'' @ show_int stepUnix)"

text \<open>The indices of the slots that are not complete, ascending.\<close>

definition incomplete :: "cairn_config \<Rightarrow> int list \<Rightarrow> int list \<Rightarrow> nat list" where
  "incomplete c layers applied =
     filter (\<lambda>j. layers ! j + applied ! j < MaxLayers c) [0..<length layers]"

text \<open>
  The loop over the steps \<open>i, i + 1, ..., i + n - 1\<close>: it stops early when every slot is complete.
\<close>

fun grow_loop ::
  "cairn_config \<Rightarrow> string \<Rightarrow> int \<Rightarrow> int \<Rightarrow> int list \<Rightarrow> int \<Rightarrow> nat \<Rightarrow> int list \<Rightarrow> int list" where
  "grow_loop c pid anchor interval layers i 0 applied = applied"
| "grow_loop c pid anchor interval layers i (Suc n) applied =
     (let inc = incomplete c layers applied
      in if inc = [] then applied
         else
           let stepUnix = unix (anchor + wrap64 (i * interval));
               pos = inc ! (unat (growthSeed pid stepUnix) mod length inc)
           in grow_loop c pid anchor interval layers (i + 1) n (applied[pos := applied ! pos + 1]))"

record growth_plan =
  rawAnchor :: stamp
  newAnchor :: int
  increments :: "(int \<times> int) list"

datatype growth_decision = SelfHeal | NoGrowth | Grow growth_plan

text \<open>The growth interval as a \<open>Duration\<close>, and the number of whole intervals since an anchor.\<close>

definition growth_interval :: "cairn_config \<Rightarrow> int" where
  "growth_interval c = wrap64 (SpawnIntervalSeconds c * second)"

definition growth_steps :: "cairn_config \<Rightarrow> int \<Rightarrow> int \<Rightarrow> int" where
  "growth_steps c a now = time_sub now (of_unix a) sdiv growth_interval c"

text \<open>The layers that \<open>n\<close> steps from anchor \<open>a\<close> add to each slot.\<close>

definition distribution :: "cairn_config \<Rightarrow> string \<Rightarrow> int \<Rightarrow> nat \<Rightarrow> int list \<Rightarrow> int list" where
  "distribution c pid a n layers =
     grow_loop c pid (of_unix a) (growth_interval c) layers 1 n (replicate (length layers) 0)"

text \<open>Steps 1 to 6: read the anchor and the slots, decide the distribution and the new anchor.\<close>

definition plan_growth ::
  "cairn_config \<Rightarrow> faults \<Rightarrow> int \<Rightarrow> string \<Rightarrow> database \<Rightarrow> cairn_error + growth_decision" where
  "plan_growth c ft now pid db =
     bindE (lift_sql (attempt (ft 0) (one_row (state_of db pid)))) (\<lambda>st.
     case cairn_last_growth_at st of
       None \<Rightarrow> Inr SelfHeal
     | Some (BadText s) \<Rightarrow> Inl (ParseAnchor s)
     | Some (Stamp a) \<Rightarrow>
         let steps = growth_steps c a now
         in if growth_interval c \<le> 0 then Inl InvalidInterval
            else if steps \<le> 0 then Inr NoGrowth
            else if ft 1 then Inl (Sql DbError)
            else
              let slots = sorted_slots db pid;
                  applied = distribution c pid a (nat steps) (map layer_count slots)
              in if int (length slots) < SlotCount c then Inr NoGrowth
                 else Inr (Grow \<lparr>rawAnchor = Stamp a,
                             newAnchor = unix (of_unix a + wrap64 (steps * growth_interval c)),
                             increments = zip (map slot_index slots) applied\<rparr>))"

text \<open>The increments of the changed slots, one UPDATE each.\<close>

fun apply_increments ::
  "faults \<Rightarrow> nat \<Rightarrow> string \<Rightarrow> (int \<times> int) list \<Rightarrow> slot_row list \<Rightarrow> cairn_error + slot_row list" where
  "apply_increments ft k pid [] t = Inr t"
| "apply_increments ft k pid ((i, a) # incs) t =
     (if a = 0 then apply_increments ft (k + 1) pid incs t
      else if ft k then Inl (Sql DbError)
      else apply_increments ft (k + 1) pid incs
             (sql_update (\<lambda>r. slot_player r = pid \<and> slot_index r = i)
                (\<lambda>r. r\<lparr>layer_count := layer_count r + a\<rparr>) t))"

text \<open>Step 2 for a NULL anchor; step 7, the compare-and-set on the anchor's text, and the increments.\<close>

definition commit_growth ::
  "faults \<Rightarrow> int \<Rightarrow> string \<Rightarrow> growth_decision \<Rightarrow> database \<Rightarrow> cairn_error + database" where
  "commit_growth ft sqlnow pid d db =
     (case d of
        NoGrowth \<Rightarrow> Inr db
      | SelfHeal \<Rightarrow>
          if ft 1 then Inl (Sql DbError)
          else Inr (db\<lparr>player_states :=
                 sql_update (\<lambda>r. s_player r = pid \<and> cairn_last_growth_at r = None)
                   (\<lambda>r. r\<lparr>cairn_last_growth_at := Some (Stamp sqlnow)\<rparr>) (player_states db)\<rparr>)
      | Grow p \<Rightarrow>
          let P = (\<lambda>r. s_player r = pid \<and> cairn_last_growth_at r = Some (rawAnchor p))
          in if ft 2 then Inl (Sql DbError)
             else if sql_affected P (player_states db) = 0 then Inr db
             else bindE (apply_increments ft 3 pid (increments p) (wish_cairn_slots db)) (\<lambda>t.
               Inr (db\<lparr>player_states :=
                     sql_update P (\<lambda>r. r\<lparr>cairn_last_growth_at := Some (Stamp (newAnchor p))\<rparr>)
                       (player_states db),
                   wish_cairn_slots := t\<rparr>)))"

definition ApplyGrowth ::
  "cairn_config \<Rightarrow> faults \<Rightarrow> int \<Rightarrow> int \<Rightarrow> string \<Rightarrow> database \<Rightarrow> cairn_error + database" where
  "ApplyGrowth c ft now sqlnow pid db =
     bindE (plan_growth c ft now pid db) (\<lambda>d. commit_growth ft sqlnow pid d db)"

text \<open>
  \<open>ApplyGrowthTx\<close>: Begin, ApplyGrowth, Commit. An error anywhere rolls back; the result is the
  data base after the call and whether it succeeded. Call 0 is Begin, call 1 Commit.
\<close>

definition ApplyGrowthTx ::
  "cairn_config \<Rightarrow> faults \<Rightarrow> faults \<Rightarrow> int \<Rightarrow> int \<Rightarrow> string \<Rightarrow> database \<Rightarrow> (cairn_error + unit) \<times> database" where
  "ApplyGrowthTx c txft ft now sqlnow pid db =
     (if txft 0 then (Inl (Sql DbError), db)
      else case ApplyGrowth c ft now sqlnow pid db of
             Inl e \<Rightarrow> (Inl e, db)
           | Inr db' \<Rightarrow> if txft 1 then (Inl (Sql DbError), db) else (Inr (), db'))"

section \<open>The distribution loop\<close>

lemma set_incomplete:
  "j \<in> set (incomplete c layers applied) \<longleftrightarrow>
     j < length layers \<and> layers ! j + applied ! j < MaxLayers c"
  by (auto simp: incomplete_def)

lemma picked_incomplete:
  assumes "incomplete c layers applied \<noteq> []"
  shows "incomplete c layers applied ! (n mod length (incomplete c layers applied))
    \<in> set (incomplete c layers applied)"
  using assms by (intro nth_mem) simp

lemma grow_loop_length [simp]:
  "length (grow_loop c pid anchor interval layers i n applied) = length applied"
  by (induction n arbitrary: i applied) (simp_all add: Let_def)

text \<open>The layers a slot can still take, over all slots.\<close>

definition room :: "cairn_config \<Rightarrow> int list \<Rightarrow> int list \<Rightarrow> nat" where
  "room c layers applied = (\<Sum>j < length layers. nat (MaxLayers c - (layers ! j + applied ! j)))"

lemma room_0_iff: "room c layers applied = 0 \<longleftrightarrow> incomplete c layers applied = []"
  by (force simp: room_def incomplete_def filter_empty_conv not_less)

lemma sum_update:
  assumes "pos < n" and "length applied = n"
  shows "(\<Sum>j < n. f j (applied[pos := v] ! j)) + f pos (applied ! pos) =
    (\<Sum>j < n. f j (applied ! j)) + (f pos v :: 'b::comm_monoid_add)"
proof -
  have "(\<Sum>j < n. f j (applied[pos := v] ! j)) =
      f pos v + (\<Sum>j \<in> {..<n} - {pos}. f j (applied[pos := v] ! j))"
    using assms by (subst sum.remove [of _ pos]) simp_all
  moreover have "(\<Sum>j \<in> {..<n} - {pos}. f j (applied[pos := v] ! j)) =
      (\<Sum>j \<in> {..<n} - {pos}. f j (applied ! j))"
    by (rule sum.cong) auto
  moreover have "(\<Sum>j < n. f j (applied ! j)) =
      f pos (applied ! pos) + (\<Sum>j \<in> {..<n} - {pos}. f j (applied ! j))"
    using assms by (subst sum.remove [of _ pos]) simp_all
  ultimately show ?thesis by (simp add: ac_simps)
qed

lemma room_step:
  assumes "pos \<in> set (incomplete c layers applied)" and "length applied = length layers"
  shows "room c layers applied = Suc (room c layers (applied[pos := applied ! pos + 1]))"
proof -
  let ?f = "\<lambda>j a. nat (MaxLayers c - (layers ! j + a))"
  have pos: "pos < length layers" and lt: "layers ! pos + applied ! pos < MaxLayers c"
    using assms(1) by (simp_all add: set_incomplete)
  have "room c layers (applied[pos := applied ! pos + 1]) + ?f pos (applied ! pos) =
      room c layers applied + ?f pos (applied ! pos + 1)"
    unfolding room_def using sum_update [OF pos assms(2), of ?f "applied ! pos + 1"] by simp
  moreover have "?f pos (applied ! pos) = Suc (?f pos (applied ! pos + 1))" using lt by simp
  ultimately show ?thesis by simp
qed

lemma sum_list_step:
  assumes "pos < length applied"
  shows "sum_list (applied[pos := applied ! pos + 1]) = sum_list applied + (1 :: int)"
  using assms by (induction applied arbitrary: pos) (auto split: nat.split)

text \<open>The number of layers distributed: one per step, until no slot has room.\<close>

lemma grow_loop_total:
  assumes "length applied = length layers"
  shows "sum_list (grow_loop c pid anchor interval layers i n applied) =
    sum_list applied + int (min n (room c layers applied))"
  using assms
proof (induction n arbitrary: i applied)
  case 0
  then show ?case by simp
next
  case (Suc n)
  show ?case
  proof (cases "incomplete c layers applied = []")
    case True
    then show ?thesis using room_0_iff [of c layers applied] by simp
  next
    case False
    define pos where "pos = incomplete c layers applied !
      (unat (growthSeed pid (unix (anchor + wrap64 (i * interval)))) mod length (incomplete c layers applied))"
    have pos: "pos \<in> set (incomplete c layers applied)" unfolding pos_def using False by (rule picked_incomplete)
    then have "pos < length applied" using Suc.prems by (simp add: set_incomplete)
    moreover have "room c layers applied = Suc (room c layers (applied[pos := applied ! pos + 1]))"
      using pos Suc.prems by (rule room_step)
    ultimately show ?thesis
      using False Suc.IH [of "applied[pos := applied ! pos + 1]" "i + 1"] Suc.prems
      by (simp add: pos_def [symmetric] Let_def sum_list_step)
  qed
qed

text \<open>No slot is raised above the maximum, and none is lowered.\<close>

lemma grow_loop_bounds:
  assumes "length applied = length layers" and "j < length layers"
  shows "applied ! j \<le> grow_loop c pid anchor interval layers i n applied ! j"
    and "layers ! j + applied ! j \<le> m \<Longrightarrow> MaxLayers c \<le> m \<Longrightarrow>
      layers ! j + grow_loop c pid anchor interval layers i n applied ! j \<le> m"
proof -
  have "applied ! j \<le> grow_loop c pid anchor interval layers i n applied ! j \<and>
    (layers ! j + applied ! j \<le> m \<longrightarrow> MaxLayers c \<le> m \<longrightarrow>
      layers ! j + grow_loop c pid anchor interval layers i n applied ! j \<le> m)"
    using assms
  proof (induction n arbitrary: i applied)
    case (Suc n)
    show ?case
    proof (cases "incomplete c layers applied = []")
      case False
      define pos where "pos = incomplete c layers applied !
        (unat (growthSeed pid (unix (anchor + wrap64 (i * interval)))) mod length (incomplete c layers applied))"
      have pos: "pos \<in> set (incomplete c layers applied)" unfolding pos_def using False by (rule picked_incomplete)
      then have "layers ! pos + applied ! pos < MaxLayers c" "pos < length applied"
        using Suc.prems by (simp_all add: set_incomplete)
      then show ?thesis
        using False Suc.IH [of "applied[pos := applied ! pos + 1]" "i + 1"] Suc.prems
        by (cases "j = pos") (auto simp: pos_def [symmetric] Let_def)
    qed simp
  qed simp
  then show "applied ! j \<le> grow_loop c pid anchor interval layers i n applied ! j"
    and "layers ! j + applied ! j \<le> m \<Longrightarrow> MaxLayers c \<le> m \<Longrightarrow>
      layers ! j + grow_loop c pid anchor interval layers i n applied ! j \<le> m" by simp_all
qed

text \<open>The steps compose: \<open>n + m\<close> steps are \<open>n\<close> steps followed by \<open>m\<close>.\<close>

lemma grow_loop_stuck:
  "incomplete c layers applied = [] \<Longrightarrow> grow_loop c pid anchor interval layers i n applied = applied"
  by (cases n) simp_all

lemma grow_loop_add:
  "grow_loop c pid anchor interval layers i (n + m) applied =
   grow_loop c pid anchor interval layers (i + int n) m (grow_loop c pid anchor interval layers i n applied)"
proof (induction n arbitrary: i applied)
  case (Suc n)
  show ?case
  proof (cases "incomplete c layers applied = []")
    case True
    then show ?thesis by (simp add: grow_loop_stuck)
  next
    case False
    then show ?thesis using Suc.IH by (simp add: Let_def add.assoc add.commute [of 1])
  qed
qed simp

text \<open>Starting from the raised layers at a later anchor of the grid gives the same picks.\<close>

lemma incomplete_rebase:
  assumes "length base = length layers" and "length extra = length layers"
  shows "incomplete c (map2 (+) layers base) extra = incomplete c layers (map2 (+) base extra)"
  using assms by (auto simp: incomplete_def add.assoc intro!: filter_cong)

lemma grow_loop_rebase:
  assumes "length base = length layers" and "length extra = length layers"
    and "0 \<le> interval" and "0 \<le> i" and "0 \<le> k" and "(i + int n + k) * interval < 2 ^ 63"
  shows "map2 (+) base (grow_loop c pid (anchor + k * interval) interval (map2 (+) layers base) i n extra) =
    grow_loop c pid anchor interval layers (i + k) n (map2 (+) base extra)"
  using assms
proof (induction n arbitrary: i extra)
  case (Suc n)
  let ?inc = "incomplete c layers (map2 (+) base extra)"
  have inc: "incomplete c (map2 (+) layers base) extra = ?inc"
    using Suc.prems(1,2) by (rule incomplete_rebase)
  show ?case
  proof (cases "?inc = []")
    case True
    then show ?thesis by (simp add: inc)
  next
    case False
    have le: "i * interval < 2 ^ 63" "(i + k) * interval < 2 ^ 63"
      using Suc.prems mult_right_mono [of i "i + int (Suc n) + k" interval]
        mult_right_mono [of "i + k" "i + int (Suc n) + k" interval] by simp_all
    have ge: "0 \<le> i * interval" "0 \<le> (i + k) * interval" using Suc.prems by simp_all
    have lo: "- (2 ^ 63) \<le> (0 :: int)" by simp
    have unix_eq: "anchor + k * interval + wrap64 (i * interval) = anchor + wrap64 ((i + k) * interval)"
      using wrap64_id [OF order_trans [OF lo ge(1)] le(1)] wrap64_id [OF order_trans [OF lo ge(2)] le(2)]
      by (simp add: algebra_simps)
    define pos where "pos = ?inc ! (unat (growthSeed pid (unix (anchor + wrap64 ((i + k) * interval)))) mod length ?inc)"
    have "pos \<in> set ?inc" unfolding pos_def using False by (rule picked_incomplete)
    then have pos: "pos < length layers" by (simp add: set_incomplete)
    have upd: "map2 (+) base (extra[pos := extra ! pos + 1]) =
        (map2 (+) base extra)[pos := map2 (+) base extra ! pos + 1]"
      using pos Suc.prems(1,2) by (auto intro!: nth_equalityI simp: nth_list_update)
    have "map2 (+) base (grow_loop c pid (anchor + k * interval) interval (map2 (+) layers base)
          (i + 1) n (extra[pos := extra ! pos + 1])) =
        grow_loop c pid anchor interval layers (i + 1 + k) n (map2 (+) base (extra[pos := extra ! pos + 1]))"
      using Suc.prems by (intro Suc.IH) (simp_all add: add.assoc add.commute [of 1])
    moreover have "grow_loop c pid (anchor + k * interval) interval (map2 (+) layers base) i (Suc n) extra =
        grow_loop c pid (anchor + k * interval) interval (map2 (+) layers base) (i + 1) n (extra[pos := extra ! pos + 1])"
      using False by (simp add: inc unix_eq pos_def Let_def)
    moreover have "grow_loop c pid anchor interval layers (i + k) (Suc n) (map2 (+) base extra) =
        grow_loop c pid anchor interval layers (i + 1 + k) n (map2 (+) base (extra[pos := extra ! pos + 1]))"
      using False unfolding upd by (simp add: pos_def Let_def add.assoc add.commute [of 1])
    ultimately show ?thesis by simp
  qed
qed simp

section \<open>What the writes do\<close>

definition raise_slots :: "string \<Rightarrow> (int \<Rightarrow> int) \<Rightarrow> slot_row list \<Rightarrow> slot_row list" where
  "raise_slots pid g t =
     map (\<lambda>r. if slot_player r = pid then r\<lparr>layer_count := layer_count r + g (slot_index r)\<rparr> else r) t"

definition inc_for :: "(int \<times> int) list \<Rightarrow> int \<Rightarrow> int" where
  "inc_for incs i = sum_list (map snd (filter (\<lambda>p. fst p = i) incs))"

lemma raise_slots_zero: "(\<And>i. g i = 0) \<Longrightarrow> raise_slots pid g t = t"
  by (simp add: raise_slots_def map_idI)

lemma raise_slots_add: "raise_slots pid g (raise_slots pid h t) = raise_slots pid (\<lambda>i. h i + g i) t"
  by (simp add: raise_slots_def add.assoc)

lemma apply_increments_Inr:
  "apply_increments ft k pid incs t = Inr t' \<Longrightarrow> t' = raise_slots pid (inc_for incs) t"
proof (induction incs arbitrary: k t)
  case Nil
  then show ?case by (simp add: raise_slots_zero inc_for_def)
next
  case (Cons p incs)
  obtain i a where p: "p = (i, a)" by (cases p)
  have upd: "sql_update (\<lambda>r. slot_player r = pid \<and> slot_index r = i) (\<lambda>r. r\<lparr>layer_count := layer_count r + a\<rparr>) t =
      raise_slots pid (\<lambda>j. if j = i then a else 0) t"
    by (auto simp: sql_update_def raise_slots_def)
  have inc: "inc_for (p # incs) = (\<lambda>j. (if j = i then a else 0) + inc_for incs j)"
    by (auto simp: inc_for_def p fun_eq_iff)
  show ?case
  proof (cases "a = 0")
    case True
    then have "inc_for (p # incs) = inc_for incs" using inc by auto
    then show ?thesis using Cons p True by simp
  next
    case False
    then have "apply_increments ft (k + 1) pid incs (raise_slots pid (\<lambda>j. if j = i then a else 0) t) = Inr t'"
      using Cons.prems p upd by (simp split: if_splits)
    then have "t' = raise_slots pid (inc_for incs) (raise_slots pid (\<lambda>j. if j = i then a else 0) t)"
      by (rule Cons.IH)
    then show ?thesis unfolding inc by (simp only: raise_slots_add)
  qed
qed

lemma apply_increments_ok: "(\<And>k. \<not> ft k) \<Longrightarrow> \<exists>t'. apply_increments ft k pid incs t = Inr t'"
  by (induction incs arbitrary: k t) auto

lemma sort_key_map: "(\<And>x. f (g x) = f x) \<Longrightarrow> sort_key f (map g xs) = map g (sort_key f xs)"
proof (induction xs)
  case (Cons x xs)
  have "insort_key f (g x) (map g ys) = map g (insort_key f x ys)" for ys
    using Cons.prems by (induction ys) auto
  with Cons show ?case by simp
qed simp

lemma slots_raise:
  "filter (\<lambda>r. slot_player r = q) (raise_slots pid g t) =
   (if q = pid then map (\<lambda>r. r\<lparr>layer_count := layer_count r + g (slot_index r)\<rparr>) (filter (\<lambda>r. slot_player r = q) t)
    else filter (\<lambda>r. slot_player r = q) t)"
  by (induction t) (auto simp: raise_slots_def)

lemma sorted_slots_raise:
  "sorted_slots (db\<lparr>wish_cairn_slots := raise_slots pid g (wish_cairn_slots db)\<rparr>) q =
   (if q = pid then map (\<lambda>r. r\<lparr>layer_count := layer_count r + g (slot_index r)\<rparr>) (sorted_slots db q)
    else sorted_slots db q)"
  by (simp add: sorted_slots_def slots_of_def slots_raise sort_key_map)

lemma sorted_slots_frame [simp]:
  "sorted_slots (db\<lparr>player_states := x\<rparr>) q = sorted_slots db q"
  by (simp add: sorted_slots_def slots_of_def)

text \<open>With distinct slot indices, each slot gets the entry at its own position.\<close>

lemma inc_for_zip:
  assumes "distinct idxs" and "length xs = length idxs" and "j < length idxs"
  shows "inc_for (zip idxs xs) (idxs ! j) = xs ! j"
  using assms
proof (induction idxs arbitrary: xs j)
  case (Cons i idxs)
  obtain x ys where xs: "xs = x # ys" using Cons.prems by (cases xs) auto
  show ?case
  proof (cases j)
    case 0
    have "filter (\<lambda>p. fst p = i) (zip idxs ys) = []"
      using Cons.prems(1) by (auto simp: filter_empty_conv dest: set_zip_leftD)
    then show ?thesis by (simp add: 0 xs inc_for_def)
  next
    case (Suc k)
    then have "idxs ! k \<noteq> i" using Cons.prems by auto
    then show ?thesis using Cons.IH [of ys k] Cons.prems Suc by (auto simp: xs inc_for_def)
  qed
qed simp

lemma inc_for_add:
  "length xs = length idxs \<Longrightarrow> length ys = length idxs \<Longrightarrow>
   inc_for (zip idxs xs) i + inc_for (zip idxs ys) i = inc_for (zip idxs (map2 (+) xs ys)) i"
proof (induction idxs arbitrary: xs ys)
  case (Cons k idxs)
  then obtain x xs' y ys' where "xs = x # xs'" "ys = y # ys'"
    by (metis Suc_length_conv length_Cons)
  with Cons show ?case by (simp add: inc_for_def)
qed (simp add: inc_for_def)

lemma distinct_slot_indices:
  assumes "keys_ok db"
  shows "distinct (map slot_index (sorted_slots db pid))"
proof -
  have "distinct (map (\<lambda>r. (slot_player r, slot_index r)) (slots_of db pid))"
    using assms by (simp add: keys_ok_def slots_of_def distinct_map_filter)
  then have "distinct (map slot_index (slots_of db pid))"
    by (auto simp: slots_of_def distinct_map inj_on_def)
  then have "inj_on slot_index (set (sorted_slots db pid)) \<and> distinct (slots_of db pid)"
    by (simp add: sorted_slots_def distinct_map)
  then show ?thesis by (simp add: sorted_slots_def distinct_map)
qed

lemma layers_raised:
  assumes "distinct (map slot_index ss)" and "length applied = length ss"
  shows "map layer_count (map (\<lambda>r. r\<lparr>layer_count := layer_count r + inc_for (zip (map slot_index ss) applied) (slot_index r)\<rparr>) ss)
    = map2 (+) (map layer_count ss) applied"
proof (rule nth_equalityI)
  fix j assume "j < length (map layer_count (map (\<lambda>r. r\<lparr>layer_count := layer_count r + inc_for (zip (map slot_index ss) applied) (slot_index r)\<rparr>) ss))"
  then have j: "j < length ss" by simp
  then have "inc_for (zip (map slot_index ss) applied) (slot_index (ss ! j)) = applied ! j"
    using inc_for_zip [of "map slot_index ss" applied j] assms by simp
  with j assms(2) show "map layer_count (map (\<lambda>r. r\<lparr>layer_count := layer_count r + inc_for (zip (map slot_index ss) applied) (slot_index r)\<rparr>) ss) ! j =
      map2 (+) (map layer_count ss) applied ! j" by simp
qed (use assms in simp)

section \<open>The effect of one growth\<close>

lemma distribution_length [simp]: "length (distribution c pid a n layers) = length layers"
  by (simp add: distribution_def)

definition grow_by :: "cairn_config \<Rightarrow> string \<Rightarrow> int \<Rightarrow> nat \<Rightarrow> database \<Rightarrow> database" where
  "grow_by c pid a n db =
     (let ss = sorted_slots db pid
      in db\<lparr>player_states := sql_update (\<lambda>r. s_player r = pid)
              (\<lambda>r. r\<lparr>cairn_last_growth_at := Some (Stamp (a + int n * SpawnIntervalSeconds c))\<rparr>) (player_states db),
            wish_cairn_slots := raise_slots pid
              (inc_for (zip (map slot_index ss) (distribution c pid a n (map layer_count ss))))
              (wish_cairn_slots db)\<rparr>)"

text \<open>The interval and the span stay within a \<open>Duration\<close>.\<close>

definition growth_fits :: "cairn_config \<Rightarrow> int \<Rightarrow> int \<Rightarrow> bool" where
  "growth_fits c a now \<longleftrightarrow>
     0 < SpawnIntervalSeconds c \<and> SpawnIntervalSeconds c \<le> 86400 \<and> now - of_unix a < 2 ^ 63"

lemma growth_interval_eq:
  "0 < SpawnIntervalSeconds c \<Longrightarrow> SpawnIntervalSeconds c \<le> 86400 \<Longrightarrow>
   growth_interval c = SpawnIntervalSeconds c * second"
  by (simp add: growth_interval_def second_def wrap64_id)

lemma growth_steps_eq:
  assumes "growth_fits c a now" and "of_unix a \<le> now"
  shows "growth_steps c a now = (now - of_unix a) div (SpawnIntervalSeconds c * second)"
  using assms by (simp add: growth_steps_def growth_fits_def growth_interval_eq time_sub_def sdiv_nonneg)

lemma growth_steps_early:
  assumes "growth_fits c a now" and "now \<le> of_unix a"
  shows "growth_steps c a now \<le> 0"
  using assms by (simp add: growth_steps_def growth_fits_def growth_interval_eq time_sub_def sdiv_nonpos)

lemma growth_steps_span:
  assumes "growth_fits c a now" and "0 < growth_steps c a now"
  shows "growth_steps c a now * (SpawnIntervalSeconds c * second) \<le> now - of_unix a"
proof -
  have "of_unix a \<le> now" using assms growth_steps_early [OF assms(1)] by linarith
  with assms(1) have eq: "growth_steps c a now = (now - of_unix a) div (SpawnIntervalSeconds c * second)"
    by (simp add: growth_steps_eq)
  have "0 < SpawnIntervalSeconds c * second" using assms(1) by (simp add: growth_fits_def)
  then have "0 \<le> (now - of_unix a) mod (SpawnIntervalSeconds c * second)" by (rule pos_mod_sign)
  then have "(now - of_unix a) div (SpawnIntervalSeconds c * second) * (SpawnIntervalSeconds c * second) \<le> now - of_unix a"
    using minus_mod_eq_div_mult [of "now - of_unix a" "SpawnIntervalSeconds c * second"] by linarith
  then show ?thesis unfolding eq .
qed

lemma new_anchor_eq:
  assumes "growth_fits c a now" and "0 < growth_steps c a now"
  shows "unix (of_unix a + wrap64 (growth_steps c a now * growth_interval c)) =
    a + growth_steps c a now * SpawnIntervalSeconds c"
proof -
  have i: "growth_interval c = SpawnIntervalSeconds c * second"
    using assms(1) by (simp add: growth_fits_def growth_interval_eq)
  have "growth_steps c a now * growth_interval c < 2 ^ 63"
    using growth_steps_span [OF assms] assms(1) by (simp add: i growth_fits_def)
  moreover have "0 \<le> growth_steps c a now * growth_interval c"
    unfolding i using assms by (intro mult_nonneg_nonneg) (simp_all add: growth_fits_def)
  ultimately have "wrap64 (growth_steps c a now * growth_interval c) = growth_steps c a now * growth_interval c"
    by (intro wrap64_id) simp_all
  then show ?thesis
    using unix_add_seconds [of "of_unix a" "growth_steps c a now * SpawnIntervalSeconds c"]
    by (simp add: i mult.assoc)
qed

lemma ApplyGrowth_steps:
  assumes "keys_ok db" and "\<And>k. \<not> ft k" and "growth_fits c a now"
    and "state_of db pid = Some st" and "cairn_last_growth_at st = Some (Stamp a)"
  shows "ApplyGrowth c ft now sqlnow pid db = Inr
    (if growth_steps c a now \<le> 0 \<or> int (length (sorted_slots db pid)) < SlotCount c then db
     else grow_by c pid a (nat (growth_steps c a now)) db)"
proof -
  let ?n = "growth_steps c a now" and ?ss = "sorted_slots db pid"
  let ?app = "distribution c pid a (nat ?n) (map layer_count ?ss)"
  have i: "0 < growth_interval c" using assms(3) by (simp add: growth_fits_def growth_interval_eq)
  have row: "s_player r = pid \<Longrightarrow> r \<in> set (player_states db) \<Longrightarrow> r = st" for r
    using assms(1,4) state_of_iff by (metis option.inject)
  have st: "st \<in> set (player_states db)" "s_player st = pid" using state_ofD [OF assms(4)] by simp_all
  show ?thesis
  proof (cases "?n \<le> 0 \<or> int (length ?ss) < SlotCount c")
    case True
    then show ?thesis using assms(2,4,5) i
      by (auto simp: ApplyGrowth_def plan_growth_def commit_growth_def Let_def)
  next
    case False
    let ?P = "\<lambda>r. s_player r = pid \<and> cairn_last_growth_at r = Some (Stamp a)"
    let ?f = "\<lambda>r. r\<lparr>cairn_last_growth_at := Some (Stamp (a + ?n * SpawnIntervalSeconds c))\<rparr>"
    have new: "unix (of_unix a + wrap64 (?n * growth_interval c)) = a + ?n * SpawnIntervalSeconds c"
      using assms(3) False by (intro new_anchor_eq) simp_all
    have "sql_affected ?P (player_states db) \<noteq> 0" using st assms(5) by (auto simp: sql_affected_0_iff)
    moreover have "sql_update ?P ?f (player_states db) = sql_update (\<lambda>r. s_player r = pid) ?f (player_states db)"
      unfolding sql_update_def using row assms(5) by auto
    moreover obtain t where t: "apply_increments ft 3 pid (zip (map slot_index ?ss) ?app) (wish_cairn_slots db) = Inr t"
      using apply_increments_ok [of ft 3 pid, OF assms(2)] by blast
    moreover note apply_increments_Inr [OF t]
    ultimately show ?thesis using False assms(2,4,5) i new
      by (simp add: ApplyGrowth_def plan_growth_def commit_growth_def Let_def grow_by_def)
  qed
qed

lemma sorted_slots_grow_by:
  "sorted_slots (grow_by c pid a n db) q =
   (if q = pid then
      (let ss = sorted_slots db pid;
           g = inc_for (zip (map slot_index ss) (distribution c pid a n (map layer_count ss)))
       in map (\<lambda>r. r\<lparr>layer_count := layer_count r + g (slot_index r)\<rparr>) ss)
    else sorted_slots db q)"
proof -
  let ?g = "inc_for (zip (map slot_index (sorted_slots db pid))
    (distribution c pid a n (map layer_count (sorted_slots db pid))))"
  have "sorted_slots (grow_by c pid a n db) q =
      sorted_slots (db\<lparr>wish_cairn_slots := raise_slots pid ?g (wish_cairn_slots db)\<rparr>) q"
    by (simp add: grow_by_def Let_def sorted_slots_def slots_of_def)
  then show ?thesis by (simp add: sorted_slots_raise Let_def)
qed

lemma layers_grow_by:
  assumes "keys_ok db"
  shows "map layer_count (sorted_slots (grow_by c pid a n db) pid) =
    map2 (+) (map layer_count (sorted_slots db pid))
      (distribution c pid a n (map layer_count (sorted_slots db pid)))"
  using layers_raised [OF distinct_slot_indices [OF assms], of "distribution c pid a n (map layer_count (sorted_slots db pid))" pid]
  by (simp add: sorted_slots_grow_by Let_def)

text \<open>Growing by \<open>n\<close> steps and then by \<open>m\<close> is growing by \<open>n + m\<close>.\<close>

lemma distribution_add:
  assumes "growth_interval c = SpawnIntervalSeconds c * second" and "0 \<le> SpawnIntervalSeconds c"
    and "(int n + int m + 1) * (SpawnIntervalSeconds c * second) < 2 ^ 63"
  shows "distribution c pid a (n + m) layers =
    map2 (+) (distribution c pid a n layers)
      (distribution c pid (a + int n * SpawnIntervalSeconds c) m (map2 (+) layers (distribution c pid a n layers)))"
proof -
  let ?I = "growth_interval c" and ?z = "replicate (length layers) (0::int)"
  let ?d = "distribution c pid a n layers"
  have base: "of_unix (a + int n * SpawnIntervalSeconds c) = of_unix a + int n * ?I"
    by (simp add: assms(1) of_unix_def algebra_simps)
  have z: "map2 (+) ?d ?z = ?d" by (rule nth_equalityI) simp_all
  have "map2 (+) ?d (grow_loop c pid (of_unix a + int n * ?I) ?I (map2 (+) layers ?d) 1 m ?z) =
      grow_loop c pid (of_unix a) ?I layers (1 + int n) m (map2 (+) ?d ?z)"
  proof (intro grow_loop_rebase)
    show "0 \<le> ?I" using assms(1,2) by simp
    show "(1 + int m + int n) * ?I < 2 ^ 63" using assms(1,3) by (simp add: ac_simps)
  qed simp_all
  then show ?thesis
    unfolding distribution_def [of c pid a "n + m"] grow_loop_add z
    by (simp add: distribution_def base)
qed

lemma grow_by_add:
  assumes "keys_ok db" and "growth_interval c = SpawnIntervalSeconds c * second" and "0 \<le> SpawnIntervalSeconds c"
    and "(int n + int m + 1) * (SpawnIntervalSeconds c * second) < 2 ^ 63"
  shows "grow_by c pid (a + int n * SpawnIntervalSeconds c) m (grow_by c pid a n db) = grow_by c pid a (n + m) db"
proof -
  let ?ss = "sorted_slots db pid" and ?a' = "a + int n * SpawnIntervalSeconds c"
  let ?ls = "map layer_count ?ss" and ?is = "map slot_index ?ss"
  let ?d = "distribution c pid a n ?ls"
  let ?e = "distribution c pid ?a' m (map2 (+) ?ls ?d)"
  have idx: "map slot_index (sorted_slots (grow_by c pid a n db) pid) = ?is"
    by (simp add: sorted_slots_grow_by Let_def)
  have lay: "map layer_count (sorted_slots (grow_by c pid a n db) pid) = map2 (+) ?ls ?d"
    using assms(1) by (rule layers_grow_by)
  have sum: "distribution c pid a (n + m) ?ls = map2 (+) ?d ?e"
    using assms(2-4) by (rule distribution_add)
  have slots: "raise_slots pid (inc_for (zip ?is ?e)) (raise_slots pid (inc_for (zip ?is ?d)) t) =
      raise_slots pid (inc_for (zip ?is (distribution c pid a (n + m) ?ls))) t" for t
    by (simp only: raise_slots_add sum) (simp add: inc_for_add)
  have "?a' + int m * SpawnIntervalSeconds c = a + int (n + m) * SpawnIntervalSeconds c"
    by (simp add: algebra_simps)
  then have states: "sql_update (\<lambda>r. s_player r = pid)
        (\<lambda>r. r\<lparr>cairn_last_growth_at := Some (Stamp (?a' + int m * SpawnIntervalSeconds c))\<rparr>)
        (sql_update (\<lambda>r. s_player r = pid) (\<lambda>r. r\<lparr>cairn_last_growth_at := Some (Stamp ?a')\<rparr>) t) =
      sql_update (\<lambda>r. s_player r = pid)
        (\<lambda>r. r\<lparr>cairn_last_growth_at := Some (Stamp (a + int (n + m) * SpawnIntervalSeconds c))\<rparr>) t" for t
    by (auto simp: sql_update_def)
  show ?thesis
    unfolding grow_by_def [of c pid ?a' m] Let_def idx lay
    unfolding grow_by_def Let_def
    by (simp add: slots states)
qed

section \<open>Properties\<close>

definition slots_ok :: "cairn_config \<Rightarrow> database \<Rightarrow> bool" where
  "slots_ok c db \<longleftrightarrow> (\<forall>r \<in> set (wish_cairn_slots db). 0 \<le> layer_count r \<and> layer_count r \<le> MaxLayers c)"

definition layers_of :: "database \<Rightarrow> string \<Rightarrow> int list" where
  "layers_of db pid = map layer_count (sorted_slots db pid)"

lemma set_sorted_slots: "set (sorted_slots db pid) = {r \<in> set (wish_cairn_slots db). slot_player r = pid}"
  by (auto simp: sorted_slots_def slots_of_def)

lemma distribution_bounds:
  assumes "j < length layers"
  shows "0 \<le> distribution c pid a n layers ! j"
    and "layers ! j \<le> MaxLayers c \<Longrightarrow> layers ! j + distribution c pid a n layers ! j \<le> MaxLayers c"
  using assms grow_loop_bounds(1) [where applied = "replicate (length layers) 0" and layers = layers and j = j and c = c]
    grow_loop_bounds(2) [where applied = "replicate (length layers) 0" and layers = layers and j = j and c = c
      and m = "MaxLayers c"]
  by (simp_all add: distribution_def)

lemma distribution_total:
  "sum_list (distribution c pid a n layers) = int (min n (\<Sum>l \<leftarrow> layers. nat (MaxLayers c - l)))"
proof -
  have "room c layers (replicate (length layers) 0) = (\<Sum>l \<leftarrow> layers. nat (MaxLayers c - l))"
    by (simp add: room_def sum_list_sum_nth atLeast0LessThan)
  then show ?thesis by (simp add: distribution_def grow_loop_total sum_list_replicate)
qed

lemma sum_list_map2_add: "length xs = length ys \<Longrightarrow> sum_list (map2 (+) xs ys) = sum_list xs + (sum_list ys :: int)"
  by (induction xs ys rule: list_induct2) simp_all

lemma grow_by_keys: "keys_ok (grow_by c pid a n db) = keys_ok db"
proof -
  have "map s_player (sql_update (\<lambda>r. s_player r = pid) (\<lambda>r. r\<lparr>cairn_last_growth_at := x\<rparr>) t) = map s_player t"
    for x and t :: "state_row list" by (rule map_key_sql_update) simp
  moreover have "map (\<lambda>r. (slot_player r, slot_index r)) (raise_slots pid g t) = map (\<lambda>r. (slot_player r, slot_index r)) t"
    for g t by (simp add: raise_slots_def)
  ultimately show ?thesis by (simp add: grow_by_def Let_def keys_ok_def)
qed

lemma grow_by_slots_ok:
  assumes "keys_ok db" and "slots_ok c db"
  shows "slots_ok c (grow_by c pid a n db)"
proof -
  let ?ss = "sorted_slots db pid"
  let ?ls = "map layer_count ?ss" and ?d = "distribution c pid a n (map layer_count (sorted_slots db pid))"
  have own: "0 \<le> layer_count r \<and> layer_count r \<le> MaxLayers c"
    if "r \<in> set (sorted_slots (grow_by c pid a n db) pid)" for r
  proof -
    from that obtain j where j: "j < length (sorted_slots (grow_by c pid a n db) pid)"
      and r: "r = sorted_slots (grow_by c pid a n db) pid ! j" by (metis in_set_conv_nth)
    then have "layer_count r = map layer_count (sorted_slots (grow_by c pid a n db) pid) ! j" by simp
    also have "\<dots> = ?ls ! j + ?d ! j"
      using j unfolding layers_grow_by [OF assms(1)] by (simp add: sorted_slots_grow_by Let_def)
    finally have l: "layer_count r = ?ls ! j + ?d ! j" .
    have j': "j < length ?ls" using j by (simp add: sorted_slots_grow_by Let_def)
    then have "?ss ! j \<in> set ?ss" by simp
    then have "0 \<le> ?ls ! j" "?ls ! j \<le> MaxLayers c"
      using assms(2) j' by (auto simp: slots_ok_def set_sorted_slots)
    then show ?thesis using distribution_bounds [OF j'] unfolding l by simp
  qed
  show ?thesis
    unfolding slots_ok_def
  proof
    fix r assume r: "r \<in> set (wish_cairn_slots (grow_by c pid a n db))"
    show "0 \<le> layer_count r \<and> layer_count r \<le> MaxLayers c"
    proof (cases "slot_player r = pid")
      case True
      then show ?thesis using r own by (simp add: set_sorted_slots)
    next
      case False
      then have "r \<in> set (sorted_slots (grow_by c pid a n db) (slot_player r))"
        using r by (simp add: set_sorted_slots)
      then have "r \<in> set (wish_cairn_slots db)" using False by (simp add: sorted_slots_grow_by set_sorted_slots)
      then show ?thesis using assms(2) by (simp add: slots_ok_def)
    qed
  qed
qed

lemma state_grow_by:
  "state_of (grow_by c pid a n db) pid =
    map_option (\<lambda>st. st\<lparr>cairn_last_growth_at := Some (Stamp (a + int n * SpawnIntervalSeconds c))\<rparr>) (state_of db pid)"
proof -
  let ?f = "\<lambda>st. st\<lparr>cairn_last_growth_at := Some (Stamp (a + int n * SpawnIntervalSeconds c))\<rparr>"
  have "find (\<lambda>r. s_player r = pid) (sql_update (\<lambda>r. s_player r = pid) ?f (player_states db)) =
      map_option (\<lambda>r. if s_player r = pid then ?f r else r) (find (\<lambda>r. s_player r = pid) (player_states db))"
    by (rule find_sql_update_key) simp
  then show ?thesis
    by (cases "find (\<lambda>r. s_player r = pid) (player_states db)")
      (auto simp: state_of_def grow_by_def Let_def dest: find_SomeD)
qed

lemma plan_growth_GrowD:
  assumes "plan_growth c ft now pid db = Inr (Grow p)"
  obtains st a where "state_of db pid = Some st" and "cairn_last_growth_at st = Some (Stamp a)"
    and "0 < growth_interval c" and "0 < growth_steps c a now"
    and "SlotCount c \<le> int (length (sorted_slots db pid))"
    and "p = \<lparr>rawAnchor = Stamp a,
           newAnchor = unix (of_unix a + wrap64 (growth_steps c a now * growth_interval c)),
           increments = zip (map slot_index (sorted_slots db pid))
             (distribution c pid a (nat (growth_steps c a now)) (map layer_count (sorted_slots db pid)))\<rparr>"
proof -
  from assms obtain st where st: "state_of db pid = Some st"
    by (auto simp: plan_growth_def run_simps)
  with assms have f0: "\<not> ft 0" by (auto simp: plan_growth_def run_simps)
  show thesis
  proof (cases "cairn_last_growth_at st")
    case None
    with assms st f0 show thesis by (simp add: plan_growth_def)
  next
    case (Some x)
    show thesis
    proof (cases x)
      case (Stamp a)
      with assms st f0 Some show thesis
        by (intro that [of st a]) (simp_all add: plan_growth_def Let_def split: if_splits)
    next
      case (BadText b)
      with assms st f0 Some show thesis by (simp add: plan_growth_def)
    qed
  qed
qed

lemma commit_growth_GrowD:
  assumes "commit_growth ft sqlnow pid (Grow p) db = Inr db'"
  shows "db' = db \<or> (\<exists>t. apply_increments ft 3 pid (increments p) (wish_cairn_slots db) = Inr t \<and>
    db' = db\<lparr>player_states := sql_update (\<lambda>r. s_player r = pid \<and> cairn_last_growth_at r = Some (rawAnchor p))
              (\<lambda>r. r\<lparr>cairn_last_growth_at := Some (Stamp (newAnchor p))\<rparr>) (player_states db),
             wish_cairn_slots := t\<rparr>)"
proof (cases "sql_affected (\<lambda>r. s_player r = pid \<and> cairn_last_growth_at r = Some (rawAnchor p)) (player_states db) = 0")
  case True
  with assms show ?thesis by (simp add: commit_growth_def Let_def split: if_splits)
next
  case False
  with assms show ?thesis
    by (cases "apply_increments ft 3 pid (increments p) (wish_cairn_slots db)")
       (simp_all add: commit_growth_def Let_def split: if_splits)
qed

text \<open>
  Whatever a growth does, faults included, it writes the anchor of the one player and raises
  that player's slots by a distribution: no other column, row or table changes.
\<close>

lemma ApplyGrowth_frame:
  assumes "ApplyGrowth c ft now sqlnow pid db = Inr db'"
  obtains P x g where
    "db' = db\<lparr>player_states := sql_update (\<lambda>r. s_player r = pid \<and> P r)
                (\<lambda>r. r\<lparr>cairn_last_growth_at := x\<rparr>) (player_states db),
             wish_cairn_slots := raise_slots pid g (wish_cairn_slots db)\<rparr>"
    and "(\<forall>i. g i = 0) \<or> (\<exists>a n. g = inc_for (zip (map slot_index (sorted_slots db pid))
            (distribution c pid a n (layers_of db pid))))"
proof -
  have idle: "db = db\<lparr>player_states := sql_update (\<lambda>r. s_player r = pid \<and> False)
      (\<lambda>r. r\<lparr>cairn_last_growth_at := None\<rparr>) (player_states db),
      wish_cairn_slots := raise_slots pid (\<lambda>_. 0) (wish_cairn_slots db)\<rparr>"
    by (simp add: raise_slots_zero sql_update_def)
  from assms obtain d where plan: "plan_growth c ft now pid db = Inr d"
    and commit: "commit_growth ft sqlnow pid d db = Inr db'" by (auto simp: ApplyGrowth_def run_simps)
  show thesis
  proof (cases d)
    case SelfHeal
    with commit have "db' = db\<lparr>player_states := sql_update (\<lambda>r. s_player r = pid \<and> cairn_last_growth_at r = None)
        (\<lambda>r. r\<lparr>cairn_last_growth_at := Some (Stamp sqlnow)\<rparr>) (player_states db),
        wish_cairn_slots := raise_slots pid (\<lambda>_. 0) (wish_cairn_slots db)\<rparr>"
      by (auto simp: commit_growth_def raise_slots_zero split: if_splits)
    then show thesis by (rule that) simp
  next
    case NoGrowth
    with commit have "db' = db" by (simp add: commit_growth_def)
    show thesis by (rule that [OF trans [OF \<open>db' = db\<close> idle]]) simp
  next
    case (Grow p)
    from plan [unfolded Grow] obtain a n where
      inc: "increments p = zip (map slot_index (sorted_slots db pid)) (distribution c pid a n (layers_of db pid))"
      by (rule plan_growth_GrowD) (simp add: layers_of_def)
    let ?P = "\<lambda>r. s_player r = pid \<and> cairn_last_growth_at r = Some (rawAnchor p)"
    from commit_growth_GrowD [OF commit [unfolded Grow]] consider "db' = db"
      | t where "apply_increments ft 3 pid (increments p) (wish_cairn_slots db) = Inr t"
          "db' = db\<lparr>player_states := sql_update ?P (\<lambda>r. r\<lparr>cairn_last_growth_at := Some (Stamp (newAnchor p))\<rparr>)
              (player_states db), wish_cairn_slots := t\<rparr>"
      by blast
    then show thesis
    proof cases
      case 1
      show thesis by (rule that [OF trans [OF 1 idle]]) simp
    next
      case 2
      from apply_increments_Inr [OF 2(1)] have t: "t = raise_slots pid (inc_for (increments p)) (wish_cairn_slots db)" .
      show thesis using 2(2) unfolding t by (rule that) (unfold inc, blast)
    qed
  qed
qed

lemma ApplyGrowth_slots_ok:
  assumes "ApplyGrowth c ft now sqlnow pid db = Inr db'" and "keys_ok db" and "slots_ok c db"
  shows "slots_ok c db'"
proof -
  from assms(1) obtain P x g where
    db': "db' = db\<lparr>player_states := sql_update (\<lambda>r. s_player r = pid \<and> P r)
                (\<lambda>r. r\<lparr>cairn_last_growth_at := x\<rparr>) (player_states db),
             wish_cairn_slots := raise_slots pid g (wish_cairn_slots db)\<rparr>"
    and g: "(\<forall>i. g i = 0) \<or> (\<exists>a n. g = inc_for (zip (map slot_index (sorted_slots db pid))
            (distribution c pid a n (layers_of db pid))))" by (rule ApplyGrowth_frame)
  from g show ?thesis
  proof
    assume "\<forall>i. g i = 0"
    with db' assms(3) show ?thesis by (simp add: raise_slots_zero slots_ok_def)
  next
    assume "\<exists>a n. g = inc_for (zip (map slot_index (sorted_slots db pid)) (distribution c pid a n (layers_of db pid)))"
    then obtain a n where "g = inc_for (zip (map slot_index (sorted_slots db pid)) (distribution c pid a n (layers_of db pid)))"
      by blast
    with db' have "wish_cairn_slots db' = wish_cairn_slots (grow_by c pid a n db)"
      by (simp add: grow_by_def Let_def layers_of_def)
    with grow_by_slots_ok [OF assms(2,3), of pid a n] show ?thesis by (simp add: slots_ok_def)
  qed
qed

lemma ApplyGrowth_keys:
  assumes "ApplyGrowth c ft now sqlnow pid db = Inr db'"
  shows "keys_ok db' = keys_ok db"
  using assms
proof (rule ApplyGrowth_frame)
  fix P x g
  assume db': "db' = db\<lparr>player_states := sql_update (\<lambda>r. s_player r = pid \<and> P r)
                (\<lambda>r. r\<lparr>cairn_last_growth_at := x\<rparr>) (player_states db),
             wish_cairn_slots := raise_slots pid g (wish_cairn_slots db)\<rparr>"
  have "map (\<lambda>r. (slot_player r, slot_index r)) (raise_slots pid g t) = map (\<lambda>r. (slot_player r, slot_index r)) t"
    for t by (simp add: raise_slots_def)
  then show ?thesis by (simp add: db' keys_ok_def map_key_sql_update)
qed

section \<open>Creating the slots\<close>

lemma slot_of_append:
  "slot_of (db\<lparr>wish_cairn_slots := wish_cairn_slots db @ new\<rparr>) pid i =
   (case slot_of db pid i of None \<Rightarrow> find (\<lambda>r. slot_player r = pid \<and> slot_index r = i) new | Some r \<Rightarrow> Some r)"
proof -
  have "find P (xs @ ys) = (case find P xs of None \<Rightarrow> find P ys | Some r \<Rightarrow> Some r)"
    for P and xs ys :: "slot_row list" by (induction xs) auto
  then show ?thesis by (simp add: slot_of_def)
qed

lemma keys_ok_new_slot:
  assumes "keys_ok db" and "slot_of db pid i = None"
  shows "keys_ok (db\<lparr>wish_cairn_slots := wish_cairn_slots db @ [new_slot pid i s]\<rparr>)"
  using assms by (auto simp: keys_ok_def slot_of_def new_slot_def find_None_iff image_iff)

text \<open>A property kept by each insertion holds of the data base that the loop leaves.\<close>

lemma init_slots_preserve:
  assumes "\<And>db i s. P db \<Longrightarrow> i \<in> set is \<Longrightarrow> slot_of db pid i = None \<Longrightarrow> has_player db pid \<Longrightarrow>
      P (db\<lparr>wish_cairn_slots := wish_cairn_slots db @ [new_slot pid i s]\<rparr>)"
    and "P db"
  shows "P (snd (init_slots ft pid now phase is db))"
  using assms
proof (induction "is" arbitrary: db)
  case (Cons i "is")
  show ?case
  proof (cases "ft (nat i)")
    case True
    then show ?thesis using Cons.prems(2) by (simp add: Let_def)
  next
    case ok: False
    show ?thesis
    proof (cases "slot_of db pid i")
      case None
      then show ?thesis using ok Cons.prems Cons.IH by (simp add: Let_def)
    next
      case (Some r)
      then show ?thesis using ok Cons.prems Cons.IH by simp
    qed
  qed
qed simp

lemma init_slots_keys: "keys_ok db \<Longrightarrow> keys_ok (snd (init_slots ft pid now phase is db))"
  by (rule init_slots_preserve) (rule keys_ok_new_slot)

lemma init_slots_slots_ok:
  "slots_ok c db \<Longrightarrow> 0 \<le> MaxLayers c \<Longrightarrow> slots_ok c (snd (init_slots ft pid now phase is db))"
  by (rule init_slots_preserve) (simp_all add: slots_ok_def new_slot_def)

text \<open>Existing slots are kept as they are, and only the player's slots are added.\<close>

lemma init_slots_extends:
  "\<exists>new. snd (init_slots ft pid now phase is db) = db\<lparr>wish_cairn_slots := wish_cairn_slots db @ new\<rparr> \<and>
    (\<forall>s \<in> set new. slot_player s = pid \<and> slot_index s \<in> set is \<and> layer_count s = 0)"
proof (rule init_slots_preserve)
  show "\<exists>new. db = db\<lparr>wish_cairn_slots := wish_cairn_slots db @ new\<rparr> \<and>
      (\<forall>s \<in> set new. slot_player s = pid \<and> slot_index s \<in> set is \<and> layer_count s = 0)"
    by (rule exI [of _ "[]"]) simp
next
  fix d i s
  assume "\<exists>new. d = db\<lparr>wish_cairn_slots := wish_cairn_slots db @ new\<rparr> \<and>
      (\<forall>s \<in> set new. slot_player s = pid \<and> slot_index s \<in> set is \<and> layer_count s = 0)" and i: "i \<in> set is"
  then obtain new where new: "d = db\<lparr>wish_cairn_slots := wish_cairn_slots db @ new\<rparr>"
    "\<forall>s \<in> set new. slot_player s = pid \<and> slot_index s \<in> set is \<and> layer_count s = 0" by blast
  show "\<exists>new. d\<lparr>wish_cairn_slots := wish_cairn_slots d @ [new_slot pid i s]\<rparr> =
      db\<lparr>wish_cairn_slots := wish_cairn_slots db @ new\<rparr> \<and>
      (\<forall>s \<in> set new. slot_player s = pid \<and> slot_index s \<in> set is \<and> layer_count s = 0)"
    by (rule exI [of _ "new @ [new_slot pid i s]"]) (use new i in \<open>simp add: new_slot_def\<close>)
qed

lemma slot_of_mono:
  assumes "slot_of db pid i \<noteq> None"
  shows "slot_of (snd (init_slots ft pid now phase is db)) pid i = slot_of db pid i"
proof -
  obtain new where "snd (init_slots ft pid now phase is db) = db\<lparr>wish_cairn_slots := wish_cairn_slots db @ new\<rparr>"
    using init_slots_extends [of ft pid now phase "is" db] by blast
  then show ?thesis using assms by (cases "slot_of db pid i") (simp_all add: slot_of_append)
qed

lemma slot_of_new: "slot_of (db\<lparr>wish_cairn_slots := wish_cairn_slots db @ [new_slot pid i s]\<rparr>) pid i \<noteq> None"
  by (cases "slot_of db pid i") (simp_all add: slot_of_append, simp_all add: new_slot_def)

lemma init_slots_complete:
  assumes "fst (init_slots ft pid now phase is db) = Inr ()" and "i \<in> set is"
  shows "slot_of (snd (init_slots ft pid now phase is db)) pid i \<noteq> None"
  using assms
proof (induction "is" arbitrary: db)
  case (Cons j "is")
  let ?d = "if slot_of db pid j \<noteq> None then db
    else db\<lparr>wish_cairn_slots := wish_cairn_slots db @ [new_slot pid j (unix (now + wrap64 (- j * phase)))]\<rparr>"
  have rec: "init_slots ft pid now phase (j # is) db = init_slots ft pid now phase is ?d"
    using Cons.prems(1) by (simp add: Let_def split: if_splits)
  have j: "slot_of ?d pid j \<noteq> None"
    using slot_of_new [of db pid j "unix (now + wrap64 (- j * phase))"]
    by (cases "slot_of db pid j") simp_all
  show ?case
  proof (cases "i \<in> set is")
    case True
    then show ?thesis using Cons.IH [of ?d] Cons.prems(1) unfolding rec by blast
  next
    case False
    then have "i = j" using Cons.prems(2) by simp
    then show ?thesis unfolding rec using slot_of_mono [OF j] j by metis
  qed
qed simp

lemma init_slots_succeeds:
  assumes "\<And>k. \<not> ft k" and "has_player db pid"
  shows "fst (init_slots ft pid now phase is db) = Inr ()"
  using assms(2) by (induction "is" arbitrary: db) (simp_all add: assms(1) Let_def has_player_def)

lemma init_slots_no_op:
  assumes "\<And>k. \<not> ft k" and "\<And>i. i \<in> set is \<Longrightarrow> slot_of db pid i \<noteq> None"
  shows "init_slots ft pid now phase is db = (Inr (), db)"
  using assms(2) by (induction "is") (simp_all add: assms(1))

section \<open>Properties of the slots\<close>

text \<open>A player with two slots, one step behind, used to run the model.\<close>

definition demo_cairn :: cairn_config where
  "demo_cairn = \<lparr>SlotCount = 2, MaxLayers = 5, SpawnIntervalSeconds = 30\<rparr>"

definition demo_state :: state_row where
  "demo_state = \<lparr>s_player = ''p'', enlightenment_pts = Fin 40, time_stone_count = 0, streak_days = 1,
     last_login_date = Some 0, next_gacha_at = None, enlightenment_rate = Fin 1,
     last_sync_at = Some 100, cairn_last_growth_at = Some (Stamp 100),
     updated_at = 0\<rparr>"

definition demo_db :: database where
  "demo_db = empty_db\<lparr>
     players := [\<lparr>p_id = ''p'', steam_id = ''s'', created_at = 0, last_login = None\<rparr>],
     player_states := [demo_state],
     wish_cairn_slots := [new_slot ''p'' 0 100, new_slot ''p'' 1 70]\<rparr>"

lemma demo_keys: "keys_ok demo_db"
  by (simp add: keys_ok_def demo_db_def empty_db_def new_slot_def)

lemma demo_slots: "slots_ok demo_cairn demo_db"
  by (simp add: slots_ok_def demo_db_def demo_cairn_def new_slot_def)

lemma demo_state_of: "state_of demo_db ''p'' = Some demo_state"
  by (simp add: state_of_def demo_db_def demo_state_def)

lemma demo_sorted: "sorted_slots demo_db ''p'' = [new_slot ''p'' 0 100, new_slot ''p'' 1 70]"
  by (simp add: sorted_slots_def slots_of_def demo_db_def new_slot_def)

text \<open>
  C15. A growth never overfills a slot. Whatever the clock, the anchor and the data base faults,
  \<open>ApplyGrowthTx\<close> keeps every stored layer count between 0 and the configured maximum, keeps the
  keys, and leaves the data base as it was when it reports an error.
\<close>

theorem growth_within_capacity:
  assumes "keys_ok db" and "slots_ok c db"
    and "ApplyGrowthTx c txft ft now sqlnow pid db = (r, db')"
  shows "keys_ok db' \<and> slots_ok c db' \<and> (r \<noteq> Inr () \<longrightarrow> db' = db)"
proof (cases "txft 0 \<or> txft 1 \<or> (\<exists>e. ApplyGrowth c ft now sqlnow pid db = Inl e)")
  case True
  with assms show ?thesis by (auto simp: ApplyGrowthTx_def split: sum.splits if_splits)
next
  case False
  then obtain d where d: "ApplyGrowth c ft now sqlnow pid db = Inr d"
    by (cases "ApplyGrowth c ft now sqlnow pid db") auto
  with False assms(3) have "db' = d" and "r = Inr ()" by (auto simp: ApplyGrowthTx_def)
  with ApplyGrowth_keys [OF d] ApplyGrowth_slots_ok [OF d assms(1,2)] assms(1) show ?thesis by simp
qed

theorem growth_within_capacity_witness:
  "slots_ok demo_cairn (snd (ApplyGrowthTx demo_cairn (\<lambda>_. False) (\<lambda>_. False) (200 * second) 200 ''p'' demo_db))"
  using growth_within_capacity [OF demo_keys demo_slots prod.collapse [symmetric]] by blast

text \<open>
  A growth adds exactly one layer per elapsed whole interval, until the slots are full, and
  moves the anchor to the last grid point that is not after the request. The slots that exist
  are at least the configured number; the span fits a \<open>Duration\<close>.
\<close>

theorem growth_one_layer_per_interval:
  assumes "keys_ok db" and "\<And>k. \<not> ft k" and "growth_fits c a now" and "of_unix a \<le> now"
    and "state_of db pid = Some st" and "cairn_last_growth_at st = Some (Stamp a)"
    and "SlotCount c \<le> int (length (slots_of db pid))"
  defines "steps \<equiv> (now - of_unix a) div (SpawnIntervalSeconds c * second)"
  shows "\<exists>db'. ApplyGrowth c ft now sqlnow pid db = Inr db' \<and>
    sum_list (layers_of db' pid) = sum_list (layers_of db pid) +
      min steps (int (\<Sum>l \<leftarrow> layers_of db pid. nat (MaxLayers c - l))) \<and>
    state_of db' pid = Some (st\<lparr>cairn_last_growth_at := Some (Stamp (a + steps * SpawnIntervalSeconds c))\<rparr>) \<and>
    of_unix (a + steps * SpawnIntervalSeconds c) \<le> now \<and>
    now < of_unix (a + (steps + 1) * SpawnIntervalSeconds c)"
proof -
  let ?I = "SpawnIntervalSeconds c * second"
  have I: "0 < ?I" using assms(3) by (simp add: growth_fits_def)
  have steps: "growth_steps c a now = steps" unfolding steps_def using assms(3,4) by (rule growth_steps_eq)
  have nonneg: "0 \<le> steps" unfolding steps_def using assms(4) I by (simp add: pos_imp_zdiv_nonneg_iff)
  have full: "\<not> int (length (sorted_slots db pid)) < SlotCount c"
    using assms(7) by (simp add: sorted_slots_def)
  have "ApplyGrowth c ft now sqlnow pid db = Inr (if steps \<le> 0 then db else grow_by c pid a (nat steps) db)"
    using ApplyGrowth_steps [OF assms(1,2,3,5,6)] full unfolding steps by simp
  moreover have "sum_list (layers_of (if steps \<le> 0 then db else grow_by c pid a (nat steps) db) pid) =
      sum_list (layers_of db pid) + min steps (int (\<Sum>l \<leftarrow> layers_of db pid. nat (MaxLayers c - l)))"
  proof (cases "steps = 0")
    case True
    then show ?thesis by simp
  next
    case False
    let ?d = "distribution c pid a (nat steps) (layers_of db pid)"
    have "layers_of (grow_by c pid a (nat steps) db) pid = map2 (+) (layers_of db pid) ?d"
      unfolding layers_of_def using assms(1) by (rule layers_grow_by)
    moreover have "int (min (nat steps) m) = min steps (int m)" for m using nonneg by simp
    moreover have "\<not> steps \<le> 0" using False nonneg by simp
    ultimately show ?thesis by (simp only: sum_list_map2_add distribution_length distribution_total if_False)
  qed
  moreover have "state_of (if steps \<le> 0 then db else grow_by c pid a (nat steps) db) pid =
      Some (st\<lparr>cairn_last_growth_at := Some (Stamp (a + steps * SpawnIntervalSeconds c))\<rparr>)"
    using nonneg assms(5,6) by (simp add: state_grow_by)
  moreover have "of_unix (a + steps * SpawnIntervalSeconds c) \<le> now \<and>
      now < of_unix (a + (steps + 1) * SpawnIntervalSeconds c)"
    using minus_mod_eq_div_mult [of "now - of_unix a" ?I] pos_mod_bound [OF I, of "now - of_unix a"]
      pos_mod_sign [OF I, of "now - of_unix a"]
    unfolding steps_def [symmetric] by (simp add: of_unix_def algebra_simps)
  ultimately show ?thesis by blast
qed

theorem growth_one_layer_per_interval_witness:
  "\<exists>db'. ApplyGrowth demo_cairn (\<lambda>_. False) (200 * second) 200 ''p'' demo_db = Inr db' \<and>
     sum_list (layers_of db' ''p'') = 3 \<and>
     map_option cairn_last_growth_at (state_of db' ''p'') = Some (Some (Stamp 190))"
proof -
  have s: "SlotCount demo_cairn \<le> int (length (slots_of demo_db ''p''))"
    by (simp add: demo_cairn_def slots_of_def demo_db_def new_slot_def)
  have l: "layers_of demo_db ''p'' = [0, 0]" by (simp add: layers_of_def demo_sorted new_slot_def)
  have f: "growth_fits demo_cairn 100 (200 * second)"
    by (simp add: growth_fits_def demo_cairn_def of_unix_def second_def)
  have o: "of_unix 100 \<le> 200 * second" by (simp add: of_unix_def second_def)
  have d: "(200 * second - of_unix 100) div (SpawnIntervalSeconds demo_cairn * second) = 3"
    by (simp add: of_unix_def second_def demo_cairn_def)
  have a: "cairn_last_growth_at demo_state = Some (Stamp 100)" by (simp add: demo_state_def)
  have nf: "\<And>k. \<not> (\<lambda>_. False) (k :: nat)" by simp
  from growth_one_layer_per_interval [OF demo_keys nf f o demo_state_of a s, of 200]
  show ?thesis unfolding d l by (auto simp: demo_cairn_def)
qed

text \<open>
  C14. The growth does not depend on how often it is asked for: a request at \<open>t1\<close> followed by one
  at \<open>t2\<close> leaves exactly the data base that the request at \<open>t2\<close> alone leaves, slot by slot, as
  the code's comment on the deterministic seed promises. (One more interval must fit a
  \<open>Duration\<close>.)
\<close>

theorem growth_path_independent:
  assumes "keys_ok db" and "\<And>k. \<not> ft k" and "t1 \<le> t2"
    and "growth_fits c a (t2 + SpawnIntervalSeconds c * second)"
    and "state_of db pid = Some st" and "cairn_last_growth_at st = Some (Stamp a)"
  shows "bindE (ApplyGrowth c ft t1 s1 pid db) (ApplyGrowth c ft t2 s2 pid) = ApplyGrowth c ft t2 s2 pid db"
proof -
  let ?I = "SpawnIntervalSeconds c * second" and ?n = "growth_steps c a t1" and ?N = "growth_steps c a t2"
  let ?few = "int (length (sorted_slots db pid)) < SlotCount c"
  have I: "0 < ?I" and spawn: "0 < SpawnIntervalSeconds c" "growth_interval c = ?I"
    using assms(4) by (simp_all add: growth_fits_def growth_interval_eq)
  have f2: "growth_fits c a t2" and f1: "growth_fits c a t1"
    using assms(3,4) I unfolding growth_fits_def by linarith+
  note run = ApplyGrowth_steps [OF assms(1,2) _ assms(5,6)]
  show ?thesis
  proof (cases "?n \<le> 0 \<or> ?few")
    case True
    then show ?thesis using run [OF f1] by simp
  next
    case False
    let ?a = "a + ?n * SpawnIntervalSeconds c" and ?d = "grow_by c pid a (nat ?n) db"
    have le: "of_unix a \<le> t1" using False growth_steps_early [OF f1] by linarith
    have eqs: "?n = (t1 - of_unix a) div ?I" "?N = (t2 - of_unix a) div ?I"
      using growth_steps_eq [OF f1 le] growth_steps_eq [OF f2] le assms(3) by simp_all
    have mono: "?n \<le> ?N" unfolding eqs using assms(3) I by (intro zdiv_mono1) simp_all
    have base: "of_unix ?a = of_unix a + ?n * ?I" by (simp add: of_unix_def algebra_simps)
    have "?n * ?I \<le> t1 - of_unix a" using growth_steps_span [OF f1] False by simp
    then have le': "of_unix ?a \<le> t2" using assms(3) unfolding base by linarith
    have "0 \<le> ?n * ?I" using False I by simp
    then have f': "growth_fits c ?a t2" using f2 unfolding growth_fits_def base by linarith
    have steps: "growth_steps c ?a t2 = ?N - ?n"
    proof -
      have "t2 - of_unix ?a = (t2 - of_unix a) + (- ?n) * ?I" unfolding base by simp
      then have "(t2 - of_unix ?a) div ?I = (t2 - of_unix a) div ?I + (- ?n)"
        using I by (simp only: div_mult_self1)
      then show ?thesis unfolding growth_steps_eq [OF f' le'] eqs(2) by linarith
    qed
    have "state_of ?d pid = Some (st\<lparr>cairn_last_growth_at := Some (Stamp ?a)\<rparr>)"
      using False assms(5) by (simp add: state_grow_by)
    moreover have "keys_ok ?d" using assms(1) by (simp add: grow_by_keys)
    moreover have few: "int (length (sorted_slots ?d pid)) < SlotCount c \<longleftrightarrow> ?few"
      by (simp add: sorted_slots_grow_by Let_def)
    ultimately have "ApplyGrowth c ft t2 s2 pid ?d =
        Inr (if ?N - ?n \<le> 0 then ?d else grow_by c pid ?a (nat (?N - ?n)) ?d)"
      using ApplyGrowth_steps [of ?d ft c ?a t2 pid _ s2, OF _ assms(2) f'] False unfolding steps few by simp
    moreover have "grow_by c pid ?a (nat (?N - ?n)) ?d = grow_by c pid a (nat ?N) db"
    proof -
      have "?N * ?I \<le> t2 - of_unix a" using growth_steps_span [OF f2] False mono by simp
      then have fits: "(int (nat ?n) + int (nat (?N - ?n)) + 1) * ?I < 2 ^ 63"
        using assms(4) False mono by (simp add: growth_fits_def algebra_simps)
      have "nat ?n + nat (?N - ?n) = nat ?N"
        using False mono nat_add_distrib [of ?n "?N - ?n"] by simp
      with grow_by_add [OF assms(1) spawn(2) _ fits, of pid a] show ?thesis using False spawn(1) by simp
    qed
    ultimately show ?thesis using run [OF f1] run [OF f2] False mono by auto
  qed
qed

theorem growth_path_independent_witness:
  "bindE (ApplyGrowth demo_cairn (\<lambda>_. False) (150 * second) 150 ''p'' demo_db)
     (ApplyGrowth demo_cairn (\<lambda>_. False) (200 * second) 200 ''p'') =
   ApplyGrowth demo_cairn (\<lambda>_. False) (200 * second) 200 ''p'' demo_db"
proof (rule growth_path_independent [OF demo_keys _ _ _ demo_state_of, where a = 100])
  show "growth_fits demo_cairn 100 (200 * second + SpawnIntervalSeconds demo_cairn * second)"
    by (simp add: growth_fits_def demo_cairn_def of_unix_def second_def)
qed (simp_all add: second_def demo_state_def)

text \<open>
  C6. Two requests that read the same anchor pay one growth: once the first plan is committed,
  the compare-and-set of the second one finds no row, and the second request changes nothing.
\<close>

theorem growth_not_paid_twice:
  assumes "plan_growth c ft1 now1 pid db = Inr (Grow p1)" and "plan_growth c ft2 now2 pid db = Inr (Grow p2)"
    and "keys_ok db" and "growth_fits c a now1"
    and "state_of db pid = Some st" and "cairn_last_growth_at st = Some (Stamp a)"
    and "commit_growth ft1 s1 pid (Grow p1) db = Inr db1"
  shows "commit_growth ft2 s2 pid (Grow p2) db1 = (if ft2 2 then Inl (Sql DbError) else Inr db1) \<and>
    (\<exists>st1. state_of db1 pid = Some st1 \<and> cairn_last_growth_at st1 = Some (Stamp (newAnchor p1)))"
proof -
  from assms(1) have p1: "rawAnchor p1 = Stamp a" and new: "a < newAnchor p1"
  proof -
    from assms(1) obtain st' a' where *: "state_of db pid = Some st'" "cairn_last_growth_at st' = Some (Stamp a')"
      "0 < growth_steps c a' now1" "rawAnchor p1 = Stamp a'"
      "newAnchor p1 = unix (of_unix a' + wrap64 (growth_steps c a' now1 * growth_interval c))"
      by (rule plan_growth_GrowD) simp
    then have "a' = a" using assms(5,6) by simp
    with * show "rawAnchor p1 = Stamp a" by simp
    have "0 < growth_steps c a now1 * SpawnIntervalSeconds c"
      using * \<open>a' = a\<close> assms(4) by (simp add: growth_fits_def)
    then show "a < newAnchor p1" using * \<open>a' = a\<close> new_anchor_eq [OF assms(4)] by simp
  qed
  from assms(2) obtain st2 a2 where "state_of db pid = Some st2" "cairn_last_growth_at st2 = Some (Stamp a2)"
    "rawAnchor p2 = Stamp a2" by (rule plan_growth_GrowD) simp
  then have p2: "rawAnchor p2 = Stamp a" using assms(5,6) by simp
  let ?P = "\<lambda>r. s_player r = pid \<and> cairn_last_growth_at r = Some (Stamp a)"
  let ?f = "\<lambda>r. r\<lparr>cairn_last_growth_at := Some (Stamp (newAnchor p1))\<rparr>"
  have hit: "sql_affected ?P (player_states db) \<noteq> 0"
    using state_ofD [OF assms(5)] assms(6) by (auto simp: sql_affected_0_iff)
  with assms(7) obtain t where db1: "db1 = db\<lparr>player_states := sql_update ?P ?f (player_states db), wish_cairn_slots := t\<rparr>"
    by (auto simp: commit_growth_def p1 Let_def run_simps split: if_splits)
  have "\<not> ?P (if ?P x then ?f x else x)" for x using new by simp
  then have "sql_affected ?P (sql_update ?P ?f ts) = 0" for ts
    unfolding sql_affected_0_iff sql_update_def set_map ball_simps by blast
  then have "sql_affected ?P (player_states db1) = 0" by (simp add: db1)
  moreover have "state_of db1 pid = Some (?f st)"
    using find_sql_update_key [of s_player ?f pid ?P "player_states db"] assms(5,6) state_ofD [OF assms(5)]
    by (simp add: db1 state_of_def)
  ultimately show ?thesis by (simp add: commit_growth_def p2 Let_def)
qed

theorem growth_not_paid_twice_witness:
  "\<exists>p1 p2 db1. plan_growth demo_cairn (\<lambda>_. False) (150 * second) ''p'' demo_db = Inr (Grow p1) \<and>
     plan_growth demo_cairn (\<lambda>_. False) (200 * second) ''p'' demo_db = Inr (Grow p2) \<and>
     commit_growth (\<lambda>_. False) 150 ''p'' (Grow p1) demo_db = Inr db1 \<and>
     commit_growth (\<lambda>_. False) 200 ''p'' (Grow p2) db1 = Inr db1 \<and> p1 \<noteq> p2"
proof -
  let ?P = "\<lambda>n new. \<lparr>rawAnchor = Stamp 100, newAnchor = new,
    increments = zip [0, 1] (distribution demo_cairn ''p'' 100 n [0, 0])\<rparr>"
  have i: "growth_interval demo_cairn = 30 * second"
    by (simp add: growth_interval_def demo_cairn_def second_def wrap64_id)
  have s1: "growth_steps demo_cairn 100 (150 * second) = 1" and s2: "growth_steps demo_cairn 100 (200 * second) = 3"
    by (simp_all add: growth_steps_def i time_sub_def of_unix_def second_def sdiv_nonneg)
  have a: "cairn_last_growth_at demo_state = Some (Stamp 100)" by (simp add: demo_state_def)
  have u: "unix (of_unix 100 + wrap64 (30 * second)) = 130" "unix (of_unix 100 + wrap64 (90 * second)) = 190"
    by (simp_all add: unix_def of_unix_def second_def wrap64_id)
  have ends: "length (sorted_slots demo_db ''p'') = 2" "SlotCount demo_cairn = 2"
    "map slot_index (sorted_slots demo_db ''p'') = [0, 1]" "map layer_count (sorted_slots demo_db ''p'') = [0, 0]"
    by (simp_all add: demo_sorted demo_cairn_def new_slot_def)
  have p1: "plan_growth demo_cairn (\<lambda>_. False) (150 * second) ''p'' demo_db = Inr (Grow (?P 1 130))"
    and p2: "plan_growth demo_cairn (\<lambda>_. False) (200 * second) ''p'' demo_db = Inr (Grow (?P 3 190))"
    using u by (simp_all add: plan_growth_def demo_state_of a i s1 s2 ends not_le)
  have hit: "sql_affected (\<lambda>r. s_player r = ''p'' \<and> cairn_last_growth_at r = Some (Stamp 100)) (player_states demo_db) \<noteq> 0"
    using state_ofD [OF demo_state_of] a by (auto simp: sql_affected_0_iff)
  obtain t where "apply_increments (\<lambda>_. False) 3 ''p'' (increments (?P 1 130)) (wish_cairn_slots demo_db) = Inr t"
    using apply_increments_ok [of "\<lambda>_. False"] by blast
  with hit obtain db1 where c: "commit_growth (\<lambda>_. False) 150 ''p'' (Grow (?P 1 130)) demo_db = Inr db1"
    by (simp add: commit_growth_def)
  have f: "growth_fits demo_cairn 100 (150 * second)"
    by (simp add: growth_fits_def demo_cairn_def of_unix_def second_def)
  from growth_not_paid_twice [OF p1 p2 demo_keys f demo_state_of a c, of 200] p1 p2 c
  show ?thesis by (intro exI [of _ "?P 1 130"] exI [of _ "?P 3 190"] exI [of _ db1]) simp
qed

text \<open>
  C16. \<open>InitializeSlots\<close> keeps the slots that exist, in whatever state and on whatever outcome; when
  it succeeds every configured index has a slot, and calling it again changes nothing.
\<close>

theorem InitializeSlots_complete:
  assumes "InitializeSlots c ft pid now db = (r, db')"
  shows "(\<forall>q i s. slot_of db q i = Some s \<longrightarrow> slot_of db' q i = Some s) \<and>
    (keys_ok db \<longrightarrow> keys_ok db') \<and>
    (r = Inr () \<longrightarrow>
       (\<forall>i. 0 \<le> i \<and> i < SlotCount c \<longrightarrow> slot_of db' pid i \<noteq> None) \<and>
       InitializeSlots c (\<lambda>_. False) pid now' db' = (Inr (), db'))"
proof (cases "PhaseOffset c")
  case None
  with assms show ?thesis by (auto simp: InitializeSlots_def)
next
  case (Some phase)
  let ?is = "[0..SlotCount c - 1]"
  have db': "db' = snd (init_slots ft pid now phase ?is db)"
    and r: "r = lift_sql (fst (init_slots ft pid now phase ?is db))"
    using assms Some by (auto simp: InitializeSlots_def split: prod.splits)
  obtain new where "db' = db\<lparr>wish_cairn_slots := wish_cairn_slots db @ new\<rparr>"
    using init_slots_extends unfolding db' by blast
  then have keep: "slot_of db q i = Some s \<Longrightarrow> slot_of db' q i = Some s" for q i s
    by (simp add: slot_of_append)
  have all: "slot_of db' pid i \<noteq> None" if "r = Inr ()" "i \<in> set ?is" for i
    using that init_slots_complete [of ft pid now phase ?is db i] unfolding db' r lift_sql_eq_Inr by blast
  have again: "InitializeSlots c (\<lambda>_. False) pid now' db' = (Inr (), db')" if "r = Inr ()"
    using all [OF that] init_slots_no_op [of "\<lambda>_. False" ?is db' pid now' phase] Some
    by (simp add: InitializeSlots_def)
  have keys: "keys_ok db \<Longrightarrow> keys_ok db'" unfolding db' by (rule init_slots_keys)
  show ?thesis
    by (intro conjI impI allI) (simp_all add: keep keys all again)
qed

theorem InitializeSlots_complete_witness:
  "(let bare = demo_db\<lparr>wish_cairn_slots := [new_slot ''p'' 1 70]\<rparr>;
        res = InitializeSlots demo_cairn (\<lambda>_. False) ''p'' (200 * second) bare
    in fst res = Inr () \<and> slot_of (snd res) ''p'' 0 \<noteq> None \<and>
       slot_of (snd res) ''p'' 1 = Some (new_slot ''p'' 1 70))"
proof -
  let ?bare = "demo_db\<lparr>wish_cairn_slots := [new_slot ''p'' 1 70]\<rparr>"
  let ?res = "InitializeSlots demo_cairn (\<lambda>_. False) ''p'' (200 * second) ?bare"
  have "has_player ?bare ''p''" by (simp add: has_player_def demo_db_def)
  moreover have "PhaseOffset demo_cairn = Some (wrap64 (wrap64 (wrap64 150 sdiv 2) * second))"
    by (simp add: PhaseOffset_def demo_cairn_def)
  ultimately have "fst ?res = Inr ()"
    using init_slots_succeeds [of "\<lambda>_. False" ?bare "''p''"]
    by (simp add: InitializeSlots_def split_beta)
  moreover have "slot_of ?bare ''p'' 1 = Some (new_slot ''p'' 1 70)" by (simp add: slot_of_def new_slot_def)
  moreover have "SlotCount demo_cairn = 2" by (simp add: demo_cairn_def)
  ultimately show ?thesis
    using InitializeSlots_complete [OF prod.collapse [of ?res, symmetric]]
    unfolding Let_def by simp
qed

end
