(* ===== verification/GameConfig.thy ===== *)
theory GameConfig
  imports SkinPool Cairn
begin

text \<open>
  The game balance file (\<open>pkg/gameconfig/gameconfig.go\<close>): the check for missing keys, the tiers of
  the vow, and the range checks. The decoding of the XML text by \<open>encoding/xml\<close> is the parameter
  \<open>unmarshal\<close>, whose result holds \<open>None\<close> for a key that the file lacks. \<open>Load\<close> is shown to accept
  exactly the documents that the declarative \<open>config_ok\<close> describes.
\<close>

section \<open>The data\<close>

record vow_tier =
  TargetRarity :: string
  MinNPower :: f64
  MaxNPower :: f64
  MinSuccessRate :: f64
  MaxSuccessRate :: f64

record game_config =
  Version :: int
  gc_PullCost :: f64
  CooldownSeconds :: int
  gc_SlotCount :: int
  gc_MaxLayers :: int
  gc_SpawnIntervalSeconds :: int
  VowRequiredItemCount :: int
  VowTiers :: "vow_tier list"

record xml_tier =
  xt_TargetRarity :: string
  xt_MinNPower :: "f64 option"
  xt_MaxNPower :: "f64 option"
  xt_MinSuccessRate :: "f64 option"
  xt_MaxSuccessRate :: "f64 option"

record xml_config =
  x_Version :: "int option"
  x_PullCost :: "f64 option"
  x_CooldownSeconds :: "int option"
  x_SlotCount :: "int option"
  x_MaxLayers :: "int option"
  x_SpawnIntervalSeconds :: "int option"
  x_RequiredItemCount :: "int option"
  x_Tiers :: "xml_tier list"

text \<open>One constructor per error of the package.\<close>

datatype config_error =
  ReadFailed | ParseFailed | MissingKeys "string list"
  | NoTiers | BadTargetRarity string | DuplicateTier string | TierKeysMissing string
  | TierNotFinite string string | TierPowerNegative string | TierPowerOrder string
  | TierRateRange string | TierRateOrder string
  | PullCostNotFinite | PullCostNotPositive | CooldownNotPositive | CooldownNotMinutes
  | SlotCountNotPositive | MaxLayersNotPositive | IntervalNotPositive | PhaseNotExact
  | SlotCountTooLarge | MaxLayersTooLarge | IntervalTooLarge | CooldownTooLarge | ItemCountNotPositive

section \<open>The tiers\<close>

definition validVowRarities :: "string \<Rightarrow> bool" where
  "validVowRarities r \<longleftrightarrow> r = ''uncommon'' \<or> r = ''rare'' \<or> r = ''unique'' \<or> r = ''legendary''"

definition not_finite :: "f64 \<Rightarrow> bool" where
  "not_finite v \<longleftrightarrow> is_nan v \<or> is_inf v"

definition validate_tier :: "vow_tier \<Rightarrow> config_error + unit" where
  "validate_tier t =
     (case find (\<lambda>(_, v). not_finite v)
        [(''minNPower'', MinNPower t), (''maxNPower'', MaxNPower t),
         (''minSuccessRate'', MinSuccessRate t), (''maxSuccessRate'', MaxSuccessRate t)] of
        Some (name, _) \<Rightarrow> Inl (TierNotFinite (TargetRarity t) name)
      | None \<Rightarrow>
          if flt (MinNPower t) (Fin 0) then Inl (TierPowerNegative (TargetRarity t))
          else if fle (MaxNPower t) (MinNPower t) then Inl (TierPowerOrder (TargetRarity t))
          else if flt (MinSuccessRate t) (Fin 0) \<or> flt (Fin 100) (MinSuccessRate t) \<or>
                  flt (MaxSuccessRate t) (Fin 0) \<or> flt (Fin 100) (MaxSuccessRate t)
          then Inl (TierRateRange (TargetRarity t))
          else if flt (MaxSuccessRate t) (MinSuccessRate t) then Inl (TierRateOrder (TargetRarity t))
          else Inr ())"

text \<open>
  The loop of \<open>buildVowTiers\<close>, in document order, with the rarities seen so far. \<open>uni\<close> is the lower
  case of the characters outside ASCII.
\<close>

primrec tier_loop ::
  "(string \<Rightarrow> string) \<Rightarrow> xml_tier list \<Rightarrow> string list \<Rightarrow> vow_tier list \<Rightarrow> config_error + vow_tier list" where
  "tier_loop uni [] seen tiers = Inr tiers"
| "tier_loop uni (t # raw) seen tiers =
     (let r = ToLower uni (TrimSpace (xt_TargetRarity t))
      in if \<not> validVowRarities r then Inl (BadTargetRarity (xt_TargetRarity t))
         else if r \<in> set seen then Inl (DuplicateTier r)
         else (case (xt_MinNPower t, xt_MaxNPower t, xt_MinSuccessRate t, xt_MaxSuccessRate t) of
                 (Some a, Some b, Some c, Some d) \<Rightarrow>
                   let tier = \<lparr>TargetRarity = r, MinNPower = a, MaxNPower = b,
                         MinSuccessRate = c, MaxSuccessRate = d\<rparr>
                   in bindE (validate_tier tier) (\<lambda>_. tier_loop uni raw (r # seen) (tiers @ [tier]))
               | _ \<Rightarrow> Inl (TierKeysMissing r)))"

definition buildVowTiers :: "(string \<Rightarrow> string) \<Rightarrow> xml_tier list \<Rightarrow> config_error + vow_tier list" where
  "buildVowTiers uni raw = (if raw = [] then Inl NoTiers else tier_loop uni raw [] [])"

section \<open>The range checks\<close>

definition maxSlotCount :: int where "maxSlotCount = 50"
definition maxMaxLayers :: int where "maxMaxLayers = 100"
definition maxSpawnIntervalSeconds :: int where "maxSpawnIntervalSeconds = 86400"
definition maxCooldownSeconds :: int where "maxCooldownSeconds = 604800"

lemmas bounds_defs = maxSlotCount_def maxMaxLayers_def maxSpawnIntervalSeconds_def maxCooldownSeconds_def

definition validate_config :: "game_config \<Rightarrow> config_error + unit" where
  "validate_config c =
     (if is_nan (gc_PullCost c) \<or> is_inf (gc_PullCost c) then Inl PullCostNotFinite
      else if fle (gc_PullCost c) (Fin 0) then Inl PullCostNotPositive
      else if CooldownSeconds c \<le> 0 then Inl CooldownNotPositive
      else if CooldownSeconds c smod 60 \<noteq> 0 then Inl CooldownNotMinutes
      else if gc_SlotCount c \<le> 0 then Inl SlotCountNotPositive
      else if gc_MaxLayers c \<le> 0 then Inl MaxLayersNotPositive
      else if gc_SpawnIntervalSeconds c \<le> 0 then Inl IntervalNotPositive
      else if wrap64 (gc_SpawnIntervalSeconds c * gc_MaxLayers c) smod gc_SlotCount c \<noteq> 0 then Inl PhaseNotExact
      else if gc_SlotCount c > maxSlotCount then Inl SlotCountTooLarge
      else if gc_MaxLayers c > maxMaxLayers then Inl MaxLayersTooLarge
      else if gc_SpawnIntervalSeconds c > maxSpawnIntervalSeconds then Inl IntervalTooLarge
      else if CooldownSeconds c > maxCooldownSeconds then Inl CooldownTooLarge
      else if VowRequiredItemCount c \<le> 0 then Inl ItemCountNotPositive
      else Inr ())"

definition missing_keys :: "xml_config \<Rightarrow> string list" where
  "missing_keys x =
     (if x_Version x = None then [''version''] else []) @
     (if x_PullCost x = None then [''gacha.pullCost''] else []) @
     (if x_CooldownSeconds x = None then [''gacha.cooldownSeconds''] else []) @
     (if x_SlotCount x = None then [''cairn.slotCount''] else []) @
     (if x_MaxLayers x = None then [''cairn.maxLayers''] else []) @
     (if x_SpawnIntervalSeconds x = None then [''cairn.spawnIntervalSeconds''] else []) @
     (if x_RequiredItemCount x = None then [''vow.requiredItemCount''] else [])"

definition Load ::
  "(string \<Rightarrow> xml_config option) \<Rightarrow> (string \<Rightarrow> string) \<Rightarrow> string option \<Rightarrow> config_error + game_config" where
  "Load unmarshal uni file =
     (case file of
        None \<Rightarrow> Inl ReadFailed
      | Some data \<Rightarrow>
          (case unmarshal data of
             None \<Rightarrow> Inl ParseFailed
           | Some x \<Rightarrow>
               if missing_keys x \<noteq> [] then Inl (MissingKeys (missing_keys x))
               else bindE (buildVowTiers uni (x_Tiers x)) (\<lambda>tiers.
                 let cfg = \<lparr>Version = the (x_Version x), gc_PullCost = the (x_PullCost x),
                       CooldownSeconds = the (x_CooldownSeconds x), gc_SlotCount = the (x_SlotCount x),
                       gc_MaxLayers = the (x_MaxLayers x), gc_SpawnIntervalSeconds = the (x_SpawnIntervalSeconds x),
                       VowRequiredItemCount = the (x_RequiredItemCount x), VowTiers = tiers\<rparr>
                 in bindE (validate_config cfg) (\<lambda>_. Inr cfg))))"

section \<open>What the checks accept\<close>

text \<open>The declarative description of a good tier and of a good configuration.\<close>

definition tier_ok :: "vow_tier \<Rightarrow> bool" where
  "tier_ok t \<longleftrightarrow> validVowRarities (TargetRarity t) \<and>
     (\<exists>a b c d. MinNPower t = Fin a \<and> MaxNPower t = Fin b \<and> MinSuccessRate t = Fin c \<and> MaxSuccessRate t = Fin d \<and>
        0 \<le> a \<and> a < b \<and> 0 \<le> c \<and> c \<le> d \<and> d \<le> 100)"

definition ranges_ok :: "game_config \<Rightarrow> bool" where
  "ranges_ok c \<longleftrightarrow>
     (\<exists>p. gc_PullCost c = Fin p \<and> 0 < p) \<and>
     0 < CooldownSeconds c \<and> CooldownSeconds c \<le> 604800 \<and> 60 dvd CooldownSeconds c \<and>
     0 < gc_SlotCount c \<and> gc_SlotCount c \<le> 50 \<and>
     0 < gc_MaxLayers c \<and> gc_MaxLayers c \<le> 100 \<and>
     0 < gc_SpawnIntervalSeconds c \<and> gc_SpawnIntervalSeconds c \<le> 86400 \<and>
     gc_SlotCount c dvd gc_SpawnIntervalSeconds c * gc_MaxLayers c \<and>
     0 < VowRequiredItemCount c"

definition config_ok :: "game_config \<Rightarrow> bool" where
  "config_ok c \<longleftrightarrow> ranges_ok c \<and> VowTiers c \<noteq> [] \<and> distinct (map TargetRarity (VowTiers c)) \<and>
     (\<forall>t \<in> set (VowTiers c). tier_ok t)"

lemma validate_tier_eq:
  assumes "validVowRarities (TargetRarity t)"
  shows "validate_tier t = Inr () \<longleftrightarrow> tier_ok t"
  using assms
  by (cases "MinNPower t"; cases "MaxNPower t"; cases "MinSuccessRate t"; cases "MaxSuccessRate t")
    (auto simp: validate_tier_def tier_ok_def not_finite_def is_nan_def is_inf_def not_less not_le)

lemma smod_dvd: "0 < (k :: int) \<Longrightarrow> 0 \<le> n \<Longrightarrow> n smod k = 0 \<longleftrightarrow> k dvd n"
  by (simp add: minus_sdiv_mult_eq_smod [symmetric] sdiv_nonneg minus_div_mult_eq_mod dvd_eq_mod_eq_0)

text \<open>The product of the divisibility check may wrap around, but then a bound rejects the file.\<close>

lemma validate_config_eq: "validate_config c = Inr () \<longleftrightarrow> ranges_ok c"
proof (cases "0 < gc_SlotCount c \<and> 0 < gc_MaxLayers c \<and> gc_MaxLayers c \<le> 100 \<and>
    0 < gc_SpawnIntervalSeconds c \<and> gc_SpawnIntervalSeconds c \<le> 86400")
  case True
  then have p: "0 \<le> gc_SpawnIntervalSeconds c * gc_MaxLayers c" by simp
  have "gc_SpawnIntervalSeconds c * gc_MaxLayers c \<le> 86400 * 100" using True by (intro mult_mono) simp_all
  then have "wrap64 (gc_SpawnIntervalSeconds c * gc_MaxLayers c) = gc_SpawnIntervalSeconds c * gc_MaxLayers c"
    using p by (intro wrap64_id) simp_all
  then have d: "wrap64 (gc_SpawnIntervalSeconds c * gc_MaxLayers c) smod gc_SlotCount c = 0 \<longleftrightarrow>
      gc_SlotCount c dvd gc_SpawnIntervalSeconds c * gc_MaxLayers c"
    using True p by (simp only: smod_dvd)
  have m: "0 < CooldownSeconds c \<Longrightarrow> CooldownSeconds c smod 60 = 0 \<longleftrightarrow> 60 dvd CooldownSeconds c"
    by (rule smod_dvd) simp_all
  show ?thesis
    using True m unfolding validate_config_def if_Inl_eq_Inr d ranges_ok_def bounds_defs
    by (cases "gc_PullCost c") (auto simp: is_nan_def is_inf_def not_le)
next
  case False
  then have "\<not> ranges_ok c" by (auto simp: ranges_ok_def)
  moreover have "validate_config c \<noteq> Inr ()"
    using False unfolding validate_config_def if_Inl_eq_Inr bounds_defs by linarith
  ultimately show ?thesis by blast
qed

text \<open>The tier that an entry of the document stands for.\<close>

definition decoded_tier :: "(string \<Rightarrow> string) \<Rightarrow> xml_tier \<Rightarrow> vow_tier \<Rightarrow> bool" where
  "decoded_tier uni x t \<longleftrightarrow> TargetRarity t = ToLower uni (TrimSpace (xt_TargetRarity x)) \<and>
     xt_MinNPower x = Some (MinNPower t) \<and> xt_MaxNPower x = Some (MaxNPower t) \<and>
     xt_MinSuccessRate x = Some (MinSuccessRate t) \<and> xt_MaxSuccessRate x = Some (MaxSuccessRate t)"

lemma tier_loop_eq:
  "tier_loop uni raw seen tiers = Inr out \<longleftrightarrow>
    (\<exists>new. out = tiers @ new \<and> list_all2 (decoded_tier uni) raw new \<and> (\<forall>t \<in> set new. tier_ok t) \<and>
       distinct (map TargetRarity new) \<and> TargetRarity ` set new \<inter> set seen = {})"
proof (induction raw arbitrary: seen tiers)
  case Nil
  show ?case by auto
next
  case (Cons x raw)
  let ?r = "ToLower uni (TrimSpace (xt_TargetRarity x))"
  let ?ok = "\<lambda>new. out = tiers @ new \<and> list_all2 (decoded_tier uni) (x # raw) new \<and> (\<forall>t \<in> set new. tier_ok t) \<and>
       distinct (map TargetRarity new) \<and> TargetRarity ` set new \<inter> set seen = {}"
  show ?case
  proof (cases "\<exists>t. decoded_tier uni x t \<and> validVowRarities ?r \<and> ?r \<notin> set seen")
    case False
    have "tier_loop uni (x # raw) seen tiers \<noteq> Inr out"
    proof
      assume ok: "tier_loop uni (x # raw) seen tiers = Inr out"
      then have v: "validVowRarities ?r" "?r \<notin> set seen" by (auto simp: Let_def split: if_splits)
      with ok obtain a b c d where "xt_MinNPower x = Some a" "xt_MaxNPower x = Some b"
        "xt_MinSuccessRate x = Some c" "xt_MaxSuccessRate x = Some d"
        by (auto simp: Let_def split: option.splits)
      then have "decoded_tier uni x \<lparr>TargetRarity = ?r, MinNPower = a, MaxNPower = b, MinSuccessRate = c, MaxSuccessRate = d\<rparr>"
        by (simp add: decoded_tier_def)
      with v False show False by blast
    qed
    moreover have "\<not> ?ok new" for new
    proof
      assume "?ok new"
      then obtain t new' where t: "new = t # new'" "decoded_tier uni x t" "tier_ok t" "TargetRarity t \<notin> set seen"
        by (auto simp: list_all2_Cons1)
      then have "TargetRarity t = ?r" by (simp add: decoded_tier_def)
      with t False show False by (auto simp: tier_ok_def)
    qed
    ultimately show ?thesis by blast
  next
    case True
    then obtain t where t: "decoded_tier uni x t" and v: "validVowRarities ?r" "?r \<notin> set seen" by blast
    have r: "TargetRarity t = ?r" using t by (simp add: decoded_tier_def)
    have only: "u = t" if "decoded_tier uni x u" for u
      using that t by (cases u; cases t) (simp add: decoded_tier_def)
    have full: "\<lparr>TargetRarity = ?r, MinNPower = MinNPower t, MaxNPower = MaxNPower t,
        MinSuccessRate = MinSuccessRate t, MaxSuccessRate = MaxSuccessRate t\<rparr> = t"
      using r by (cases t) simp
    have step: "tier_loop uni (x # raw) seen tiers =
        bindE (validate_tier t) (\<lambda>_. tier_loop uni raw (?r # seen) (tiers @ [t]))"
      using t v by (simp add: decoded_tier_def Let_def full)
    have "tier_loop uni (x # raw) seen tiers = Inr out \<longleftrightarrow>
        tier_ok t \<and> tier_loop uni raw (?r # seen) (tiers @ [t]) = Inr out"
      unfolding step bindE_eq_Inr using validate_tier_eq [of t] v r by auto
    also have "\<dots> \<longleftrightarrow> tier_ok t \<and> (\<exists>new. ?ok (t # new))"
      unfolding Cons.IH using t r v by auto
    also have "\<dots> \<longleftrightarrow> (\<exists>new. ?ok new)"
    proof
      assume "\<exists>new. ?ok new"
      then obtain new where new: "?ok new" by blast
      then obtain u new' where u: "new = u # new'" "decoded_tier uni x u" "tier_ok u"
        by (auto simp: list_all2_Cons1)
      then have "u = t" by (intro only)
      with u new show "tier_ok t \<and> (\<exists>new. ?ok (t # new))" by blast
    qed blast
    finally show ?thesis .
  qed
qed

lemma buildVowTiers_eq:
  "buildVowTiers uni raw = Inr tiers \<longleftrightarrow>
    raw \<noteq> [] \<and> list_all2 (decoded_tier uni) raw tiers \<and> (\<forall>t \<in> set tiers. tier_ok t) \<and> distinct (map TargetRarity tiers)"
  by (auto simp: buildVowTiers_def tier_loop_eq)

section \<open>Properties\<close>

text \<open>The configuration that a document spells out, key by key.\<close>

definition decoded_config :: "(string \<Rightarrow> string) \<Rightarrow> xml_config \<Rightarrow> game_config \<Rightarrow> bool" where
  "decoded_config uni x c \<longleftrightarrow>
     x_Version x = Some (Version c) \<and> x_PullCost x = Some (gc_PullCost c) \<and>
     x_CooldownSeconds x = Some (CooldownSeconds c) \<and> x_SlotCount x = Some (gc_SlotCount c) \<and>
     x_MaxLayers x = Some (gc_MaxLayers c) \<and> x_SpawnIntervalSeconds x = Some (gc_SpawnIntervalSeconds c) \<and>
     x_RequiredItemCount x = Some (VowRequiredItemCount c) \<and>
     list_all2 (decoded_tier uni) (x_Tiers x) (VowTiers c)"

lemma missing_keys_Nil:
  "missing_keys x = [] \<longleftrightarrow> x_Version x \<noteq> None \<and> x_PullCost x \<noteq> None \<and> x_CooldownSeconds x \<noteq> None \<and>
     x_SlotCount x \<noteq> None \<and> x_MaxLayers x \<noteq> None \<and> x_SpawnIntervalSeconds x \<noteq> None \<and> x_RequiredItemCount x \<noteq> None"
  by (auto simp: missing_keys_def)

lemma Load_Inr:
  "Load unmarshal uni file = Inr c \<longleftrightarrow>
    (\<exists>data x. file = Some data \<and> unmarshal data = Some x \<and> decoded_config uni x c \<and> config_ok c)"
proof (cases "file = None \<or> (\<exists>data. file = Some data \<and> unmarshal data = None)")
  case True
  then show ?thesis by (auto simp: Load_def)
next
  case False
  then obtain data x where x: "file = Some data" "unmarshal data = Some x" by auto
  let ?cfg = "\<lambda>tiers. \<lparr>Version = the (x_Version x), gc_PullCost = the (x_PullCost x),
      CooldownSeconds = the (x_CooldownSeconds x), gc_SlotCount = the (x_SlotCount x),
      gc_MaxLayers = the (x_MaxLayers x), gc_SpawnIntervalSeconds = the (x_SpawnIntervalSeconds x),
      VowRequiredItemCount = the (x_RequiredItemCount x), VowTiers = tiers\<rparr>"
  have "Load unmarshal uni file = Inr c \<longleftrightarrow>
      missing_keys x = [] \<and> buildVowTiers uni (x_Tiers x) = Inr (VowTiers c) \<and> ranges_ok c \<and> c = ?cfg (VowTiers c)"
    unfolding Load_def x option.case if_Inl_eq_Inr bindE_eq_Inr Let_def sum.inject
    using validate_config_eq by (auto simp: not_not)
  also have "\<dots> \<longleftrightarrow> decoded_config uni x c \<and> config_ok c"
    unfolding missing_keys_Nil buildVowTiers_eq decoded_config_def config_ok_def
    by (cases c) (auto simp: list_all2_Nil2)
  finally show ?thesis using x by auto
qed

text \<open>The document of the repository, \<open>Data/game-config.xml\<close>, as it is decoded.\<close>

definition shipped_tier :: "string \<Rightarrow> rat \<Rightarrow> rat \<Rightarrow> rat \<Rightarrow> xml_tier" where
  "shipped_tier r lo hi rate = \<lparr>xt_TargetRarity = r, xt_MinNPower = Some (Fin lo), xt_MaxNPower = Some (Fin hi),
     xt_MinSuccessRate = Some (Fin 5), xt_MaxSuccessRate = Some (Fin rate)\<rparr>"

definition shipped_config :: xml_config where
  "shipped_config = \<lparr>x_Version = Some 1, x_PullCost = Some (Fin 100), x_CooldownSeconds = Some 1800,
     x_SlotCount = Some 5, x_MaxLayers = Some 5, x_SpawnIntervalSeconds = Some 30, x_RequiredItemCount = Some 7,
     x_Tiers = [shipped_tier ''Uncommon'' 100 28800 100, shipped_tier ''Rare'' 500 201600 90,
       shipped_tier ''Unique'' 2500 777600 80, shipped_tier ''Legendary'' 10000 3110400 70]\<rparr>"

definition shipped_tiers :: "vow_tier list" where
  "shipped_tiers =
    [\<lparr>TargetRarity = ''uncommon'', MinNPower = Fin 100, MaxNPower = Fin 28800, MinSuccessRate = Fin 5, MaxSuccessRate = Fin 100\<rparr>,
     \<lparr>TargetRarity = ''rare'', MinNPower = Fin 500, MaxNPower = Fin 201600, MinSuccessRate = Fin 5, MaxSuccessRate = Fin 90\<rparr>,
     \<lparr>TargetRarity = ''unique'', MinNPower = Fin 2500, MaxNPower = Fin 777600, MinSuccessRate = Fin 5, MaxSuccessRate = Fin 80\<rparr>,
     \<lparr>TargetRarity = ''legendary'', MinNPower = Fin 10000, MaxNPower = Fin 3110400, MinSuccessRate = Fin 5, MaxSuccessRate = Fin 70\<rparr>]"

lemma shipped_loads:
  "case Load (\<lambda>_. Some shipped_config) (\<lambda>x. x) (Some []) of
     Inr c \<Rightarrow> VowTiers c = shipped_tiers \<and> gc_PullCost c = Fin 100 \<and> gc_SlotCount c = 5 | Inl _ \<Rightarrow> False"
  by code_simp

text \<open>
  C25. The configuration file is accepted exactly when it decodes, spells out every required key and
  describes a good configuration: finite positive price, a cooldown of whole minutes up to a week,
  1 to 50 slots, 1 to 100 layers, an interval of at most a day whose grid divides evenly among the
  slots, a positive item count, and one tier per rarity with ordered powers and with rates between
  0 and 100. The wrap-around of the divisibility check lets no bad file through.
\<close>

theorem Load_accepts_exactly:
  "Load unmarshal uni file = Inr c \<longleftrightarrow>
    (\<exists>data x. file = Some data \<and> unmarshal data = Some x \<and> decoded_config uni x c \<and> config_ok c)"
  by (rule Load_Inr)

end
