(* ===== verification/VowRates.thy ===== *)
theory VowRates
  imports GameConfig
begin

text \<open>
  The arithmetic of the vow (\<open>internal/vow/vow.go\<close>): the success rate of a tier, the rarities that
  the materials produce, and the percentage that is rolled. All of it is floating point; the
  results below hold with every rounding of the operations counted.
\<close>

section \<open>Representable numbers\<close>

text \<open>Every representable number is a multiple of the least subnormal.\<close>

lemma round64_subnormals: "\<exists>k :: int. round64 x = of_int k * 2 powi (- 1074)"
proof (cases "x = 0")
  case True
  then show ?thesis by (intro exI [of _ 0]) simp
next
  case False
  let ?e = "ulp_exp x"
  have "2 powi (?e + 1074 + - 1074) = 2 powi (?e + 1074) * (2 powi (- 1074) :: rat)" by (rule powi_split)
  then have "2 powi ?e = 2 powi (?e + 1074) * (2 powi (- 1074) :: rat)" by (simp only: add.assoc add.right_inverse add_0_right)
  also have "2 powi (?e + 1074) = (of_int (2 ^ nat (?e + 1074)) :: rat)"
    by (rule powi_of_nat) (simp add: ulp_exp_def)
  finally have "round64 x = of_int (round_even (x / 2 powi ?e) * 2 ^ nat (?e + 1074)) * 2 powi (- 1074)"
    using False by (simp add: round64_def)
  then show ?thesis by blast
qed

text \<open>The difference of two representable numbers does not vanish by rounding.\<close>

lemma float_difference:
  assumes "is_float (Fin a)" and "is_float (Fin b)" and "0 \<le> a" and "a < b"
  obtains d where "fsub (Fin b) (Fin a) = Fin d" and "0 < d"
proof -
  obtain j k where j: "a = of_int j * 2 powi (- 1074)" and k: "b = of_int k * 2 powi (- 1074)"
    using round64_subnormals [of a] round64_subnormals [of b] is_float_round64 assms(1,2) by metis
  have diff: "b - a = of_int (k - j) * 2 powi (- 1074)" unfolding j k by (simp add: algebra_simps)
  have "j < k"
  proof (rule ccontr)
    assume "\<not> j < k"
    then have "of_int (k - j) * 2 powi (- 1074) \<le> (0 :: rat)" by (intro mult_nonpos_nonneg) simp_all
    then show False using diff assms(4) by simp
  qed
  then have "of_int 1 * 2 powi (- 1074) \<le> b - a"
    unfolding diff by (intro mult_right_mono) simp_all
  then have "round64 (of_int 1 * 2 powi (- 1074)) \<le> round64 (b - a)" by (rule round64_mono)
  then have "of_int 1 * 2 powi (- 1074) \<le> round64 (b - a)" by (subst (asm) round64_exact) simp_all
  moreover have "(0 :: rat) < 2 powi (- 1074)" by simp
  ultimately have pos: "0 < round64 (b - a)" by (simp only: of_int_1 mult_1 less_le_trans)
  have "round64 (b - a) \<le> round64 b" using assms(3) by (intro round64_mono) simp
  then have "round64 (b - a) < 2 ^ 1024" using is_float_round64 [OF assms(2)] is_float_less [OF assms(2)] by simp
  with pos have "to_f64 (b - a) = Fin (round64 (b - a))" by (simp add: to_f64_def Let_def)
  with that pos show thesis by (simp add: fsub_def)
qed

lemma fdiv_mono:
  assumes "fle a b" and "0 < d"
  shows "fle (fdiv a (Fin d)) (fdiv b (Fin d))"
proof -
  have "to_f64 (x / d) \<noteq> NInf \<Longrightarrow> fle NInf (to_f64 (x / d))" for x
    by (cases "to_f64 (x / d)") (simp_all add: fle_def to_f64_not_NaN)
  moreover have "fle NInf (to_f64 (x / d))" "fle (to_f64 (x / d)) PInf" for x
    using to_f64_not_NaN [of "x / d"] by (cases "to_f64 (x / d)"; simp)+
  moreover have "x \<le> y \<Longrightarrow> fle (to_f64 (x / d)) (to_f64 (y / d))" for x y
    using assms(2) by (intro to_f64_mono divide_right_mono) simp_all
  ultimately show ?thesis
    using assms by (cases a; cases b) (simp_all add: inf_of_sign_def)
qed

section \<open>The success rate\<close>

definition clamp :: "f64 \<Rightarrow> f64 \<Rightarrow> f64 \<Rightarrow> f64" where
  "clamp v lo hi = (if flt v lo then lo else if flt hi v then hi else v)"

definition calcSuccessRate :: "vow_tier \<Rightarrow> f64 \<Rightarrow> f64" where
  "calcSuccessRate tier nPower =
     (if fle (MaxNPower tier) (MinNPower tier) then clamp (MaxSuccessRate tier) (Fin 0) (Fin 100)
      else
        let t = clamp (fdiv (fsub nPower (MinNPower tier)) (fsub (MaxNPower tier) (MinNPower tier))) (Fin 0) (Fin 1);
            rate = fadd (MinSuccessRate tier) (fmul (fsub (MaxSuccessRate tier) (MinSuccessRate tier)) t)
        in clamp rate (Fin 0) (Fin 100))"

lemma clamp_mono:
  assumes "fle a b" and "lo \<le> hi"
  shows "fle (clamp a (Fin lo) (Fin hi)) (clamp b (Fin lo) (Fin hi))"
  using assms by (cases a; cases b) (auto simp: clamp_def)

lemma clamp_range:
  assumes "v \<noteq> NaN" and "lo \<le> hi"
  obtains x where "clamp v (Fin lo) (Fin hi) = Fin x" and "lo \<le> x" and "x \<le> hi"
proof -
  have "\<exists>x. clamp v (Fin lo) (Fin hi) = Fin x \<and> lo \<le> x \<and> x \<le> hi"
    using assms by (cases v) (simp_all add: clamp_def split: if_split)
  with that show thesis by blast
qed

definition tier_floats :: "vow_tier \<Rightarrow> bool" where
  "tier_floats t \<longleftrightarrow> is_float (MinNPower t) \<and> is_float (MaxNPower t) \<and>
     is_float (MinSuccessRate t) \<and> is_float (MaxSuccessRate t)"

text \<open>The rate in terms of the clamped position \<open>t\<close> of the power in its range.\<close>

lemma calcSuccessRate_eq:
  assumes "tier_ok tier" and "tier_floats tier"
  obtains a d c e where "MinNPower tier = Fin a" and "0 < d" and "fsub (MaxNPower tier) (Fin a) = Fin d"
    and "MinSuccessRate tier = Fin c" and "fsub (MaxSuccessRate tier) (Fin c) = Fin e" and "0 \<le> e"
    and "\<And>n. calcSuccessRate tier n =
      clamp (fadd (Fin c) (fmul (Fin e) (clamp (fdiv (fsub n (Fin a)) (Fin d)) (Fin 0) (Fin 1)))) (Fin 0) (Fin 100)"
proof -
  obtain a b c m where t: "MinNPower tier = Fin a" "MaxNPower tier = Fin b" "MinSuccessRate tier = Fin c"
    "MaxSuccessRate tier = Fin m" "0 \<le> a" "a < b" "0 \<le> c" "c \<le> m" "m \<le> 100"
    using assms(1) by (auto simp: tier_ok_def)
  obtain d where d: "fsub (Fin b) (Fin a) = Fin d" "0 < d"
    using float_difference [of a b] assms(2) t by (auto simp: tier_floats_def)
  obtain e where e: "fsub (Fin m) (Fin c) = Fin e" "0 \<le> e"
  proof (cases "c = m")
    case True
    then show thesis using that [of 0] by (simp add: fsub_def)
  next
    case False
    then have "c < m" using t(8) by simp
    with float_difference [of c m] assms(2) t that show thesis
      by (auto simp: tier_floats_def intro: less_imp_le)
  qed
  from that [of a d c e] t d e show thesis by (simp add: calcSuccessRate_def Let_def not_le)
qed

lemma rate_position_mono:
  assumes "fle n m" and "0 < d" and "0 \<le> e"
  shows "fle (fadd (Fin c) (fmul (Fin e) (clamp (fdiv (fsub n (Fin a)) (Fin d)) (Fin 0) (Fin 1))))
    (fadd (Fin c) (fmul (Fin e) (clamp (fdiv (fsub m (Fin a)) (Fin d)) (Fin 0) (Fin 1))))"
proof -
  have "fle (fsub n (Fin a)) (fsub m (Fin a))" unfolding fsub_def fneg.simps using assms(1) by (rule fadd_mono_left)
  then have c: "fle (clamp (fdiv (fsub n (Fin a)) (Fin d)) (Fin 0) (Fin 1)) (clamp (fdiv (fsub m (Fin a)) (Fin d)) (Fin 0) (Fin 1))"
    by (intro clamp_mono fdiv_mono assms(2)) simp_all
  have nn: "fdiv (fsub x (Fin a)) (Fin d) \<noteq> NaN" if "x \<noteq> NaN" for x
    using that assms(2) to_f64_not_NaN by (cases x; cases "fsub x (Fin a)") (auto simp: fsub_def inf_of_sign_def)
  have "n \<noteq> NaN" "m \<noteq> NaN" using assms(1) by auto
  obtain x where x: "clamp (fdiv (fsub n (Fin a)) (Fin d)) (Fin 0) (Fin 1) = Fin x"
    using clamp_range [OF nn [OF \<open>n \<noteq> NaN\<close>], of 0 1] by auto
  obtain y where y: "clamp (fdiv (fsub m (Fin a)) (Fin d)) (Fin 0) (Fin 1) = Fin y"
    using clamp_range [OF nn [OF \<open>m \<noteq> NaN\<close>], of 0 1] by auto
  have "x \<le> y" using c unfolding x y by simp
  then have "fle (fmul (Fin e) (Fin x)) (fmul (Fin e) (Fin y))"
    using assms(3) by (simp add: to_f64_mono mult_left_mono)
  then show ?thesis unfolding x y by (rule fadd_mono_right)
qed

lemma calcSuccessRate_mono:
  assumes "tier_ok tier" and "tier_floats tier" and "fle n m"
  shows "fle (calcSuccessRate tier n) (calcSuccessRate tier m)"
proof (rule calcSuccessRate_eq [OF assms(1,2)])
  fix a d c e
  assume "0 < d" "0 \<le> e" and eq: "\<And>n. calcSuccessRate tier n =
      clamp (fadd (Fin c) (fmul (Fin e) (clamp (fdiv (fsub n (Fin a)) (Fin d)) (Fin 0) (Fin 1)))) (Fin 0) (Fin 100)"
  then show ?thesis unfolding eq by (intro clamp_mono rate_position_mono assms(3)) simp_all
qed

lemma calcSuccessRate_range:
  assumes "tier_ok tier" and "tier_floats tier" and "n \<noteq> NaN"
  obtains r where "calcSuccessRate tier n = Fin r" and "0 \<le> r" and "r \<le> 100"
proof (rule calcSuccessRate_eq [OF assms(1,2)])
  fix a d c e
  assume "0 < d" "0 \<le> e" and eq: "\<And>n. calcSuccessRate tier n =
      clamp (fadd (Fin c) (fmul (Fin e) (clamp (fdiv (fsub n (Fin a)) (Fin d)) (Fin 0) (Fin 1)))) (Fin 0) (Fin 100)"
  have "fle n n" using assms(3) by (rule fle_refl)
  from rate_position_mono [OF this \<open>0 < d\<close> \<open>0 \<le> e\<close>, of c a]
  have "fadd (Fin c) (fmul (Fin e) (clamp (fdiv (fsub n (Fin a)) (Fin d)) (Fin 0) (Fin 1))) \<noteq> NaN" by force
  from clamp_range [OF this, of 0 100] that show thesis unfolding eq by auto
qed

text \<open>At the least power the rate is the least one, with no rounding.\<close>

lemma calcSuccessRate_at_min:
  assumes "tier_ok tier" and "tier_floats tier"
  shows "calcSuccessRate tier (MinNPower tier) = MinSuccessRate tier"
proof (rule calcSuccessRate_eq [OF assms])
  fix a d c e
  assume t: "MinNPower tier = Fin a" "0 < d" "MinSuccessRate tier = Fin c" and eq: "\<And>n. calcSuccessRate tier n =
      clamp (fadd (Fin c) (fmul (Fin e) (clamp (fdiv (fsub n (Fin a)) (Fin d)) (Fin 0) (Fin 1)))) (Fin 0) (Fin 100)"
  have "to_f64 c = Fin c" using assms(2) t(3) by (simp add: tier_floats_def)
  moreover have "0 \<le> c" "c \<le> 100" using assms(1) t(3) by (auto simp: tier_ok_def)
  ultimately show ?thesis
    unfolding eq t using t(2) by (simp add: fsub_def clamp_def)
qed

text \<open>For rates that are whole percents the rate at the greatest power is the greatest one.\<close>

lemma calcSuccessRate_at_max:
  assumes "tier_ok tier" and "tier_floats tier"
    and "MinSuccessRate tier = Fin (of_int j)" and "MaxSuccessRate tier = Fin (of_int k)"
  shows "calcSuccessRate tier (MaxNPower tier) = MaxSuccessRate tier"
proof (rule calcSuccessRate_eq [OF assms(1,2)])
  fix a d c e
  assume t: "MinNPower tier = Fin a" "0 < d" "fsub (MaxNPower tier) (Fin a) = Fin d" "MinSuccessRate tier = Fin c"
    "fsub (MaxSuccessRate tier) (Fin c) = Fin e" and eq: "\<And>n. calcSuccessRate tier n =
      clamp (fadd (Fin c) (fmul (Fin e) (clamp (fdiv (fsub n (Fin a)) (Fin d)) (Fin 0) (Fin 1)))) (Fin 0) (Fin 100)"
  have c: "c = of_int j" using t(4) assms(3) by simp
  have r: "0 \<le> (of_int j :: rat)" "(of_int j :: rat) \<le> of_int k" "(of_int k :: rat) \<le> 100"
    using assms(1,3,4) by (auto simp: tier_ok_def)
  then have jk: "0 \<le> j" "j \<le> k" "k \<le> 100" by linarith+
  have e: "e = of_int (k - j)"
    using t(5) jk fsub_int [of k j] unfolding assms(4) c by simp
  have one: "clamp (fdiv (Fin d) (Fin d)) (Fin 0) (Fin 1) = Fin 1" using t(2) by (simp add: clamp_def)
  have m: "fmul (Fin e) (Fin 1) = Fin (of_int (k - j))"
    using jk fmul_int [of "k - j" 1] unfolding e by simp
  have s: "fadd (Fin (of_int j)) (Fin (of_int (k - j))) = Fin (of_int k)"
    using jk fadd_int [of j "k - j"] by simp
  show ?thesis unfolding eq t(3) one m unfolding c s assms(4) using r by (simp add: clamp_def)
qed

section \<open>The rarities\<close>

definition rarityOrder :: "string \<Rightarrow> int" where
  "rarityOrder r = (if r = Common then 1 else if r = Uncommon then 2 else if r = Rare then 3
     else if r = Unique then 4 else if r = Legendary then 5 else 0)"

definition orderRarity :: "int \<Rightarrow> string" where
  "orderRarity n = (if n = 1 then Common else if n = 2 then Uncommon else if n = 3 then Rare
     else if n = 4 then Unique else if n = 5 then Legendary else [])"

record material =
  mat_item :: string
  mat_count :: int

text \<open>The loop over the materials: the sums of the counts and of the weighted orders, in 64 bits.\<close>

fun rarity_sums :: "skin_pool \<Rightarrow> material list \<Rightarrow> int \<Rightarrow> int \<Rightarrow> (int \<times> int) option" where
  "rarity_sums pool [] tot acc = Some (tot, acc)"
| "rarity_sums pool (m # ms) tot acc =
     (case RarityOf pool (mat_item m) of
        None \<Rightarrow> None
      | Some r \<Rightarrow>
          let n = rarityOrder r
          in if n \<le> 0 \<or> n \<ge> 5 then None
             else rarity_sums pool ms (wrap64 (tot + mat_count m)) (wrap64 (acc + wrap64 (n * mat_count m))))"

text \<open>\<open>int(x)\<close>: toward zero; what does not fit in 64 bits becomes the least integer (as on amd64).\<close>

fun go_int :: "f64 \<Rightarrow> int" where
  "go_int (Fin a) = (let k = (if 0 \<le> a then \<lfloor>a\<rfloor> else \<lceil>a\<rceil>) in if - (2 ^ 63) \<le> k \<and> k < 2 ^ 63 then k else - (2 ^ 63))"
| "go_int _ = - (2 ^ 63)"

definition half_up :: "int \<Rightarrow> int \<Rightarrow> int" where
  "half_up acc tot = go_int (floor64 (fadd (fdiv (of_go_int acc) (of_go_int tot)) (Fin (1 / 2))))"

definition computeRarities :: "skin_pool \<Rightarrow> material list \<Rightarrow> (string \<times> string) option" where
  "computeRarities pool ms =
     (case rarity_sums pool ms 0 0 of
        None \<Rightarrow> None
      | Some (tot, acc) \<Rightarrow>
          if tot \<le> 0 then None
          else
            let rounded = half_up acc tot
            in if rounded < 1 \<or> rounded \<ge> 5 then None
               else Some (orderRarity rounded, orderRarity (rounded + 1)))"

section \<open>The average, rounded half up\<close>

text \<open>A value between two representable ones is rounded to one between them.\<close>

lemma to_f64_between:
  assumes "to_f64 lo = Fin lo" and "to_f64 hi = Fin hi" and "lo \<le> x" and "x \<le> hi"
  obtains y where "to_f64 x = Fin y" and "lo \<le> y" and "y \<le> hi"
proof -
  have "fle (Fin lo) (to_f64 x)" "fle (to_f64 x) (Fin hi)"
    using to_f64_mono [OF assms(3)] to_f64_mono [OF assms(4)] assms(1,2) by simp_all
  with that show thesis by (cases "to_f64 x") simp_all
qed

lemma half_up_exact:
  assumes "1 \<le> tot" and "tot \<le> 2 ^ 48" and "tot \<le> acc" and "acc \<le> 4 * tot"
  shows "half_up acc tot = (2 * acc + tot) div (2 * tot)"
    and "1 \<le> (2 * acc + tot) div (2 * tot)" and "(2 * acc + tot) div (2 * tot) \<le> 4"
proof -
  define k where "k = (2 * acc + tot) div (2 * tot)"
  have "2 * tot * k \<le> 2 * acc + tot" "2 * acc + tot < 2 * tot * k + 2 * tot"
    using assms(1) mult_div_mod_eq [of "2 * tot" "2 * acc + tot"] pos_mod_bound [of "2 * tot" "2 * acc + tot"]
      pos_mod_sign [of "2 * tot" "2 * acc + tot"] unfolding k_def by linarith+
  then have lo: "(2 * k - 1) * tot \<le> 2 * acc" and hi: "2 * acc \<le> (2 * k + 1) * tot - 1"
    by (simp_all add: algebra_simps)
  have "1 \<le> k" unfolding k_def using assms zdiv_mono1 [of "2 * tot" "2 * acc + tot" "2 * tot"] by simp
  moreover have "k < 5"
  proof (rule ccontr)
    assume "\<not> k < 5"
    then have "2 * tot * 5 \<le> 2 * tot * k" using assms(1) by (intro mult_left_mono) simp_all
    with assms \<open>2 * tot * k \<le> 2 * acc + tot\<close> show False by linarith
  qed
  ultimately have k: "1 \<le> k" "k \<le> 4" by simp_all
  show "1 \<le> (2 * acc + tot) div (2 * tot)" "(2 * acc + tot) div (2 * tot) \<le> 4"
    using k unfolding k_def .
  text \<open>The quotient lies between \<open>k - 1/2\<close> and a number below \<open>k + 1/2\<close> that needs no rounding.\<close>
  let ?x = "of_int acc / of_int tot :: rat"
  have tot: "(0 :: rat) < of_int tot" using assms(1) by simp
  have pow: "(2 :: rat) powi (- 49) = 1 / 2 ^ 49" "(2 :: rat) powi (- 1) = 1 / 2"
    by (simp_all add: power_int_def power_one_over)
  have x1: "of_int (2 * k - 1) * 2 powi (- 1) \<le> ?x"
  proof -
    have "of_int (2 * k - 1) * of_int tot \<le> (of_int (2 * acc) :: rat)"
      using lo by (simp only: of_int_mult [symmetric] of_int_le_iff)
    then show ?thesis using tot by (simp add: pow field_simps)
  qed
  have x2: "?x \<le> of_int ((2 * k + 1) * 2 ^ 48 - 1) * 2 powi (- 49)"
  proof -
    have "of_int (2 * acc) \<le> (of_int ((2 * k + 1) * tot - 1) :: rat)" using hi by (simp only: of_int_le_iff)
    then have "?x \<le> (of_int (2 * k + 1) - 1 / of_int tot) / 2" using tot by (simp add: field_simps)
    also have "\<dots> \<le> (of_int (2 * k + 1) - 1 / 2 ^ 48) / 2"
    proof -
      have "(of_int tot :: rat) \<le> of_int (2 ^ 48)" using assms(2) by (simp only: of_int_le_iff)
      then have "(of_int tot :: rat) \<le> 2 ^ 48" by simp
      then have "1 / 2 ^ 48 \<le> 1 / (of_int tot :: rat)" using tot by (intro divide_left_mono) simp_all
      then show ?thesis by (intro divide_right_mono) simp_all
    qed
    finally show ?thesis by (simp add: pow field_simps)
  qed
  obtain y where y: "to_f64 ?x = Fin y" "of_int (2 * k - 1) * 2 powi (- 1) \<le> y"
    "y \<le> of_int ((2 * k + 1) * 2 ^ 48 - 1) * 2 powi (- 49)"
    using to_f64_between [OF to_f64_dyadic to_f64_dyadic x1 x2] k by auto
  have "of_int k \<le> y + 1 / 2" using y(2) by (simp add: pow field_simps)
  moreover have "y + 1 / 2 \<le> of_int ((k + 1) * 2 ^ 49 - 1) * 2 powi (- 49)"
    using y(3) by (simp add: pow field_simps)
  moreover have "to_f64 (of_int k) = Fin (of_int k)" using k by (intro to_f64_of_int) simp
  moreover have "to_f64 (of_int ((k + 1) * 2 ^ 49 - 1) * 2 powi (- 49)) = Fin (of_int ((k + 1) * 2 ^ 49 - 1) * 2 powi (- 49))"
    using k by (intro to_f64_dyadic) simp_all
  ultimately obtain z where z: "to_f64 (y + 1 / 2) = Fin z" "of_int k \<le> z" "z \<le> of_int ((k + 1) * 2 ^ 49 - 1) * 2 powi (- 49)"
    using to_f64_between by blast
  have "z < of_int k + 1" using z(3) by (simp add: pow field_simps)
  then have fl: "\<lfloor>z\<rfloor> = k" using z(2) by (intro floor_unique) simp_all
  have "of_go_int acc = Fin (of_int acc)" "of_go_int tot = Fin (of_int tot)"
    using assms by (intro of_go_int_exact; simp)+
  then have "half_up acc tot = go_int (floor64 (fadd (Fin y) (Fin (1 / 2))))"
    using assms(1) y(1) by (simp add: half_up_def)
  also have "\<dots> = k" using z(1) fl k by simp
  finally show "half_up acc tot = (2 * acc + tot) div (2 * tot)" unfolding k_def .
qed

text \<open>The orders of craftable materials, and the sums without wrap-around.\<close>

definition material_order :: "skin_pool \<Rightarrow> material \<Rightarrow> int" where
  "material_order pool m = (case RarityOf pool (mat_item m) of None \<Rightarrow> 0 | Some r \<Rightarrow> rarityOrder r)"

definition craftable :: "skin_pool \<Rightarrow> material \<Rightarrow> bool" where
  "craftable pool m \<longleftrightarrow> 1 \<le> material_order pool m \<and> material_order pool m \<le> 4"

definition count_sum :: "material list \<Rightarrow> int" where
  "count_sum ms = sum_list (map mat_count ms)"

definition order_sum :: "skin_pool \<Rightarrow> material list \<Rightarrow> int" where
  "order_sum pool ms = sum_list (map (\<lambda>m. material_order pool m * mat_count m) ms)"

lemma count_sum_nonneg: "\<forall>m \<in> set ms. 1 \<le> mat_count m \<Longrightarrow> 0 \<le> count_sum ms"
  unfolding count_sum_def by (induction ms) auto

lemma rarity_sums_not_craftable:
  "\<not> (\<forall>m \<in> set ms. craftable pool m) \<Longrightarrow> rarity_sums pool ms a b = None"
  by (induction ms arbitrary: a b)
    (auto simp: craftable_def material_order_def Let_def split: option.splits)

lemma rarity_sums_craftable:
  assumes "\<forall>m \<in> set ms. craftable pool m \<and> 1 \<le> mat_count m"
    and "0 \<le> a" and "0 \<le> b" and "b \<le> 4 * a" and "a + count_sum ms \<le> 2 ^ 48"
  shows "rarity_sums pool ms a b = Some (a + count_sum ms, b + order_sum pool ms)"
  using assms
proof (induction ms arbitrary: a b)
  case Nil
  then show ?case by (simp add: count_sum_def order_sum_def)
next
  case (Cons m ms)
  let ?n = "material_order pool m" and ?c = "mat_count m"
  have n: "1 \<le> ?n" "?n \<le> 4" and c: "1 \<le> ?c" using Cons.prems(1) by (auto simp: craftable_def)
  have rest: "0 \<le> count_sum ms" using Cons.prems(1) by (intro count_sum_nonneg) simp
  have s: "count_sum (m # ms) = ?c + count_sum ms" "order_sum pool (m # ms) = ?n * ?c + order_sum pool ms"
    by (simp_all add: count_sum_def order_sum_def)
  have p: "1 * 1 \<le> ?n * ?c" "?n * ?c \<le> 4 * ?c" using n c by (intro mult_mono mult_right_mono; simp)+
  have a: "a + ?c \<le> 2 ^ 48" using Cons.prems(5) rest s by linarith
  have q: "?n * ?c \<le> 4 * 2 ^ 48" "b + ?n * ?c \<le> 8 * 2 ^ 48" using a p Cons.prems(2-4) c by linarith+
  have q0: "0 \<le> ?n * ?c" "0 \<le> b + ?n * ?c" using p Cons.prems(3) by linarith+
  have small: "0 \<le> x \<Longrightarrow> x \<le> 8 * 2 ^ 48 \<Longrightarrow> wrap64 x = x" for x by (rule wrap64_id) simp_all
  have w: "wrap64 (a + ?c) = a + ?c" "wrap64 (?n * ?c) = ?n * ?c" "wrap64 (b + ?n * ?c) = b + ?n * ?c"
    by (rule small; use a Cons.prems(2) c q q0 in linarith)+
  obtain r where r: "RarityOf pool (mat_item m) = Some r" "rarityOrder r = ?n"
    using n by (cases "RarityOf pool (mat_item m)") (simp_all add: material_order_def)
  have "rarity_sums pool (m # ms) a b = rarity_sums pool ms (a + ?c) (b + ?n * ?c)"
    using r n w by simp
  also have "\<dots> = Some (a + ?c + count_sum ms, b + ?n * ?c + order_sum pool ms)"
  proof (rule Cons.IH)
    have "x \<le> 4 * c \<Longrightarrow> b + x \<le> 4 * (a + c)" for x c :: int using Cons.prems(4) by simp
    then show "b + ?n * ?c \<le> 4 * (a + ?c)" using p(2) by blast
    show "a + ?c + count_sum ms \<le> 2 ^ 48" using Cons.prems(5) s by linarith
  qed (use Cons.prems c q0 in auto)
  finally show ?case by (simp add: s)
qed

lemma order_sum_bounds:
  assumes "\<forall>m \<in> set ms. craftable pool m \<and> 1 \<le> mat_count m"
  shows "count_sum ms \<le> order_sum pool ms \<and> order_sum pool ms \<le> 4 * count_sum ms"
  using assms
proof (induction ms)
  case (Cons m ms)
  then have n: "1 \<le> material_order pool m" "material_order pool m \<le> 4" "1 \<le> mat_count m"
    by (auto simp: craftable_def)
  have "1 * mat_count m \<le> material_order pool m * mat_count m" "material_order pool m * mat_count m \<le> 4 * mat_count m"
    using n by (intro mult_right_mono; simp)+
  moreover have "count_sum ms \<le> order_sum pool ms \<and> order_sum pool ms \<le> 4 * count_sum ms" using Cons by simp
  moreover have "count_sum (m # ms) = mat_count m + count_sum ms"
    "order_sum pool (m # ms) = material_order pool m * mat_count m + order_sum pool ms"
    by (simp_all add: count_sum_def order_sum_def)
  moreover have "c \<le> x \<Longrightarrow> x \<le> 4 * c \<Longrightarrow> s \<le> y \<and> y \<le> 4 * s \<Longrightarrow> c + s \<le> x + y \<and> x + y \<le> 4 * (c + s)"
    for c x s y :: int by simp
  ultimately show ?case by simp
qed (simp add: count_sum_def order_sum_def)

section \<open>The rolled percentage\<close>

text \<open>\<open>rollPercent\<close>: 53 random bits as a percentage; \<open>None\<close> when the random source fails.\<close>

definition rollPercent :: "8 word list option \<Rightarrow> f64 option" where
  "rollPercent rand =
     (case rand of
        None \<Rightarrow> None
      | Some b \<Rightarrow>
          Some (fmul (fdiv (to_f64 (of_nat (big_endian (bytes_between 0 8 b) div 2 ^ 11))) (to_f64 (2 ^ 53))) (Fin 100)))"

lemma big_endian_bound: "big_endian bs < 256 ^ length bs"
proof -
  have "foldl (\<lambda>n b. 256 * n + unat b) n bs < 256 ^ length bs * (n + 1)" for n and bs :: "8 word list"
  proof (induction bs arbitrary: n)
    case (Cons b bs)
    have b: "unat b < 256" using unsigned_less [of b] by simp
    have "foldl (\<lambda>n b. 256 * n + unat b) n (b # bs) < 256 ^ length bs * (256 * n + unat b + 1)"
      using Cons.IH [of "256 * n + unat b"] by simp
    also have "\<dots> \<le> 256 ^ length bs * (256 * (n + 1))" using b by (intro mult_left_mono) simp_all
    finally show ?case by (simp add: algebra_simps)
  qed simp
  from this [of 0 bs] show ?thesis by (simp add: big_endian_def)
qed

text \<open>The greatest percentage that can be rolled, after the rounding of the product.\<close>

lemma greatest_percent: "to_f64 (of_int (2 ^ 53 - 1) * 2 powi (- 53) * 100) = Fin (of_int (100 * 2 ^ 46 - 1) * 2 powi (- 46))"
proof -
  let ?x = "of_int (2 ^ 53 - 1) * 2 powi (- 53) * 100 :: rat"
  have pow: "(2 :: rat) powi (- 53) = 1 / 2 ^ 53" "(2 :: rat) powi (- 46) = 1 / 2 ^ 46"
    by (simp_all add: power_int_def power_one_over)
  have x: "?x = 100 - 100 / 2 ^ 53" by (simp add: pow)
  have "ilog2 ?x \<le> 6" by (rule ilog2_le) (simp_all add: x)
  moreover have "6 \<le> ilog2 ?x" by (rule ilog2_ge) (simp add: x)
  ultimately have e: "ulp_exp ?x = - 46" using x by (simp add: ulp_exp_def)
  have q: "?x / 2 powi (- 46) = of_int (100 * 2 ^ 46 - 1) + 7 / 32" by (simp add: x pow)
  have "\<lfloor>?x / 2 powi (- 46)\<rfloor> = 100 * 2 ^ 46 - 1" unfolding q by (rule floor_unique) simp_all
  then have r: "round_even (?x / 2 powi (- 46)) = 100 * 2 ^ 46 - 1"
    unfolding round_even_def Let_def by (simp only: q) simp
  have "round64 ?x = of_int (100 * 2 ^ 46 - 1) * 2 powi (- 46)"
    unfolding round64_def e r by (simp add: x)
  then show ?thesis by (simp add: to_f64_def Let_def pow)
qed

lemma rollPercent_range:
  assumes "rand = Some b"
  obtains r where "rollPercent rand = Some (Fin r)" and "0 \<le> r" and "r < 100"
proof -
  let ?n = "big_endian (bytes_between 0 8 b) div 2 ^ 11"
  have "big_endian (bytes_between 0 8 b) < 256 ^ length (bytes_between 0 8 b)" by (rule big_endian_bound)
  also have "\<dots> \<le> 256 ^ 8" by (rule power_increasing) (simp_all add: bytes_between_def)
  finally have n: "int ?n \<le> 2 ^ 53 - 1" by simp
  have pow: "(2 :: rat) powi (- 53) = 1 / 2 ^ 53" by (simp add: power_int_def power_one_over)
  have "to_f64 (of_int (int ?n)) = Fin (of_int (int ?n))" using n by (intro to_f64_of_int) simp
  moreover have "to_f64 (of_int (2 ^ 53)) = Fin (of_int (2 ^ 53))" by (intro to_f64_of_int) simp
  moreover have "to_f64 (of_int (int ?n) * 2 powi (- 53)) = Fin (of_int (int ?n) * 2 powi (- 53))"
    using n by (intro to_f64_dyadic) simp_all
  ultimately have eq: "rollPercent rand = Some (to_f64 (of_int (int ?n) * 2 powi (- 53) * 100))"
    using assms by (simp add: rollPercent_def pow)
  have "of_int (int ?n) * 2 powi (- 53) * 100 \<le> of_int (2 ^ 53 - 1) * 2 powi (- 53) * (100 :: rat)"
    using n by (intro mult_right_mono) (simp_all only: of_int_le_iff, simp_all)
  from to_f64_mono [OF this] have hi: "fle (to_f64 (of_int (int ?n) * 2 powi (- 53) * 100)) (Fin (of_int (100 * 2 ^ 46 - 1) * 2 powi (- 46)))"
    unfolding greatest_percent .
  have "(0 :: rat) \<le> of_int (int ?n) * 2 powi (- 53) * 100" by simp
  from to_f64_mono [OF this] have lo: "fle (Fin 0) (to_f64 (of_int (int ?n) * 2 powi (- 53) * 100))" by simp
  have "of_int (100 * 2 ^ 46 - 1) * 2 powi (- 46) < (100 :: rat)" by (simp add: power_int_def power_one_over)
  with that eq lo hi show thesis
    by (cases "to_f64 (of_int (int ?n) * 2 powi (- 53) * 100)") (auto dest: le_less_trans)
qed

section \<open>Properties\<close>

text \<open>
  C23. The success rate of a tier with whole percents is a curve from the least to the greatest rate:
  for powers \<open>n \<le> m\<close> of the tier's range the rates are ordered and lie between the two, which
  are reached exactly at the ends of the range, all with the rounding of every operation counted.
\<close>

theorem success_rate_curve:
  assumes "tier_ok tier" and "tier_floats tier"
    and "MinSuccessRate tier = Fin (of_int j)" and "MaxSuccessRate tier = Fin (of_int k)"
    and "fle (MinNPower tier) n" and "fle n m" and "fle m (MaxNPower tier)"
  shows "fle (MinSuccessRate tier) (calcSuccessRate tier n) \<and> fle (calcSuccessRate tier n) (calcSuccessRate tier m) \<and>
    fle (calcSuccessRate tier m) (MaxSuccessRate tier) \<and>
    calcSuccessRate tier (MinNPower tier) = MinSuccessRate tier \<and>
    calcSuccessRate tier (MaxNPower tier) = MaxSuccessRate tier"
  using calcSuccessRate_mono [OF assms(1,2)] assms(5-7)
    calcSuccessRate_at_min [OF assms(1,2)] calcSuccessRate_at_max [OF assms(1-4)] by metis

theorem success_rate_curve_witness:
  "fle (Fin 5) (calcSuccessRate (hd shipped_tiers) (Fin 200)) \<and>
   calcSuccessRate (hd shipped_tiers) (Fin 28800) = Fin 100"
proof -
  let ?t = "hd shipped_tiers"
  have "tier_ok ?t" "tier_floats ?t"
    by (simp_all add: shipped_tiers_def tier_ok_def validVowRarities_def tier_floats_def)
  moreover have "MinSuccessRate ?t = Fin (of_int 5)" "MaxSuccessRate ?t = Fin (of_int 100)"
    "fle (MinNPower ?t) (Fin 200)" "fle (Fin 200) (Fin 300)" "fle (Fin 300) (MaxNPower ?t)"
    by (simp_all add: shipped_tiers_def)
  ultimately show ?thesis
    using success_rate_curve [of ?t 5 100 "Fin 200" "Fin 300"] by (simp add: shipped_tiers_def)
qed

text \<open>
  C24. The rarities that the materials produce are the documented average: every material is
  craftable (common to unique), and the base is the order \<open>\<Sum> order * count / \<Sum> count\<close> rounded
  half up, with the target one step above; the floating point division and addition never
  change the result for up to \<open>2 ^ 48\<close> items.
\<close>

theorem computeRarities_reference:
  assumes "\<forall>m \<in> set ms. 1 \<le> mat_count m" and "count_sum ms \<le> 2 ^ 48"
  shows "computeRarities pool ms =
    (if ms = [] \<or> (\<exists>m \<in> set ms. \<not> craftable pool m) then None
     else let k = (2 * order_sum pool ms + count_sum ms) div (2 * count_sum ms)
          in Some (orderRarity k, orderRarity (k + 1)))"
proof (cases "\<forall>m \<in> set ms. craftable pool m")
  case False
  then show ?thesis using rarity_sums_not_craftable by (auto simp: computeRarities_def)
next
  case craft: True
  then have c: "\<forall>m \<in> set ms. craftable pool m \<and> 1 \<le> mat_count m" using assms(1) by simp
  show ?thesis
  proof (cases "ms = []")
    case False
    then have "1 \<le> count_sum ms"
      using assms(1) count_sum_nonneg [of "tl ms"] by (cases ms) (auto simp: count_sum_def)
    moreover note half_up_exact [OF this assms(2), of "order_sum pool ms"] order_sum_bounds [OF c]
    ultimately show ?thesis
      using rarity_sums_craftable [OF c, of 0 0] assms(2) craft False by (simp add: computeRarities_def Let_def)
  qed (simp add: computeRarities_def)
qed

definition demo_ranks :: skin_pool where
  "demo_ranks = empty_pool\<lparr>skinRarity := [''a'' \<mapsto> Common, ''d'' \<mapsto> Unique, ''f'' \<mapsto> Legendary]\<rparr>"

theorem computeRarities_reference_witness:
  "computeRarities demo_ranks [\<lparr>mat_item = ''a'', mat_count = 3\<rparr>, \<lparr>mat_item = ''d'', mat_count = 4\<rparr>] =
     Some (Rare, Unique)"
proof -
  let ?ms = "[\<lparr>mat_item = ''a'', mat_count = 3\<rparr>, \<lparr>mat_item = ''d'', mat_count = 4\<rparr>]"
  have "\<forall>m \<in> set ?ms. 1 \<le> mat_count m" "count_sum ?ms \<le> 2 ^ 48" by (simp_all add: count_sum_def)
  from computeRarities_reference [OF this, of demo_ranks] show ?thesis
    by (simp add: demo_ranks_def craftable_def material_order_def RarityOf_def rarityOrder_def rarity_defs
        count_sum_def order_sum_def orderRarity_def Let_def)
qed

text \<open>
  The rolled percentage is at least 0 and below 100, also after the rounding of the product:
  a tier with a rate of 100 percent never fails.
\<close>

lemma rollPercent_in_range:
  "\<exists>r. rollPercent (Some b) = Some (Fin r) \<and> 0 \<le> r \<and> r < 100"
  by (rule rollPercent_range [OF refl, of b]) blast

end
