(* ===== verification/DbInvariant.thy ===== *)
theory DbInvariant
  imports Cairn
begin

text \<open>
  The invariant of the data base that every handler keeps: keys and references, balances and stock
  that are not negative, layer counts within the maximum. It is shown here for the statements that
  the handlers share: the write of a player's row, the accrue-and-deduct statement, and the growth.
\<close>

section \<open>Effects of the growth and lookups of the slots\<close>

text \<open>The growth moves the player's anchor and layer counts and nothing else.\<close>

lemma ApplyGrowth_lookups:
  assumes "ApplyGrowth c ft now sqlnow pid db = Inr db'"
  shows "\<exists>h. \<forall>q. state_of db' q = map_option (\<lambda>st. st\<lparr>cairn_last_growth_at := h st\<rparr>) (state_of db q)"
    and "q \<noteq> pid \<Longrightarrow> state_of db' q = state_of db q"
    and "\<exists>t u. db' = db\<lparr>player_states := t, wish_cairn_slots := u\<rparr>"
    and "q \<noteq> pid \<Longrightarrow> slots_of db' q = slots_of db q"
    and "\<exists>h. \<forall>q i. slot_of db' q i = map_option (\<lambda>s. s\<lparr>layer_count := h s\<rparr>) (slot_of db q i)"
    and "balances_ok db' = balances_ok db" and "refs_ok db \<Longrightarrow> refs_ok db'"
proof -
  from assms obtain P x g where db': "db' = db\<lparr>player_states := sql_update (\<lambda>r. s_player r = pid \<and> P r)
      (\<lambda>r. r\<lparr>cairn_last_growth_at := x\<rparr>) (player_states db),
      wish_cairn_slots := raise_slots pid g (wish_cairn_slots db)\<rparr>"
    by (rule ApplyGrowth_frame)
  let ?h = "\<lambda>st. if s_player st = pid \<and> P st then x else cairn_last_growth_at st"
  have rows: "sql_update (\<lambda>r. s_player r = pid \<and> P r) (\<lambda>r. r\<lparr>cairn_last_growth_at := x\<rparr>) t =
      map (\<lambda>r. r\<lparr>cairn_last_growth_at := ?h r\<rparr>) t" for t
    unfolding sql_update_def by (rule map_cong) auto
  have s: "state_of db' q = map_option (\<lambda>st. st\<lparr>cairn_last_growth_at := ?h st\<rparr>) (state_of db q)" for q
  proof -
    have "find (\<lambda>r. s_player r = q) (map (\<lambda>r. r\<lparr>cairn_last_growth_at := ?h r\<rparr>) t) =
        map_option (\<lambda>st. st\<lparr>cairn_last_growth_at := ?h st\<rparr>) (find (\<lambda>r. s_player r = q) t)" for t
      by (induction t) (auto simp del: if_split)
    then show ?thesis unfolding db' rows by (simp add: state_of_def)
  qed
  show "\<exists>h. \<forall>q. state_of db' q = map_option (\<lambda>st. st\<lparr>cairn_last_growth_at := h st\<rparr>) (state_of db q)"
    by (intro exI allI) (rule s)
  show "state_of db' q = state_of db q" if "q \<noteq> pid"
    using s [of q] that by (cases "state_of db q") (auto dest: state_ofD)
  show "\<exists>t u. db' = db\<lparr>player_states := t, wish_cairn_slots := u\<rparr>" unfolding db' by blast
  show "slots_of db' q = slots_of db q" if "q \<noteq> pid"
    using that by (simp add: db' slots_of_def slots_raise)
  let ?k = "\<lambda>r. if slot_player r = pid then layer_count r + g (slot_index r) else layer_count r"
  have slots: "raise_slots pid g t = map (\<lambda>r. r\<lparr>layer_count := ?k r\<rparr>) t" for t
    unfolding raise_slots_def by (rule map_cong) auto
  have k: "slot_of db' q i = map_option (\<lambda>s. s\<lparr>layer_count := ?k s\<rparr>) (slot_of db q i)" for q i
  proof -
    have "find (\<lambda>r. slot_player r = q \<and> slot_index r = i) (map (\<lambda>r. r\<lparr>layer_count := ?k r\<rparr>) t) =
        map_option (\<lambda>s. s\<lparr>layer_count := ?k s\<rparr>) (find (\<lambda>r. slot_player r = q \<and> slot_index r = i) t)" for t
      by (induction t) (auto simp del: if_split)
    then show ?thesis unfolding db' slots by (simp add: slot_of_def)
  qed
  show "\<exists>h. \<forall>q i. slot_of db' q i = map_option (\<lambda>s. s\<lparr>layer_count := h s\<rparr>) (slot_of db q i)"
    by (intro exI allI) (rule k)
  show "balances_ok db' = balances_ok db" unfolding db' rows by (simp add: balances_ok_def)
  show "refs_ok db \<Longrightarrow> refs_ok db'"
    unfolding db' rows slots by (simp add: refs_ok_def has_player_def)
qed

lemma slot_of_key: "slot_of db q i = find (\<lambda>r. (slot_player r, slot_index r) = (q, i)) (wish_cairn_slots db)"
  by (simp add: slot_of_def)

lemma slot_ofD: "slot_of db q i = Some s \<Longrightarrow> s \<in> set (wish_cairn_slots db) \<and> slot_player s = q \<and> slot_index s = i"
  unfolding slot_of_def by (auto dest: find_SomeD)

lemma slot_of_iff:
  assumes "keys_ok db"
  shows "slot_of db q i = Some s \<longleftrightarrow> s \<in> set (wish_cairn_slots db) \<and> slot_player s = q \<and> slot_index s = i"
proof
  assume "s \<in> set (wish_cairn_slots db) \<and> slot_player s = q \<and> slot_index s = i"
  with assms show "slot_of db q i = Some s"
    using find_key [of "\<lambda>r. (slot_player r, slot_index r)" "wish_cairn_slots db" s]
    by (simp add: slot_of_key keys_ok_def)
qed (rule slot_ofD)

lemma accrued_balance_cong:
  "enlightenment_pts r' = enlightenment_pts r \<Longrightarrow> last_sync_at r' = last_sync_at r \<Longrightarrow>
   enlightenment_rate r' = enlightenment_rate r \<Longrightarrow> accrued_balance now r' = accrued_balance now r"
  by (cases "last_sync_at r") (simp_all add: accrued_balance_def accrual_def)

lemma slots_of_frames [frame_simps]:
  "slots_of (db\<lparr>player_states := a\<rparr>) q = slots_of db q"
  "slots_of (db\<lparr>inventories := d\<rparr>) q = slots_of db q"
  "slots_of (db\<lparr>gacha_logs := l\<rparr>) q = slots_of db q"
  by (simp_all add: slots_of_def)

section \<open>The invariant of the data base\<close>

definition db_ok :: "cairn_config \<Rightarrow> database \<Rightarrow> bool" where
  "db_ok c db \<longleftrightarrow> keys_ok db \<and> refs_ok db \<and> balances_ok db \<and> stock_ok db \<and> slots_ok c db"

lemma db_okD:
  "db_ok c db \<Longrightarrow> keys_ok db" "db_ok c db \<Longrightarrow> refs_ok db" "db_ok c db \<Longrightarrow> balances_ok db"
  "db_ok c db \<Longrightarrow> stock_ok db" "db_ok c db \<Longrightarrow> slots_ok c db"
  by (simp_all add: db_ok_def)

lemma db_ok_set_state:
  assumes "db_ok c db" and "\<And>r. s_player (f r) = s_player r"
    and "\<And>r. state_of db pid = Some r \<Longrightarrow> fle (Fin 0) (enlightenment_pts r) \<Longrightarrow> fle (Fin 0) (enlightenment_pts (f r))"
  shows "db_ok c (set_state pid f db)"
proof -
  have "balances_ok (set_state pid f db)"
    by (rule balances_ok_set_state) (use assms db_okD in blast)+
  then show ?thesis
    using assms keys_ok_set_state [OF assms(2), of pid db] refs_ok_set_state [OF _ assms(2), of db pid]
    by (simp add: db_ok_def stock_ok_def slots_ok_def frame_simps)
qed

lemma db_ok_ApplyGrowth:
  assumes "db_ok c db" and "ApplyGrowth c ft now sqlnow pid db = Inr db'"
  shows "db_ok c db'"
proof -
  note g = ApplyGrowth_lookups [OF assms(2)]
  obtain t u where "db' = db\<lparr>player_states := t, wish_cairn_slots := u\<rparr>" using g(3) by blast
  then have "stock_ok db' = stock_ok db" by (simp add: stock_ok_def)
  then show ?thesis
    using assms(1) ApplyGrowth_keys [OF assms(2)] g(6,7) ApplyGrowth_slots_ok [OF assms(2)]
    by (simp add: db_ok_def)
qed

text \<open>An update of one row to a given row, as the accrue-and-deduct statement does it.\<close>

lemma db_ok_accrue_deduct:
  assumes "db_ok c db" and "accrue_deduct now cost pid db = Inr (db', r')"
  shows "db_ok c db'"
proof -
  obtain r where r: "state_of db pid = Some r" "fle cost (accrued_balance now r)"
    "r' = r\<lparr>enlightenment_pts := fsub (accrued_balance now r) cost, last_sync_at := Some now\<rparr>"
    "db' = set_state pid (\<lambda>_. r') db" "s_player r' = pid" "enlightenment_pts r' \<noteq> NaN"
    using accrue_deduct_set_state [OF db_okD(1) [OF assms(1)] assms(2)] by metis
  let ?f = "\<lambda>x. if s_player x = pid then r' else x"
  have "db' = set_state pid ?f db"
    unfolding r(4) set_state_def sql_update_def by simp
  moreover have "fle (Fin 0) (enlightenment_pts r')"
    using fsub_nonneg_any [OF r(2)] r(3,6) by simp
  ultimately show ?thesis
    using db_ok_set_state [OF assms(1), of ?f pid] r(5) by simp
qed

lemma refs_ok_new_slot:
  "refs_ok db \<Longrightarrow> has_player db pid \<Longrightarrow> refs_ok (db\<lparr>wish_cairn_slots := wish_cairn_slots db @ [new_slot pid i s]\<rparr>)"
  by (simp add: refs_ok_def has_player_def new_slot_def)

text \<open>The slots of one player are added and all others are kept; on success every index has one.\<close>

lemma InitializeSlots_effect:
  assumes "InitializeSlots c ft pid now db = (r, db')"
  shows "\<exists>new. db' = db\<lparr>wish_cairn_slots := wish_cairn_slots db @ new\<rparr> \<and> (\<forall>s \<in> set new. slot_player s = pid)"
    and "r = Inr () \<Longrightarrow> 0 \<le> i \<Longrightarrow> i < SlotCount c \<Longrightarrow> slot_of db' pid i \<noteq> None"
proof -
  let ?is = "[0..SlotCount c - 1]"
  have "(\<exists>new. db' = db\<lparr>wish_cairn_slots := wish_cairn_slots db @ new\<rparr> \<and> (\<forall>s \<in> set new. slot_player s = pid)) \<and>
    (r = Inr () \<longrightarrow> 0 \<le> i \<longrightarrow> i < SlotCount c \<longrightarrow> slot_of db' pid i \<noteq> None)"
  proof (cases "PhaseOffset c")
    case None
    with assms have "db' = db" "r \<noteq> Inr ()" by (auto simp: InitializeSlots_def)
    then show ?thesis by (auto intro: exI [of _ "[]"])
  next
    case (Some phase)
    have db': "db' = snd (init_slots ft pid now phase ?is db)"
      and r: "r = lift_sql (fst (init_slots ft pid now phase ?is db))"
      using assms Some by (auto simp: InitializeSlots_def split: prod.splits)
    have "\<exists>new. db' = db\<lparr>wish_cairn_slots := wish_cairn_slots db @ new\<rparr> \<and> (\<forall>s \<in> set new. slot_player s = pid)"
      using init_slots_extends [of ft pid now phase ?is db] unfolding db' by blast
    moreover have "slot_of db' pid i \<noteq> None" if "r = Inr ()" "0 \<le> i" "i < SlotCount c"
      using that init_slots_complete [of ft pid now phase ?is db i] unfolding db' r lift_sql_eq_Inr by simp
    ultimately show ?thesis by blast
  qed
  then show "\<exists>new. db' = db\<lparr>wish_cairn_slots := wish_cairn_slots db @ new\<rparr> \<and> (\<forall>s \<in> set new. slot_player s = pid)"
    and "r = Inr () \<Longrightarrow> 0 \<le> i \<Longrightarrow> i < SlotCount c \<Longrightarrow> slot_of db' pid i \<noteq> None"
    by blast+
qed

lemma db_ok_InitializeSlots:
  assumes "db_ok c db" and "0 \<le> MaxLayers c" and "InitializeSlots k ft pid now db = (r, db')"
  shows "db_ok c db'"
proof (cases "PhaseOffset k")
  case None
  with assms show ?thesis by (simp add: InitializeSlots_def)
next
  case (Some phase)
  have step: "db_ok c (d\<lparr>wish_cairn_slots := wish_cairn_slots d @ [new_slot pid i s]\<rparr>)"
    if "db_ok c d" "slot_of d pid i = None" "has_player d pid" for d i s
    using that assms(2) keys_ok_new_slot [of d pid i s] refs_ok_new_slot [of d pid i s]
    by (simp add: db_ok_def balances_ok_def stock_ok_def slots_ok_def new_slot_def)
  have "db_ok c (snd (init_slots ft pid now phase [0..SlotCount k - 1] db))"
    by (rule init_slots_preserve [where P = "db_ok c"]) (use step assms(1) in blast)+
  moreover have "db' = snd (init_slots ft pid now phase [0..SlotCount k - 1] db)"
    using assms(3) Some by (auto simp: InitializeSlots_def split: prod.splits)
  ultimately show ?thesis by simp
qed

lemma db_ok_ApplyGrowthTx:
  assumes "db_ok c db" and "ApplyGrowthTx c txft ft now sqlnow pid db = (r, db')"
  shows "db_ok c db'"
  using assms db_ok_ApplyGrowth [OF assms(1), of ft now sqlnow pid]
  by (auto simp: ApplyGrowthTx_def split: if_splits sum.splits)

end
