(* ===== verification/Gacha.thy ===== *)
theory Gacha
  imports DbInvariant SkinPool KvStore
begin

text \<open>
  The gacha handlers (\<open>internal/gacha/gacha.go\<close>) and the grant of an item
  (\<open>internal/gacha/grant.go\<close>). A pull runs in one transaction: the cooldown gate, the cairn
  growth, the claim of a complete slot, the accrue-and-deduct, the roll, the grant and the log;
  each stage is one definition. Its result is kept only when the commit succeeds. The handlers
  take the key-value store as a record of operations, as the Go handler takes an interface.
\<close>

section \<open>Granting an item\<close>

definition ItemTypeStoneSkin :: string where "ItemTypeStoneSkin = ''stone_skin''"
definition SourceWishCairn :: string where "SourceWishCairn = ''wish_cairn''"
definition SourceVowReward :: string where "SourceVowReward = ''vow_reward''"

record reward_grant =
  grant_item :: string
  grant_type :: string
  grant_rarity :: string
  grant_duplicate :: bool
  grant_count :: int
  grant_source :: string
  grant_acquired :: int

text \<open>
  The stacking UPSERT on \<open>(player_id, item_id)\<close>. \<open>newid\<close> is the fresh UUID; an identifier that is
  already taken violates the primary key.
\<close>

definition GrantItem ::
  "bool \<Rightarrow> int \<Rightarrow> string \<Rightarrow> string \<Rightarrow> string \<Rightarrow> string \<Rightarrow> string \<Rightarrow> string \<Rightarrow> database \<Rightarrow>
   sql_error + reward_grant \<times> database" where
  "GrantItem fault sqlnow newid pid item r itemType sourceType db =
     (if fault then Inl DbError
      else if list_ex (\<lambda>x. inv_id x = newid) (inventories db) then Inl DbError
      else if \<not> has_player db pid then Inl DbError
      else
        let reply = (\<lambda>n since. \<lparr>grant_item = item, grant_type = itemType, grant_rarity = r,
              grant_duplicate = (n > 1), grant_count = n, grant_source = sourceType, grant_acquired = since\<rparr>)
        in case inv_of db pid item of
             Some x \<Rightarrow>
               Inr (reply (item_count x + 1) (acquired_at x),
                 db\<lparr>inventories := sql_update (\<lambda>y. inv_player y = pid \<and> item_id y = item)
                      (\<lambda>y. y\<lparr>item_count := item_count y + 1\<rparr>) (inventories db)\<rparr>)
           | None \<Rightarrow>
               Inr (reply 1 sqlnow,
                 db\<lparr>inventories := inventories db @
                      [\<lparr>inv_id = newid, inv_player = pid, item_id = item, rarity = r, item_count = 1,
                        item_type = itemType, source_type = sourceType, acquired_at = sqlnow\<rparr>]\<rparr>))"

section \<open>The pull transaction\<close>

record gacha_config =
  PullCost :: f64
  Cooldown :: int

text \<open>
  The surroundings of one pull: the reading of \<open>time.Now\<close>, SQLite's clock at the statements that
  read it, the faults of the data base calls and of those of the growth, fresh identifiers, and
  the random bytes.
\<close>

record pull_env =
  e_now :: int
  e_sqlnow :: "nat \<Rightarrow> int"
  e_fault :: faults
  e_growth_fault :: faults
  e_uuid :: "nat \<Rightarrow> string"
  e_rand :: "8 word list option"

datatype pull_error =
  InsufficientPoints | CairnIncomplete | CairnSlotNotFound | CooldownActive | PullFailed | PullPanic

record pull_response =
  pr_item :: string
  pr_rarity :: string
  pr_duplicate :: bool
  pr_refund :: f64
  pr_next_gacha_at :: int
  pr_balance_after :: f64
  pr_last_sync_at :: int
  pr_new_count :: int
  pr_source :: string
  pr_reward :: reward_grant

text \<open>The instant that the transaction uses, and the one at which the next pull is allowed.\<close>

definition pull_now :: "pull_env \<Rightarrow> int" where
  "pull_now env = truncate_second (e_now env)"

definition next_pull :: "gacha_config \<Rightarrow> pull_env \<Rightarrow> int" where
  "next_pull cfg env = pull_now env + Cooldown cfg"

text \<open>Step 0a: the cooldown gate, a compare-and-set on \<open>next_gacha_at\<close>.\<close>

definition cooldown_gate :: "gacha_config \<Rightarrow> pull_env \<Rightarrow> string \<Rightarrow> database \<Rightarrow> pull_error + database" where
  "cooldown_gate cfg env pid db =
     (let P = (\<lambda>r. s_player r = pid \<and>
            (case next_gacha_at r of None \<Rightarrow> True | Some t \<Rightarrow> t \<le> unix (pull_now env)))
      in if e_fault env 1 then Inl PullFailed
         else if sql_affected P (player_states db) = 0 then Inl CooldownActive
         else Inr (db\<lparr>player_states := sql_update P
                (\<lambda>r. r\<lparr>next_gacha_at := Some (unix (next_pull cfg env)), updated_at := e_sqlnow env 0\<rparr>)
                (player_states db)\<rparr>))"

definition grow_in_pull :: "cairn_config \<Rightarrow> pull_env \<Rightarrow> string \<Rightarrow> database \<Rightarrow> pull_error + database" where
  "grow_in_pull c env pid db =
     (case ApplyGrowth c (e_growth_fault env) (pull_now env) (e_sqlnow env 1) pid db of
        Inl _ \<Rightarrow> Inl PullFailed | Inr db' \<Rightarrow> Inr db')"

text \<open>Step 0: claim and reset the slot when it is complete.\<close>

definition claim_slot :: "cairn_config \<Rightarrow> pull_env \<Rightarrow> string \<Rightarrow> int \<Rightarrow> database \<Rightarrow> pull_error + database" where
  "claim_slot c env pid i db =
     (let P = (\<lambda>r. slot_player r = pid \<and> slot_index r = i \<and> layer_count r \<ge> MaxLayers c);
          t = unix (pull_now env)
      in if e_fault env 2 then Inl PullFailed
         else if sql_affected P (wish_cairn_slots db) = 0
         then (case LoadSlotLayerCount (e_fault env 3) pid i db of
                 Inl ErrNoRows \<Rightarrow> Inl CairnSlotNotFound
               | Inl DbError \<Rightarrow> Inl PullFailed
               | Inr _ \<Rightarrow> Inl CairnIncomplete)
         else Inr (db\<lparr>wish_cairn_slots := sql_update P
                (\<lambda>r. r\<lparr>layer_count := 0, started_at := t, claimed_at := Some t\<rparr>) (wish_cairn_slots db)\<rparr>))"

definition read_balance :: "bool \<Rightarrow> string \<Rightarrow> database \<Rightarrow> pull_error + f64" where
  "read_balance fault pid db =
     (case attempt fault (one_row (state_of db pid)) of
        Inl _ \<Rightarrow> Inl PullFailed | Inr st \<Rightarrow> Inr (enlightenment_pts st))"

text \<open>Steps 1 and 2: accrue and deduct.\<close>

definition pay_pull :: "gacha_config \<Rightarrow> pull_env \<Rightarrow> string \<Rightarrow> database \<Rightarrow> pull_error + database \<times> state_row" where
  "pay_pull cfg env pid db =
     (case attempt (e_fault env 5) (accrue_deduct (e_sqlnow env 2) (PullCost cfg) pid db) of
        Inl ErrNoRows \<Rightarrow> Inl InsufficientPoints
      | Inl DbError \<Rightarrow> Inl PullFailed
      | Inr x \<Rightarrow> Inr x)"

definition roll_pull ::
  "(8 word list \<Rightarrow> string) \<Rightarrow> skin_pool \<Rightarrow> pull_env \<Rightarrow> pull_error + roll_result" where
  "roll_pull digest pool env =
     (case Roll digest pool (e_rand env) of
        Inl RandFailed \<Rightarrow> Inl PullFailed | Inl RollPanic \<Rightarrow> Inl PullPanic | Inr res \<Rightarrow> Inr res)"

definition grant_pull :: "pull_env \<Rightarrow> string \<Rightarrow> roll_result \<Rightarrow> database \<Rightarrow> pull_error + reward_grant \<times> database" where
  "grant_pull env pid res db =
     (case GrantItem (e_fault env 6) (e_sqlnow env 3) (e_uuid env 0) pid (ItemID res) (Rarity res)
             ItemTypeStoneSkin SourceWishCairn db of
        Inl _ \<Rightarrow> Inl PullFailed | Inr x \<Rightarrow> Inr x)"

text \<open>Step 7: the log row. A REAL that is not a number is stored as NULL, which NOT NULL refuses.\<close>

definition log_pull ::
  "gacha_config \<Rightarrow> pull_env \<Rightarrow> string \<Rightarrow> roll_result \<Rightarrow> reward_grant \<Rightarrow> f64 \<Rightarrow> f64 \<Rightarrow> database \<Rightarrow>
   pull_error + database" where
  "log_pull cfg env pid res g before after db =
     (let accrued = fadd (fsub after before) (PullCost cfg)
      in if e_fault env 7 then Inl PullFailed
         else if list_ex (\<lambda>l. gl_id l = e_uuid env 1) (gacha_logs db) \<or> \<not> has_player db pid then Inl PullFailed
         else if PullCost cfg = NaN \<or> before = NaN \<or> after = NaN \<or> accrued = NaN then Inl PullFailed
         else Inr (db\<lparr>gacha_logs := gacha_logs db @
                [\<lparr>gl_id = e_uuid env 1, gl_player = pid, gl_item_id = ItemID res, gl_rarity = Rarity res,
                  gl_is_duplicate = grant_duplicate g, gl_refund_points = Fin 0, gl_cost_points = PullCost cfg,
                  gl_seed_hash = SeedHash res, gl_pulled_at = e_sqlnow env 4, gl_balance_before = before,
                  gl_balance_after = after, gl_accrued_pts = accrued\<rparr>]\<rparr>))"

text \<open>\<open>execPull\<close>: the result of the transaction, and the data base that it would commit.\<close>

definition pull_tx ::
  "gacha_config \<Rightarrow> cairn_config \<Rightarrow> (8 word list \<Rightarrow> string) \<Rightarrow> skin_pool \<Rightarrow> pull_env \<Rightarrow> string \<Rightarrow> int \<Rightarrow>
   database \<Rightarrow> pull_error + pull_response \<times> database" where
  "pull_tx cfg c digest pool env pid i db =
     bindE (cooldown_gate cfg env pid db) (\<lambda>db1.
     bindE (grow_in_pull c env pid db1) (\<lambda>db2.
     bindE (claim_slot c env pid i db2) (\<lambda>db3.
     bindE (read_balance (e_fault env 4) pid db3) (\<lambda>before.
     bindE (pay_pull cfg env pid db3) (\<lambda>(db4, st).
     bindE (roll_pull digest pool env) (\<lambda>res.
     bindE (grant_pull env pid res db4) (\<lambda>(g, db5).
     bindE (log_pull cfg env pid res g before (enlightenment_pts st) db5) (\<lambda>db6.
       Inr (\<lparr>pr_item = ItemID res, pr_rarity = Rarity res, pr_duplicate = grant_duplicate g,
             pr_refund = Fin 0, pr_next_gacha_at = next_pull cfg env,
             pr_balance_after = enlightenment_pts st, pr_last_sync_at = e_sqlnow env 2,
             pr_new_count = grant_count g, pr_source = SourceWishCairn, pr_reward = g\<rparr>, db6)))))))))"

definition execPull ::
  "gacha_config \<Rightarrow> cairn_config \<Rightarrow> (8 word list \<Rightarrow> string) \<Rightarrow> skin_pool \<Rightarrow> pull_env \<Rightarrow> string \<Rightarrow> int \<Rightarrow>
   database \<Rightarrow> (pull_error + pull_response) \<times> database" where
  "execPull cfg c digest pool env pid i db =
     (if e_fault env 0 then (Inl PullFailed, db)
      else case pull_tx cfg c digest pool env pid i db of
             Inl e \<Rightarrow> (Inl e, db)
           | Inr (resp, db') \<Rightarrow> if e_fault env 8 then (Inl PullFailed, db) else (Inr resp, db'))"

section \<open>The handlers\<close>

definition cooldown_key :: "string \<Rightarrow> string" where
  "cooldown_key pid = ''gacha:cooldown:'' @ pid"

text \<open>
  \<open>getNextGachaAt\<close>: the key-value store first, the data base on a miss or on a value that does not
  parse. \<open>clk\<close> holds the clock readings: at the Get, at the comparison, at the Set.
\<close>

datatype lookup_error = LookupFailed

definition getNextGachaAt ::
  "'s kv_ops \<Rightarrow> bool \<Rightarrow> clock \<Rightarrow> string \<Rightarrow> 's \<Rightarrow> database \<Rightarrow> (lookup_error + int option) \<times> 's" where
  "getNextGachaAt ops fault clk pid s db =
     (let fallback = (\<lambda>s1.
            if fault then (Inl LookupFailed, s1)
            else
              let nextAt = Option.bind (state_of db pid) (\<lambda>st. map_option of_unix (next_gacha_at st))
              in case nextAt of
                   None \<Rightarrow> (Inr None, s1)
                 | Some t \<Rightarrow>
                     if clk 1 < t
                     then (Inr (Some t), snd (kv_set ops (clk 2) (cooldown_key pid)
                             (format_rfc3339 (unix t)) (time_sub t (clk 2)) s1))
                     else (Inr (Some t), s1))
      in case kv_get ops (clk 0) (cooldown_key pid) s of
           (Inr v, s1) \<Rightarrow>
             (case parse_time RFC3339 v of Some t \<Rightarrow> (Inr (Some t), s1) | None \<Rightarrow> fallback s1)
         | (Inl NotFound, s1) \<Rightarrow> fallback s1
         | (Inl KvFail, s1) \<Rightarrow> (Inl LookupFailed, s1))"

record status_response =
  CanPull :: bool
  NextGachaAt :: "int option"

definition Status ::
  "'s kv_ops \<Rightarrow> bool \<Rightarrow> clock \<Rightarrow> string \<Rightarrow> 's \<Rightarrow> database \<Rightarrow> status_response answer \<times> 's" where
  "Status ops fault clk pid s db =
     (case getNextGachaAt ops fault clk pid s db of
        (Inl _, s1) \<Rightarrow> (internal_error, s1)
      | (Inr nextAt, s1) \<Rightarrow>
          let canPull = (case nextAt of None \<Rightarrow> True | Some t \<Rightarrow> \<not> clk 3 < t)
          in (OK \<lparr>CanPull = canPull, NextGachaAt = (if canPull then None else nextAt)\<rparr>, s1))"

definition setCooldown :: "'s kv_ops \<Rightarrow> gacha_config \<Rightarrow> int \<Rightarrow> string \<Rightarrow> int \<Rightarrow> 's \<Rightarrow> 's" where
  "setCooldown ops cfg t pid nextAt s =
     snd (kv_set ops t (cooldown_key pid) (format_rfc3339 (unix nextAt)) (Cooldown cfg) s)"

text \<open>
  \<open>Pull\<close>. The request's slot is \<open>None\<close> when the body does not bind. The pre-transaction check is
  only the fast path; a tx-gate refusal asks for the next time again, for the answer's body.
\<close>

fun pull_rejection :: "pull_error \<Rightarrow> 'a answer" where
  "pull_rejection CooldownActive = Reject 429 ''COOLDOWN_ACTIVE''"
| "pull_rejection InsufficientPoints = Reject 409 ''INSUFFICIENT_POINTS''"
| "pull_rejection CairnIncomplete = Reject 403 ''CAIRN_INCOMPLETE''"
| "pull_rejection CairnSlotNotFound = Reject 404 ''CAIRN_SLOT_NOT_FOUND''"
| "pull_rejection PullFailed = internal_error"
| "pull_rejection PullPanic = internal_error"

definition Pull ::
  "'s kv_ops \<Rightarrow> gacha_config \<Rightarrow> cairn_config \<Rightarrow> (8 word list \<Rightarrow> string) \<Rightarrow> skin_pool \<Rightarrow> pull_env \<Rightarrow>
   (nat \<Rightarrow> bool) \<Rightarrow> clock \<Rightarrow> string \<Rightarrow> int option \<Rightarrow> 's \<Rightarrow> database \<Rightarrow> pull_response answer \<times> 's \<times> database" where
  "Pull ops cfg c digest pool env lookup_fault clk pid slot s db =
     (case slot of
        None \<Rightarrow> (Reject 400 ''INVALID_REQUEST'', s, db)
      | Some i \<Rightarrow>
          if i < 0 \<or> i \<ge> SlotCount c then (Reject 400 ''INVALID_SLOT'', s, db)
          else case getNextGachaAt ops (lookup_fault 0) clk pid s db of
                 (Inl _, s1) \<Rightarrow> (internal_error, s1, db)
               | (Inr nextAt, s1) \<Rightarrow>
                   if (case nextAt of None \<Rightarrow> False | Some t \<Rightarrow> clk 3 < t)
                   then (Reject 429 ''COOLDOWN_ACTIVE'', s1, db)
                   else case execPull cfg c digest pool env pid i db of
                          (Inl e, db') \<Rightarrow>
                            (pull_rejection e,
                             if e = CooldownActive
                             then snd (getNextGachaAt ops (lookup_fault 1) (\<lambda>k. clk (k + 4)) pid s1 db') else s1,
                             db')
                        | (Inr resp, db') \<Rightarrow>
                            (OK resp, setCooldown ops cfg (clk 8) pid (pr_next_gacha_at resp) s1, db'))"

section \<open>The log listing\<close>

record log_entry =
  le_item :: string
  le_rarity :: string
  le_duplicate :: bool
  le_refund :: f64
  le_cost :: f64
  le_pulled_at :: int

record logs_response =
  lr_logs :: "log_entry list"
  lr_total :: int

definition entry_of_log :: "gacha_log \<Rightarrow> log_entry" where
  "entry_of_log l = \<lparr>le_item = gl_item_id l, le_rarity = gl_rarity l, le_duplicate = gl_is_duplicate l,
     le_refund = gl_refund_points l, le_cost = gl_cost_points l, le_pulled_at = gl_pulled_at l\<rparr>"

text \<open>The rows of a player, newest first (\<open>ORDER BY pulled_at DESC\<close> along the index).\<close>

definition logs_of :: "database \<Rightarrow> string \<Rightarrow> gacha_log list" where
  "logs_of db pid = sort_key (\<lambda>l. - gl_pulled_at l) (filter (\<lambda>l. gl_player l = pid) (gacha_logs db))"

definition page_params :: "string \<Rightarrow> string \<Rightarrow> int \<times> int" where
  "page_params p l =
     (let page = Atoi p; limit = Atoi l
      in (if page < 1 then 1 else page, if limit < 1 \<or> limit > 100 then 20 else limit))"

definition Logs ::
  "(nat \<Rightarrow> bool) \<Rightarrow> string option \<Rightarrow> string option \<Rightarrow> string \<Rightarrow> database \<Rightarrow> logs_response answer" where
  "Logs ft p l pid db =
     (let (page, limit) = page_params (case p of None \<Rightarrow> ''1'' | Some x \<Rightarrow> x) (case l of None \<Rightarrow> ''20'' | Some x \<Rightarrow> x);
          offset = wrap64 (wrap64 (page - 1) * limit)
      in if ft 0 then internal_error
         else if ft 1 then internal_error
         else OK \<lparr>lr_logs = map entry_of_log (take (nat limit) (drop (nat offset) (logs_of db pid))),
                  lr_total = int (length (logs_of db pid))\<rparr>)"

section \<open>What the grant does\<close>

lemma inv_of_key: "inv_of db q x = find (\<lambda>r. (inv_player r, item_id r) = (q, x)) (inventories db)"
  by (simp add: inv_of_def)

lemma inv_ofD: "inv_of db q x = Some r \<Longrightarrow> r \<in> set (inventories db) \<and> inv_player r = q \<and> item_id r = x"
  unfolding inv_of_def by (auto dest: find_SomeD)

definition bump_item :: "string \<Rightarrow> string \<Rightarrow> database \<Rightarrow> database" where
  "bump_item pid x db = db\<lparr>inventories := sql_update (\<lambda>y. inv_player y = pid \<and> item_id y = x)
     (\<lambda>y. y\<lparr>item_count := item_count y + 1\<rparr>) (inventories db)\<rparr>"

lemma inv_of_bump:
  "inv_of (bump_item pid x db) q y =
    map_option (\<lambda>r. if q = pid \<and> y = x then r\<lparr>item_count := item_count r + 1\<rparr> else r) (inv_of db q y)"
proof -
  let ?f = "\<lambda>y :: inv_row. y\<lparr>item_count := item_count y + 1\<rparr>" and ?P = "\<lambda>y. inv_player y = pid \<and> item_id y = x"
  have "inv_of (bump_item pid x db) q y = map_option (\<lambda>r. if ?P r then ?f r else r) (inv_of db q y)"
    unfolding inv_of_key bump_item_def
    using find_sql_update_key [of "\<lambda>r. (inv_player r, item_id r)" ?f "(q, y)" ?P "inventories db"] by simp
  then show ?thesis by (cases "inv_of db q y") (auto dest: inv_ofD)
qed

lemma inv_of_append:
  "inv_of (db\<lparr>inventories := inventories db @ [r]\<rparr>) q y =
    (case inv_of db q y of Some s \<Rightarrow> Some s | None \<Rightarrow> if inv_player r = q \<and> item_id r = y then Some r else None)"
proof -
  have "find P (xs @ ys) = (case find P xs of Some s \<Rightarrow> Some s | None \<Rightarrow> find P ys)"
    for P and xs ys :: "inv_row list" by (induction xs) auto
  then show ?thesis by (auto simp: inv_of_def split: option.split)
qed

text \<open>Exactly one more copy of the item, for the one player; the reply tells the new count.\<close>

lemma GrantItem_effect:
  assumes "GrantItem fault sqlnow newid pid item r itemType sourceType db = Inr (g, db')"
  shows "owned db' q x = owned db q x + (if q = pid \<and> x = item then 1 else 0)"
    and "grant_count g = owned db' pid item" and "grant_duplicate g \<longleftrightarrow> 1 < owned db' pid item"
    and "grant_item g = item" and "grant_rarity g = r" and "grant_type g = itemType" and "grant_source g = sourceType"
    and "\<exists>t. db' = db\<lparr>inventories := t\<rparr>"
proof -
  have "owned db' q x = owned db q x + (if q = pid \<and> x = item then 1 else 0) \<and>
    grant_count g = owned db' pid item \<and> (grant_duplicate g \<longleftrightarrow> 1 < owned db' pid item) \<and>
    grant_item g = item \<and> grant_rarity g = r \<and> grant_type g = itemType \<and> grant_source g = sourceType \<and>
    (\<exists>t. db' = db\<lparr>inventories := t\<rparr>)"
  proof (cases "inv_of db pid item")
    case None
    let ?row = "\<lparr>inv_id = newid, inv_player = pid, item_id = item, rarity = r, item_count = 1,
      item_type = itemType, source_type = sourceType, acquired_at = sqlnow\<rparr>"
    have db': "db' = db\<lparr>inventories := inventories db @ [?row]\<rparr>" and
      g: "g = \<lparr>grant_item = item, grant_type = itemType, grant_rarity = r, grant_duplicate = False,
        grant_count = 1, grant_source = sourceType, grant_acquired = sqlnow\<rparr>"
      using assms None by (auto simp: GrantItem_def split: if_splits)
    have "owned db' q x = owned db q x + (if q = pid \<and> x = item then 1 else 0)" for q x
      unfolding owned_def db' inv_of_append using None by (auto split: option.split)
    moreover have "owned db pid item = 0" using None by (simp add: owned_def)
    ultimately show ?thesis using g db' by auto
  next
    case (Some y)
    have db': "db' = bump_item pid item db" and
      g: "g = \<lparr>grant_item = item, grant_type = itemType, grant_rarity = r, grant_duplicate = (item_count y + 1 > 1),
        grant_count = item_count y + 1, grant_source = sourceType, grant_acquired = acquired_at y\<rparr>"
      using assms Some by (auto simp: GrantItem_def bump_item_def split: if_splits)
    have "owned db' q x = owned db q x + (if q = pid \<and> x = item then 1 else 0)" for q x
      unfolding owned_def db' inv_of_bump using Some by (auto split: option.split)
    moreover have "owned db pid item = item_count y" using Some by (simp add: owned_def)
    moreover have "\<exists>t. db' = db\<lparr>inventories := t\<rparr>" unfolding db' bump_item_def by blast
    ultimately show ?thesis using g by simp
  qed
  then show "owned db' q x = owned db q x + (if q = pid \<and> x = item then 1 else 0)"
    and "grant_count g = owned db' pid item" and "grant_duplicate g \<longleftrightarrow> 1 < owned db' pid item"
    and "grant_item g = item" and "grant_rarity g = r" and "grant_type g = itemType" and "grant_source g = sourceType"
    and "\<exists>t. db' = db\<lparr>inventories := t\<rparr>" by blast+
qed

lemma GrantItem_invariants:
  assumes "GrantItem fault sqlnow newid pid item r itemType sourceType db = Inr (g, db')"
  shows "keys_ok db \<Longrightarrow> keys_ok db'" and "stock_ok db \<Longrightarrow> stock_ok db'" and "refs_ok db \<Longrightarrow> refs_ok db'"
proof -
  have p: "has_player db pid" using assms by (auto simp: GrantItem_def split: if_splits)
  have "(keys_ok db \<longrightarrow> keys_ok db') \<and> (stock_ok db \<longrightarrow> stock_ok db') \<and> (refs_ok db \<longrightarrow> refs_ok db')"
  proof (cases "inv_of db pid item")
    case None
    then have fresh: "(pid, item) \<notin> (\<lambda>r. (inv_player r, item_id r)) ` set (inventories db)"
      by (auto simp: inv_of_def find_None_iff)
    have db': "db' = db\<lparr>inventories := inventories db @ [\<lparr>inv_id = newid, inv_player = pid, item_id = item, rarity = r, item_count = 1,
      item_type = itemType, source_type = sourceType, acquired_at = sqlnow\<rparr>]\<rparr>"
      using assms None by (auto simp: GrantItem_def split: if_splits)
    show ?thesis using fresh p by (simp add: db' keys_ok_def stock_ok_def refs_ok_def has_player_def)
  next
    case (Some y)
    have db': "db' = bump_item pid item db"
      using assms Some by (auto simp: GrantItem_def bump_item_def split: if_splits)
    have "keys_ok db' = keys_ok db" by (simp add: db' bump_item_def keys_ok_def map_key_sql_update)
    moreover have "stock_ok db \<longrightarrow> stock_ok db'"
      by (auto simp: db' bump_item_def stock_ok_def set_sql_update)
    moreover have "refs_ok db \<longrightarrow> refs_ok db'"
      by (auto simp: db' bump_item_def refs_ok_def has_player_def set_sql_update)
    ultimately show ?thesis by blast
  qed
  then show "keys_ok db \<Longrightarrow> keys_ok db'" and "stock_ok db \<Longrightarrow> stock_ok db'" and "refs_ok db \<Longrightarrow> refs_ok db'" by blast+
qed

section \<open>What the stages of a pull do\<close>

lemma cooldown_gate_Inr:
  assumes "keys_ok db" and "cooldown_gate cfg env pid db = Inr db1"
  obtains st where "state_of db pid = Some st"
    and "case next_gacha_at st of None \<Rightarrow> True | Some t \<Rightarrow> t \<le> unix (pull_now env)"
    and "db1 = set_state pid (\<lambda>r. r\<lparr>next_gacha_at := Some (unix (next_pull cfg env)), updated_at := e_sqlnow env 0\<rparr>) db"
proof -
  let ?Q = "\<lambda>r. case next_gacha_at r of None \<Rightarrow> True | Some t \<Rightarrow> t \<le> unix (pull_now env)"
  let ?f = "\<lambda>r. r\<lparr>next_gacha_at := Some (unix (next_pull cfg env)), updated_at := e_sqlnow env 0\<rparr>"
  from assms(2) have hit: "sql_affected (\<lambda>r. s_player r = pid \<and> ?Q r) (player_states db) \<noteq> 0"
    and db1: "db1 = db\<lparr>player_states := sql_update (\<lambda>r. s_player r = pid \<and> ?Q r) ?f (player_states db)\<rparr>"
    unfolding cooldown_gate_def Let_def if_Inl_eq_Inr by blast+
  show thesis
  proof (rule guarded_update [OF assms(1) hit])
    fix st assume st: "state_of db pid = Some st" "?Q st"
      and eq: "\<And>f. db\<lparr>player_states := sql_update (\<lambda>r. s_player r = pid \<and> ?Q r) f (player_states db)\<rparr> = set_state pid f db"
    show thesis using st by (rule that) (simp only: db1 eq)
  qed
qed

text \<open>The claim takes a complete slot, empties it, and touches no other slot.\<close>

lemma claim_slot_Inr:
  assumes "keys_ok db" and "claim_slot c env pid i db = Inr db'"
  obtains s t where "slot_of db pid i = Some s" and "MaxLayers c \<le> layer_count s"
    and "slot_of db' pid i = Some (s\<lparr>layer_count := 0, started_at := unix (pull_now env), claimed_at := Some (unix (pull_now env))\<rparr>)"
    and "\<And>q j. (q, j) \<noteq> (pid, i) \<Longrightarrow> slot_of db' q j = slot_of db q j"
    and "db' = db\<lparr>wish_cairn_slots := t\<rparr>" and "keys_ok db'"
    and "slots_ok c db \<Longrightarrow> 0 \<le> MaxLayers c \<Longrightarrow> slots_ok c db'" and "refs_ok db \<Longrightarrow> refs_ok db'"
proof -
  let ?P = "\<lambda>r. slot_player r = pid \<and> slot_index r = i \<and> layer_count r \<ge> MaxLayers c"
  let ?f = "\<lambda>r. r\<lparr>layer_count := 0, started_at := unix (pull_now env), claimed_at := Some (unix (pull_now env))\<rparr>"
  let ?t = "sql_update ?P ?f (wish_cairn_slots db)"
  have hit: "sql_affected ?P (wish_cairn_slots db) \<noteq> 0" and db': "db' = db\<lparr>wish_cairn_slots := ?t\<rparr>"
    using assms(2) unfolding claim_slot_def Let_def
    by (cases "sql_affected ?P (wish_cairn_slots db) = 0"; simp split: if_splits sum.splits sql_error.splits)+
  from hit obtain s where s: "s \<in> set (wish_cairn_slots db)" "?P s" by (auto simp: sql_affected_0_iff)
  then have of: "slot_of db pid i = Some s" using assms(1) by (simp add: slot_of_iff)
  have look: "slot_of db' q j = map_option (\<lambda>r. if ?P r then ?f r else r) (slot_of db q j)" for q j
    using find_sql_update_key [of "\<lambda>r. (slot_player r, slot_index r)" ?f "(q, j)" ?P "wish_cairn_slots db"]
    by (simp add: slot_of_key db')
  have own: "slot_of db' pid i = Some (?f s)" using of s(2) by (simp add: look)
  have other: "slot_of db' q j = slot_of db q j" if "(q, j) \<noteq> (pid, i)" for q j
    using that slot_ofD [of db q j] by (cases "slot_of db q j") (auto simp: look)
  have keys: "keys_ok db'" using assms(1) by (simp add: keys_ok_def db' map_key_sql_update)
  have sl: "slots_ok c db \<Longrightarrow> 0 \<le> MaxLayers c \<Longrightarrow> slots_ok c db'"
    by (auto simp: slots_ok_def db' set_sql_update)
  have refs: "refs_ok db \<Longrightarrow> refs_ok db'"
    by (auto simp: refs_ok_def has_player_def db' set_sql_update)
  show thesis
    using of _ own other db' keys sl refs by (rule that) (use s(2) in simp)
qed

lemma claim_slot_others:
  assumes "claim_slot c env pid i db = Inr db'" and "q \<noteq> pid"
  shows "slots_of db' q = slots_of db q"
proof -
  let ?P = "\<lambda>r. slot_player r = pid \<and> slot_index r = i \<and> layer_count r \<ge> MaxLayers c"
  let ?f = "\<lambda>r. r\<lparr>layer_count := 0, started_at := unix (pull_now env), claimed_at := Some (unix (pull_now env))\<rparr>"
  have "db' = db\<lparr>wish_cairn_slots := sql_update ?P ?f (wish_cairn_slots db)\<rparr>"
    using assms(1) unfolding claim_slot_def Let_def
    by (cases "sql_affected ?P (wish_cairn_slots db) = 0"; simp split: if_splits sum.splits sql_error.splits)
  moreover have "filter (\<lambda>r. slot_player r = q) (sql_update ?P ?f ts) = filter (\<lambda>r. slot_player r = q) ts" for ts
    by (rule filter_sql_update_other) (use assms(2) in auto)
  ultimately show ?thesis by (simp add: slots_of_def)
qed

lemma pay_pull_Inr: "pay_pull cfg env pid db = Inr x \<Longrightarrow> accrue_deduct (e_sqlnow env 2) (PullCost cfg) pid db = Inr x"
  unfolding pay_pull_def by (cases "e_fault env 5") (auto split: sum.splits sql_error.splits)

lemma read_balance_Inr: "read_balance fault pid db = Inr b \<Longrightarrow> \<exists>st. state_of db pid = Some st \<and> b = enlightenment_pts st"
  by (auto simp: read_balance_def run_simps split: sum.splits)

lemma grant_pull_Inr: "grant_pull env pid res db = Inr x \<Longrightarrow>
    GrantItem (e_fault env 6) (e_sqlnow env 3) (e_uuid env 0) pid (ItemID res) (Rarity res)
      ItemTypeStoneSkin SourceWishCairn db = Inr x"
  by (auto simp: grant_pull_def split: sum.splits)

lemma grow_in_pull_Inr: "grow_in_pull c env pid db = Inr db' \<Longrightarrow>
    ApplyGrowth c (e_growth_fault env) (pull_now env) (e_sqlnow env 1) pid db = Inr db'"
  by (auto simp: grow_in_pull_def split: sum.splits)

lemma roll_pull_Inr: "roll_pull digest pool env = Inr res \<Longrightarrow> Roll digest pool (e_rand env) = Inr res"
  by (auto simp: roll_pull_def split: sum.splits roll_error.splits)

text \<open>The log row that a pull appends.\<close>

definition pull_log :: "gacha_config \<Rightarrow> pull_env \<Rightarrow> string \<Rightarrow> roll_result \<Rightarrow> reward_grant \<Rightarrow> f64 \<Rightarrow> f64 \<Rightarrow> gacha_log" where
  "pull_log cfg env pid res g before after =
     \<lparr>gl_id = e_uuid env 1, gl_player = pid, gl_item_id = ItemID res, gl_rarity = Rarity res,
      gl_is_duplicate = grant_duplicate g, gl_refund_points = Fin 0, gl_cost_points = PullCost cfg,
      gl_seed_hash = SeedHash res, gl_pulled_at = e_sqlnow env 4, gl_balance_before = before,
      gl_balance_after = after, gl_accrued_pts = fadd (fsub after before) (PullCost cfg)\<rparr>"

lemma log_pull_Inr: "log_pull cfg env pid res g before after db = Inr db' \<Longrightarrow>
    db' = db\<lparr>gacha_logs := gacha_logs db @ [pull_log cfg env pid res g before after]\<rparr>"
  unfolding log_pull_def pull_log_def Let_def if_Inl_eq_Inr by simp

section \<open>The contract of a pull\<close>

text \<open>
  What a successful pull promises, without the stages: who may pull, what is paid, what is
  received, what is recorded, and that nothing else changes.
\<close>

definition may_pull :: "pull_env \<Rightarrow> state_row \<Rightarrow> bool" where
  "may_pull env st \<longleftrightarrow> (case next_gacha_at st of None \<Rightarrow> True | Some t \<Rightarrow> t \<le> unix (pull_now env))"

definition gate_write :: "gacha_config \<Rightarrow> pull_env \<Rightarrow> state_row \<Rightarrow> state_row" where
  "gate_write cfg env r = r\<lparr>next_gacha_at := Some (unix (next_pull cfg env)), updated_at := e_sqlnow env 0\<rparr>"

definition slot_was_full :: "gacha_config \<Rightarrow> cairn_config \<Rightarrow> pull_env \<Rightarrow> string \<Rightarrow> int \<Rightarrow> database \<Rightarrow> bool" where
  "slot_was_full cfg c env pid i db \<longleftrightarrow>
     (\<exists>db2 s. ApplyGrowth c (e_growth_fault env) (pull_now env) (e_sqlnow env 1) pid
          (set_state pid (gate_write cfg env) db) = Inr db2 \<and>
        slot_of db2 pid i = Some s \<and> MaxLayers c \<le> layer_count s)"

definition pays :: "gacha_config \<Rightarrow> pull_env \<Rightarrow> state_row \<Rightarrow> state_row \<Rightarrow> bool" where
  "pays cfg env st st' \<longleftrightarrow>
     fle (PullCost cfg) (accrued_balance (e_sqlnow env 2) st) \<and>
     enlightenment_pts st' = fsub (accrued_balance (e_sqlnow env 2) st) (PullCost cfg) \<and>
     last_sync_at st' = Some (e_sqlnow env 2) \<and>
     next_gacha_at st' = Some (unix (next_pull cfg env)) \<and>
     enlightenment_rate st' = enlightenment_rate st \<and> time_stone_count st' = time_stone_count st \<and>
     streak_days st' = streak_days st \<and> last_login_date st' = last_login_date st"

definition receives :: "string \<Rightarrow> pull_response \<Rightarrow> database \<Rightarrow> database \<Rightarrow> bool" where
  "receives pid resp db db' \<longleftrightarrow>
     (\<forall>q x. owned db' q x = owned db q x + (if q = pid \<and> x = pr_item resp then 1 else 0)) \<and>
     pr_new_count resp = owned db' pid (pr_item resp) \<and> (pr_duplicate resp \<longleftrightarrow> 1 < pr_new_count resp)"

definition records :: "gacha_config \<Rightarrow> string \<Rightarrow> f64 \<Rightarrow> pull_response \<Rightarrow> database \<Rightarrow> database \<Rightarrow> bool" where
  "records cfg pid before resp db db' \<longleftrightarrow>
     (\<exists>l. gacha_logs db' = gacha_logs db @ [l] \<and> gl_player l = pid \<and> gl_item_id l = pr_item resp \<and>
        gl_rarity l = pr_rarity resp \<and> gl_is_duplicate l = pr_duplicate resp \<and> gl_cost_points l = PullCost cfg \<and>
        gl_balance_before l = before \<and> gl_balance_after l = pr_balance_after resp \<and>
        gl_accrued_pts l = fadd (fsub (pr_balance_after resp) before) (PullCost cfg))"

definition others_untouched :: "string \<Rightarrow> database \<Rightarrow> database \<Rightarrow> bool" where
  "others_untouched pid db db' \<longleftrightarrow>
     (\<forall>q. q \<noteq> pid \<longrightarrow> state_of db' q = state_of db q \<and> slots_of db' q = slots_of db q) \<and>
     players db' = players db \<and> vow_logs db' = vow_logs db \<and>
     player_achievements db' = player_achievements db \<and>
     achievement_retry_queue db' = achievement_retry_queue db"

definition pull_contract ::
  "gacha_config \<Rightarrow> cairn_config \<Rightarrow> pull_env \<Rightarrow> string \<Rightarrow> int \<Rightarrow> database \<Rightarrow> pull_response \<Rightarrow> database \<Rightarrow> bool" where
  "pull_contract cfg c env pid i db resp db' \<longleftrightarrow>
     (\<exists>st st' s. state_of db pid = Some st \<and> state_of db' pid = Some st' \<and> may_pull env st \<and>
        slot_was_full cfg c env pid i db \<and> slot_of db' pid i = Some s \<and> layer_count s = 0 \<and>
        pays cfg env st st' \<and> pr_balance_after resp = enlightenment_pts st' \<and>
        pr_next_gacha_at resp = next_pull cfg env \<and>
        receives pid resp db db' \<and> records cfg pid (enlightenment_pts st) resp db db' \<and>
        others_untouched pid db db')"

text \<open>The stages of a successful transaction, in order.\<close>

lemma pull_tx_stages:
  assumes "pull_tx cfg c digest pool env pid i db = Inr (resp, db6)"
  obtains db1 db2 db3 db4 db5 before st res g where
    "cooldown_gate cfg env pid db = Inr db1" "grow_in_pull c env pid db1 = Inr db2"
    "claim_slot c env pid i db2 = Inr db3" "read_balance (e_fault env 4) pid db3 = Inr before"
    "pay_pull cfg env pid db3 = Inr (db4, st)" "roll_pull digest pool env = Inr res"
    "grant_pull env pid res db4 = Inr (g, db5)"
    "log_pull cfg env pid res g before (enlightenment_pts st) db5 = Inr db6"
    "resp = \<lparr>pr_item = ItemID res, pr_rarity = Rarity res, pr_duplicate = grant_duplicate g,
             pr_refund = Fin 0, pr_next_gacha_at = next_pull cfg env,
             pr_balance_after = enlightenment_pts st, pr_last_sync_at = e_sqlnow env 2,
             pr_new_count = grant_count g, pr_source = SourceWishCairn, pr_reward = g\<rparr>"
  using assms unfolding pull_tx_def bindE_eq_Inr
  by (elim exE conjE) (auto simp: bindE_eq_Inr intro: that)

lemma pull_tx_contract:
  assumes "keys_ok db" and "pull_tx cfg c digest pool env pid i db = Inr (resp, db6)"
  shows "pull_contract cfg c env pid i db resp db6"
  using assms(2)
proof (rule pull_tx_stages)
  fix db1 db2 db3 db4 db5 before st4 res g
  assume gate: "cooldown_gate cfg env pid db = Inr db1" and grow: "grow_in_pull c env pid db1 = Inr db2"
    and claim: "claim_slot c env pid i db2 = Inr db3" and bal: "read_balance (e_fault env 4) pid db3 = Inr before"
    and pay: "pay_pull cfg env pid db3 = Inr (db4, st4)" and roll: "roll_pull digest pool env = Inr res"
    and grant: "grant_pull env pid res db4 = Inr (g, db5)"
    and log: "log_pull cfg env pid res g before (enlightenment_pts st4) db5 = Inr db6"
    and resp: "resp = \<lparr>pr_item = ItemID res, pr_rarity = Rarity res, pr_duplicate = grant_duplicate g,
             pr_refund = Fin 0, pr_next_gacha_at = next_pull cfg env,
             pr_balance_after = enlightenment_pts st4, pr_last_sync_at = e_sqlnow env 2,
             pr_new_count = grant_count g, pr_source = SourceWishCairn, pr_reward = g\<rparr>"
  obtain st where st: "state_of db pid = Some st" "may_pull env st"
    and db1: "db1 = set_state pid (gate_write cfg env) db"
    using cooldown_gate_Inr [OF assms(1) gate] unfolding may_pull_def gate_write_def [abs_def] by metis
  have st1: "state_of db1 q = (if q = pid then map_option (gate_write cfg env) (state_of db q) else state_of db q)" for q
    unfolding db1 by (rule state_of_set_state) (simp add: gate_write_def)
  have k1: "keys_ok db1" unfolding db1 using assms(1) by (subst keys_ok_set_state) (simp_all add: gate_write_def)
  note grown = ApplyGrowth_lookups [OF grow_in_pull_Inr [OF grow]]
  obtain h where h: "\<And>q. state_of db2 q = map_option (\<lambda>st. st\<lparr>cairn_last_growth_at := h st\<rparr>) (state_of db1 q)"
    using grown(1) by blast
  obtain t2 u2 where db2: "db2 = db1\<lparr>player_states := t2, wish_cairn_slots := u2\<rparr>" using grown(3) by blast
  have k2: "keys_ok db2" using ApplyGrowth_keys [OF grow_in_pull_Inr [OF grow]] k1 by simp
  obtain s u3 where s: "slot_of db2 pid i = Some s" "MaxLayers c \<le> layer_count s"
    and s3: "slot_of db3 pid i = Some (s\<lparr>layer_count := 0, started_at := unix (pull_now env), claimed_at := Some (unix (pull_now env))\<rparr>)"
    and db3: "db3 = db2\<lparr>wish_cairn_slots := u3\<rparr>" and k3: "keys_ok db3"
    using claim_slot_Inr [OF k2 claim] by metis
  have slots3: "slots_of db3 q = slots_of db2 q" if "q \<noteq> pid" for q
    using claim_slot_others [OF claim that] .
  obtain r3 where r3: "state_of db3 pid = Some r3" "fle (PullCost cfg) (accrued_balance (e_sqlnow env 2) r3)"
    and st4: "st4 = r3\<lparr>enlightenment_pts := fsub (accrued_balance (e_sqlnow env 2) r3) (PullCost cfg),
        last_sync_at := Some (e_sqlnow env 2)\<rparr>" and db4: "db4 = set_state pid (\<lambda>_. st4) db3"
    and st4': "state_of db4 pid = Some st4" and p4: "s_player st4 = pid"
    using accrue_deduct_set_state [OF k3 pay_pull_Inr [OF pay]] by metis
  have r3': "r3 = (gate_write cfg env st)\<lparr>cairn_last_growth_at := h (gate_write cfg env st)\<rparr>"
    using r3(1) st(1) by (simp add: db3 frame_simps h st1)
  have acc: "accrued_balance (e_sqlnow env 2) r3 = accrued_balance (e_sqlnow env 2) st"
    by (rule accrued_balance_cong) (simp_all add: r3' gate_write_def)
  have before: "before = enlightenment_pts st"
    using read_balance_Inr [OF bal] r3(1) by (auto simp: r3' gate_write_def)
  note G = GrantItem_effect [OF grant_pull_Inr [OF grant]]
  obtain t5 where db5: "db5 = db4\<lparr>inventories := t5\<rparr>" using G(8) by blast
  note db6 = log_pull_Inr [OF log]
  have own4: "owned db4 q x = owned db q x" for q x
    by (simp add: owned_def inv_of_def db4 db3 db2 db1 set_state_def)
  have own6: "owned db6 q x = owned db5 q x" for q x
    by (simp add: owned_def inv_of_def db6)
  have "receives pid resp db db6"
    using G(1) G(2) G(3) by (simp add: receives_def own4 own6 resp)
  moreover have "records cfg pid (enlightenment_pts st) resp db db6"
    unfolding records_def
    by (rule exI [of _ "pull_log cfg env pid res g before (enlightenment_pts st4)"])
      (simp add: db6 db5 db4 db3 db2 db1 frame_simps pull_log_def resp before)
  moreover have "others_untouched pid db db6"
  proof -
    have "state_of db6 q = state_of db q" if "q \<noteq> pid" for q
    proof -
      have "state_of db6 q = state_of db4 q" by (simp add: db6 db5 frame_simps)
      also have "\<dots> = state_of db3 q"
        unfolding db4 set_state_def state_of_def using that p4
        by (simp add: find_sql_update_other)
      also have "\<dots> = state_of db2 q" by (simp add: db3 frame_simps)
      also have "\<dots> = state_of db q" using grown(2) [OF that] that by (simp add: st1)
      finally show ?thesis .
    qed
    moreover have "slots_of db6 q = slots_of db q" if "q \<noteq> pid" for q
    proof -
      have "slots_of db6 q = slots_of db3 q" by (simp add: db6 db5 db4 frame_simps set_state_def)
      also have "\<dots> = slots_of db1 q" using slots3 [OF that] grown(4) [OF that] by simp
      finally show ?thesis by (simp add: db1 frame_simps set_state_def)
    qed
    ultimately show ?thesis
      by (simp add: others_untouched_def db6 db5 db4 db3 db2 db1 set_state_def)
  qed
  moreover have "slot_of db6 pid i = slot_of db3 pid i" by (simp add: db6 db5 db4 frame_simps set_state_def)
  moreover have "state_of db6 pid = Some st4" using st4' by (simp add: db6 db5 frame_simps)
  moreover have "pays cfg env st st4"
    using r3(2) unfolding pays_def st4 acc by (simp add: r3' gate_write_def)
  moreover have "slot_was_full cfg c env pid i db"
    unfolding slot_was_full_def using grow_in_pull_Inr [OF grow] s db1 by blast
  ultimately show ?thesis
    unfolding pull_contract_def using st s3 resp by (intro exI [of _ st] exI [of _ st4]) simp
qed

section \<open>The invariant\<close>

lemma db_ok_pull_tx:
  assumes "db_ok c db" and "0 \<le> MaxLayers c" and "pull_tx cfg c digest pool env pid i db = Inr (resp, db6)"
  shows "db_ok c db6"
  using assms(3)
proof (rule pull_tx_stages)
  fix db1 db2 db3 db4 db5 before st4 res g
  assume gate: "cooldown_gate cfg env pid db = Inr db1" and grow: "grow_in_pull c env pid db1 = Inr db2"
    and claim: "claim_slot c env pid i db2 = Inr db3" and pay: "pay_pull cfg env pid db3 = Inr (db4, st4)"
    and grant: "grant_pull env pid res db4 = Inr (g, db5)"
    and log: "log_pull cfg env pid res g before (enlightenment_pts st4) db5 = Inr db6"
  obtain st where "db1 = set_state pid (gate_write cfg env) db"
    using cooldown_gate_Inr [OF db_okD(1) [OF assms(1)] gate] unfolding gate_write_def [abs_def] by metis
  then have ok1: "db_ok c db1" using db_ok_set_state [OF assms(1), of "gate_write cfg env" pid] by (simp add: gate_write_def)
  have ok2: "db_ok c db2" using db_ok_ApplyGrowth [OF ok1 grow_in_pull_Inr [OF grow]] .
  obtain u where db3: "db3 = db2\<lparr>wish_cairn_slots := u\<rparr>" and k: "keys_ok db3" "slots_ok c db3" "refs_ok db3"
    using claim_slot_Inr [OF db_okD(1) [OF ok2] claim] db_okD [OF ok2] assms(2) by metis
  have ok3: "db_ok c db3" using ok2 k by (simp add: db_ok_def db3 balances_ok_def stock_ok_def)
  have ok4: "db_ok c db4" using db_ok_accrue_deduct [OF ok3 pay_pull_Inr [OF pay]] .
  note G = GrantItem_invariants [OF grant_pull_Inr [OF grant]] and E = GrantItem_effect(8) [OF grant_pull_Inr [OF grant]]
  obtain t where db5: "db5 = db4\<lparr>inventories := t\<rparr>" using E by blast
  have ok5: "db_ok c db5"
    using G ok4 by (simp add: db_ok_def) (simp add: db5 balances_ok_def slots_ok_def)
  show ?thesis using ok5 log_pull_Inr [OF log]
    by (simp add: db_ok_def keys_ok_def refs_ok_def balances_ok_def stock_ok_def slots_ok_def has_player_def)
qed

section \<open>Answers and transactions\<close>

lemma execPull_Inl: "execPull cfg c digest pool env pid i db = (Inl e, db') \<Longrightarrow> db' = db"
  by (auto simp: execPull_def split: if_splits sum.splits)

lemma execPull_Inr:
  "execPull cfg c digest pool env pid i db = (Inr resp, db') \<Longrightarrow> pull_tx cfg c digest pool env pid i db = Inr (resp, db')"
  by (auto simp: execPull_def split: if_splits sum.splits)

lemma pull_rejection_not_OK [simp]: "pull_rejection e \<noteq> OK resp"
  by (cases e) simp_all

lemma Pull_OK:
  assumes "Pull ops cfg c digest pool env lf clk pid slot s db = (OK resp, s', db')"
  obtains i s1 where "slot = Some i" and "0 \<le> i" and "i < SlotCount c"
    and "execPull cfg c digest pool env pid i db = (Inr resp, db')"
    and "s' = setCooldown ops cfg (clk 8) pid (pr_next_gacha_at resp) s1"
proof -
  obtain i where i: "slot = Some i" "\<not> (i < 0 \<or> i \<ge> SlotCount c)"
    using assms by (cases slot) (auto simp: Pull_def split: if_splits)
  obtain look s1 where l: "getNextGachaAt ops (lf 0) clk pid s db = (look, s1)" by fastforce
  obtain nextAt where n: "look = Inr nextAt" using assms i l by (cases look) (simp_all add: Pull_def)
  obtain e d where x: "execPull cfg c digest pool env pid i db = (e, d)" by fastforce
  have "\<not> (case nextAt of None \<Rightarrow> False | Some t \<Rightarrow> clk 3 < t)"
    using assms i l n by (auto simp: Pull_def split: if_splits)
  then obtain r where r: "e = Inr r" using assms i l n x by (cases e) (auto simp: Pull_def)
  with assms i l n x \<open>\<not> (case nextAt of None \<Rightarrow> False | Some t \<Rightarrow> clk 3 < t)\<close>
  have "resp = r" "d = db'" "s' = setCooldown ops cfg (clk 8) pid (pr_next_gacha_at resp) s1"
    by (auto simp: Pull_def)
  with that i x r show thesis by simp
qed

section \<open>A run\<close>

text \<open>
  A player with 40 points and 100 seconds of accrual, two slots of which the first is complete;
  a pull that costs 100 points, and a second one after the cooldown.
\<close>

definition demo_pool :: skin_pool where
  "demo_pool = \<lparr>partsByRarity = (\<lambda>_. [''top'']), byPartRarity = (\<lambda>_ r. [''skin-'' @ r]), partTypes = [''top''],
     skinRarity = (\<lambda>_. None), stats = no_stats\<rparr>"

definition demo_env :: "int \<Rightarrow> string \<Rightarrow> pull_env" where
  "demo_env t u = \<lparr>e_now = t * second + 5, e_sqlnow = (\<lambda>_. t), e_fault = (\<lambda>_. False), e_growth_fault = (\<lambda>_. False),
     e_uuid = (\<lambda>k. if k = 0 then ''i'' @ u else ''g'' @ u), e_rand = Some (replicate 16 0)\<rparr>"

definition demo_gacha :: gacha_config where
  "demo_gacha = \<lparr>PullCost = Fin 100, Cooldown = 1800 * second\<rparr>"

definition demo_row :: state_row where
  "demo_row = demo_state\<lparr>cairn_last_growth_at := None\<rparr>"

definition demo_full :: database where
  "demo_full = demo_db\<lparr>player_states := [demo_row],
     wish_cairn_slots := [(new_slot ''p'' 0 100)\<lparr>layer_count := 5\<rparr>, new_slot ''p'' 1 70]\<rparr>"

definition demo_pull :: "int \<Rightarrow> pull_response answer \<times> mem_store \<times> database" where
  "demo_pull i = Pull mem_ops demo_gacha demo_cairn (\<lambda>_. []) demo_pool (demo_env 200 ''1'') (\<lambda>_. False)
     (\<lambda>_. 200 * second) ''p'' (Some i) NewMemStore demo_full"

lemma demo_pull_ok: "case demo_pull 0 of (OK resp, _, db) \<Rightarrow>
    pr_new_count resp = 1 \<and> pr_balance_after resp = Fin 40 \<and> pr_next_gacha_at resp = 2000 * second | _ \<Rightarrow> False"
  by code_simp

lemma demo_pull_rejected: "fst (demo_pull 1) = Reject 403 ''CAIRN_INCOMPLETE''"
  by code_simp

lemma demo_full_keys: "keys_ok demo_full"
  by (simp add: keys_ok_def demo_full_def demo_db_def empty_db_def new_slot_def)

lemma demo_full_ok: "db_ok demo_cairn demo_full"
  by (simp add: db_ok_def demo_full_keys refs_ok_def balances_ok_def stock_ok_def slots_ok_def)
    (simp add: demo_full_def demo_db_def empty_db_def new_slot_def demo_cairn_def has_player_def demo_row_def demo_state_def)

lemma demo_full_state: "state_of demo_full ''p'' = Some demo_row"
  by (simp add: state_of_def demo_full_def demo_row_def demo_state_def)

lemma demo_execPull:
  obtains resp db s where "demo_pull 0 = (OK resp, s, db)" and "pr_new_count resp = 1"
    and "pr_balance_after resp = Fin 40" and "pr_next_gacha_at resp = 2000 * second"
    and "execPull demo_gacha demo_cairn (\<lambda>_. []) demo_pool (demo_env 200 ''1'') ''p'' 0 demo_full = (Inr resp, db)"
proof -
  obtain a s db where d: "demo_pull 0 = (a, s, db)" by (metis prod_cases3)
  with demo_pull_ok obtain resp where a: "a = OK resp" and r: "pr_new_count resp = 1"
    "pr_balance_after resp = Fin 40" "pr_next_gacha_at resp = 2000 * second"
    by (cases a) simp_all
  from d [unfolded a demo_pull_def] obtain i where "Some (0::int) = Some i"
    "execPull demo_gacha demo_cairn (\<lambda>_. []) demo_pool (demo_env 200 ''1'') ''p'' i demo_full = (Inr resp, db)"
    by (rule Pull_OK)
  with that d a r show thesis by simp
qed

section \<open>Properties of a pull\<close>

lemma Pull_Reject:
  assumes "Pull ops cfg c digest pool env lf clk pid slot s db = (Reject status code, s', db')"
  shows "db' = db \<and> (status, code) \<in> {(400, ''INVALID_REQUEST''), (400, ''INVALID_SLOT''),
    (429, ''COOLDOWN_ACTIVE''), (409, ''INSUFFICIENT_POINTS''), (403, ''CAIRN_INCOMPLETE''),
    (404, ''CAIRN_SLOT_NOT_FOUND''), (500, ''INTERNAL_ERROR'')}"
proof (cases slot)
  case None
  with assms show ?thesis by (simp add: Pull_def)
next
  case (Some i)
  obtain look s1 where l: "getNextGachaAt ops (lf 0) clk pid s db = (look, s1)" by fastforce
  obtain e d where x: "execPull cfg c digest pool env pid i db = (e, d)" by fastforce
  consider "i < 0 \<or> i \<ge> SlotCount c" | a where "\<not> (i < 0 \<or> i \<ge> SlotCount c)" "look = Inl a"
    | n where "\<not> (i < 0 \<or> i \<ge> SlotCount c)" "look = Inr n" "case n of None \<Rightarrow> False | Some t \<Rightarrow> clk 3 < t"
    | n where "\<not> (i < 0 \<or> i \<ge> SlotCount c)" "look = Inr n" "\<not> (case n of None \<Rightarrow> False | Some t \<Rightarrow> clk 3 < t)"
    by (cases look) auto
  then show ?thesis
  proof cases
    case 4
    note def = assms [unfolded Pull_def Some option.case l if_not_P [OF 4(1)] prod.case 4(2) sum.case if_not_P [OF 4(3)] x]
    obtain a where a: "e = Inl a" using def by (cases e) simp_all
    then have "d = db" using x execPull_Inl by simp
    with def a show ?thesis by (cases a) simp_all
  qed (use assms Some l in \<open>auto simp: Pull_def\<close>)
qed





text \<open>
  A pull keeps the invariant of the data base, whatever the answer: keys and references,
  balances and counts that are not negative, layer counts within the maximum.
\<close>

theorem pull_keeps_invariant:
  assumes "db_ok c db" and "0 \<le> MaxLayers c"
    and "Pull ops cfg c digest pool env lf clk pid slot s db = (a, s', db')"
  shows "db_ok c db'"
proof (cases a)
  case (OK resp)
  with assms(3) have "Pull ops cfg c digest pool env lf clk pid slot s db = (OK resp, s', db')" by simp
  then show ?thesis
  proof (rule Pull_OK)
    fix i s1
    assume "execPull cfg c digest pool env pid i db = (Inr resp, db')"
    then show ?thesis using db_ok_pull_tx [OF assms(1,2) execPull_Inr] by blast
  qed
next
  case (Reject status code)
  with assms(1,3) Pull_Reject show ?thesis by metis
qed

theorem pull_keeps_invariant_witness: "db_ok demo_cairn (snd (snd (demo_pull 0)))"
proof -
  obtain a s db where d: "demo_pull 0 = (a, s, db)" by (metis prod_cases3)
  have "0 \<le> MaxLayers demo_cairn" by (simp add: demo_cairn_def)
  from pull_keeps_invariant [OF demo_full_ok this d [unfolded demo_pull_def]] d show ?thesis by simp
qed


text \<open>The second pull of the run comes after the cooldown, on the other slot, once it is complete.\<close>

definition demo_second :: "database \<Rightarrow> (pull_error + pull_response) \<times> database" where
  "demo_second db = execPull demo_gacha demo_cairn (\<lambda>_. []) demo_pool (demo_env 2100 ''2'') ''p'' 1
     (db\<lparr>wish_cairn_slots := map (\<lambda>s. s\<lparr>layer_count := 5\<rparr>) (wish_cairn_slots db)\<rparr>)"

lemma demo_second_ok: "\<not> isl (fst (demo_second (snd (snd (demo_pull 0)))))"
  by code_simp


text \<open>An economy in whole points small enough for a float to count exactly.\<close>

definition whole_points :: "gacha_config \<Rightarrow> pull_env \<Rightarrow> state_row \<Rightarrow> int \<Rightarrow> int \<Rightarrow> int \<Rightarrow> bool" where
  "whole_points cfg env st b a k \<longleftrightarrow>
     enlightenment_pts st = Fin (of_int b) \<and> accrual (e_sqlnow env 2) st = Fin (of_int a) \<and>
     PullCost cfg = Fin (of_int k) \<and> 0 \<le> b \<and> 0 \<le> a \<and> 0 \<le> k \<and> b + a + k \<le> 2 ^ 53"

text \<open>
  In whole points the audit trail of a pull is exact: the log row's accrual is the passive
  accrual, and balance before plus accrual minus cost is the balance after, with no rounding.
\<close>

theorem pull_log_exact:
  assumes "keys_ok db" and "execPull cfg c digest pool env pid i db = (Inr resp, db')"
    and "state_of db pid = Some st" and "whole_points cfg env st b a k"
  shows "k \<le> b + a \<and> (\<exists>l. gacha_logs db' = gacha_logs db @ [l] \<and> gl_balance_before l = Fin (of_int b) \<and>
    gl_accrued_pts l = Fin (of_int a) \<and> gl_cost_points l = Fin (of_int k) \<and>
    gl_balance_after l = Fin (of_int (b + a - k)))"
proof -
  note w = assms(4) [unfolded whole_points_def]
  have acc: "accrued_balance (e_sqlnow env 2) st = Fin (of_int (b + a))"
    using w fadd_int [of b a] by (simp add: accrued_balance_def)
  obtain st' where p: "pays cfg env st st'" and bal: "pr_balance_after resp = enlightenment_pts st'"
    and rec: "records cfg pid (enlightenment_pts st) resp db db'"
    using pull_tx_contract [OF assms(1) execPull_Inr [OF assms(2)]] assms(3) unfolding pull_contract_def by force
  have le: "k \<le> b + a" using p w unfolding pays_def acc by (simp flip: of_int_add)
  have after: "enlightenment_pts st' = Fin (of_int (b + a - k))"
    using p w fsub_int [of "b + a" k] le unfolding pays_def acc by simp
  have "fsub (Fin (of_int (b + a - k))) (Fin (of_int b)) = Fin (of_int (b + a - k - b))"
    by (rule fsub_int) (use w le in \<open>simp add: abs_le_iff\<close>)
  moreover have "fadd (Fin (of_int (a - k))) (Fin (of_int k)) = Fin (of_int (a - k + k))"
    by (rule fadd_int) (use w in simp)
  moreover have "b + a - k - b = a - k" "a - k + k = a" by simp_all
  ultimately have "fadd (fsub (Fin (of_int (b + a - k))) (Fin (of_int b))) (Fin (of_int k)) = Fin (of_int a)"
    by (simp only:)
  then show ?thesis using rec le w unfolding records_def bal after by force
qed

theorem pull_log_exact_witness:
  "\<exists>resp db l. execPull demo_gacha demo_cairn (\<lambda>_. []) demo_pool (demo_env 200 ''1'') ''p'' 0 demo_full = (Inr resp, db) \<and>
     gacha_logs db = [l] \<and> gl_accrued_pts l = Fin 100 \<and> gl_balance_after l = Fin 40"
proof -
  obtain resp db s where x: "execPull demo_gacha demo_cairn (\<lambda>_. []) demo_pool (demo_env 200 ''1'') ''p'' 0 demo_full = (Inr resp, db)"
    by (rule demo_execPull)
  have "accrual 200 demo_row = Fin (of_int (max 0 ((200 - 100) * 1)))"
    by (rule accrual_int) (simp_all add: demo_row_def demo_state_def)
  then have "whole_points demo_gacha (demo_env 200 ''1'') demo_row 40 100 100"
    by (simp add: whole_points_def demo_row_def demo_state_def demo_gacha_def demo_env_def)
  from pull_log_exact [OF demo_full_keys x demo_full_state this] x show ?thesis
    by (auto simp: demo_full_def demo_db_def empty_db_def)
qed

lemma cooldown_gate_passes:
  assumes "keys_ok db" and "state_of db pid = Some st" and "may_pull env st" and "\<not> e_fault env 1"
  shows "cooldown_gate cfg env pid db = Inr (set_state pid (gate_write cfg env) db)"
proof -
  let ?Q = "\<lambda>r. case next_gacha_at r of None \<Rightarrow> True | Some t \<Rightarrow> t \<le> unix (pull_now env)"
  let ?P = "\<lambda>r. s_player r = pid \<and> ?Q r"
  have hit: "sql_affected ?P (player_states db) \<noteq> 0"
    using state_ofD [OF assms(2)] assms(3) by (auto simp: sql_affected_0_iff may_pull_def)
  then have run: "cooldown_gate cfg env pid db = Inr (db\<lparr>player_states := sql_update ?P
      (\<lambda>r. r\<lparr>next_gacha_at := Some (unix (next_pull cfg env)), updated_at := e_sqlnow env 0\<rparr>) (player_states db)\<rparr>)"
    using assms(4) unfolding cooldown_gate_def Let_def by (simp only: if_False)
  show ?thesis
  proof (rule guarded_update [OF assms(1) hit])
    assume "\<And>f. db\<lparr>player_states := sql_update ?P f (player_states db)\<rparr> = set_state pid f db"
    then show ?thesis unfolding run gate_write_def [abs_def] by blast
  qed
qed

lemma claim_slot_passes:
  assumes "slot_of db pid i = Some s" and "MaxLayers c \<le> layer_count s" and "\<not> e_fault env 2"
  shows "\<exists>db'. claim_slot c env pid i db = Inr db'"
proof -
  have "sql_affected (\<lambda>r. slot_player r = pid \<and> slot_index r = i \<and> layer_count r \<ge> MaxLayers c) (wish_cairn_slots db) \<noteq> 0"
    using slot_ofD [OF assms(1)] assms(2) by (auto simp: sql_affected_0_iff)
  then show ?thesis using assms(3) unfolding claim_slot_def Let_def by (simp only: if_False) blast
qed

lemma GrantItem_passes:
  assumes "\<not> list_ex (\<lambda>x. inv_id x = newid) (inventories db)" and "has_player db pid"
  shows "\<exists>g db'. GrantItem False sqlnow newid pid item r itemType sourceType db = Inr (g, db')"
  using assms by (cases "inv_of db pid item") (simp_all add: GrantItem_def)

text \<open>
  C11. A pull that should succeed does. With no failing call, a loaded pool, fresh identifiers, the
  cooldown over, a slot that the growth completes, and a whole-point balance that covers the cost,
  the transaction commits: none of the guards refuses it.
\<close>

theorem pull_succeeds:
  assumes "keys_ok db" and "refs_ok db" and "\<And>k. \<not> e_fault env k"
    and "LoadSkinPool uni file = Inr pool" and "e_rand env = Some seed"
    and "state_of db pid = Some st" and "may_pull env st" and "slot_was_full cfg c env pid i db"
    and "whole_points cfg env st b a k" and "k \<le> b + a"
    and "\<forall>r \<in> set (inventories db). inv_id r \<noteq> e_uuid env 0" and "\<forall>l \<in> set (gacha_logs db). gl_id l \<noteq> e_uuid env 1"
  shows "\<exists>resp db'. execPull cfg c digest pool env pid i db = (Inr resp, db')"
proof -
  note w = assms(9) [unfolded whole_points_def]
  let ?db1 = "set_state pid (gate_write cfg env) db"
  have gate: "cooldown_gate cfg env pid db = Inr ?db1"
    using assms(1,3,6,7) by (intro cooldown_gate_passes)
  have k1: "keys_ok ?db1" using assms(1) by (subst keys_ok_set_state) (simp_all add: gate_write_def)
  have st1: "state_of ?db1 pid = Some (gate_write cfg env st)"
    using assms(6) by (subst state_of_set_state) (simp_all add: gate_write_def)
  obtain db2 s where g: "ApplyGrowth c (e_growth_fault env) (pull_now env) (e_sqlnow env 1) pid ?db1 = Inr db2"
    and s: "slot_of db2 pid i = Some s" "MaxLayers c \<le> layer_count s"
    using assms(8) unfolding slot_was_full_def by blast
  have grow: "grow_in_pull c env pid ?db1 = Inr db2" unfolding grow_in_pull_def g by simp
  note grown = ApplyGrowth_lookups [OF g]
  obtain h where h: "\<And>q. state_of db2 q = map_option (\<lambda>st. st\<lparr>cairn_last_growth_at := h st\<rparr>) (state_of ?db1 q)"
    using grown(1) by blast
  obtain t2 u2 where db2: "db2 = ?db1\<lparr>player_states := t2, wish_cairn_slots := u2\<rparr>" using grown(3) by blast
  have k2: "keys_ok db2" using ApplyGrowth_keys [OF g] k1 by simp
  obtain db3 where claim: "claim_slot c env pid i db2 = Inr db3"
    using claim_slot_passes [OF s] assms(3) by blast
  obtain u3 where db3: "db3 = db2\<lparr>wish_cairn_slots := u3\<rparr>" and k3: "keys_ok db3"
    using claim_slot_Inr [OF k2 claim] by metis
  let ?r = "(gate_write cfg env st)\<lparr>cairn_last_growth_at := h (gate_write cfg env st)\<rparr>"
  have r: "state_of db3 pid = Some ?r" by (simp add: db3 frame_simps h st1)
  have bal: "read_balance (e_fault env 4) pid db3 = Inr (Fin (of_int b))"
    using assms(3) w r by (simp add: read_balance_def gate_write_def)
  have acc: "accrued_balance (e_sqlnow env 2) ?r = Fin (of_int (b + a))"
  proof -
    have "accrued_balance (e_sqlnow env 2) ?r = accrued_balance (e_sqlnow env 2) st"
      by (rule accrued_balance_cong) (simp_all add: gate_write_def)
    then show ?thesis using w fadd_int [of b a] by (simp add: accrued_balance_def)
  qed
  have after: "fsub (accrued_balance (e_sqlnow env 2) ?r) (PullCost cfg) = Fin (of_int (b + a - k))"
    using w assms(10) fsub_int [of "b + a" k] unfolding acc by simp
  have "fle (PullCost cfg) (accrued_balance (e_sqlnow env 2) ?r)"
    using w assms(10) unfolding acc by (simp flip: of_int_add)
  moreover have "fsub (accrued_balance (e_sqlnow env 2) ?r) (PullCost cfg) \<noteq> NaN" unfolding after by simp
  ultimately obtain db4 st4 where d: "accrue_deduct (e_sqlnow env 2) (PullCost cfg) pid db3 = Inr (db4, st4)"
    using accrue_deduct_succeeds [OF k3 r] by (metis surj_pair)
  have pay: "pay_pull cfg env pid db3 = Inr (db4, st4)" using assms(3) by (simp add: pay_pull_def d)
  obtain r3 where r3: "state_of db3 pid = Some r3" and db4: "db4 = set_state pid (\<lambda>_. st4) db3"
    and st4_def: "st4 = r3\<lparr>enlightenment_pts := fsub (accrued_balance (e_sqlnow env 2) r3) (PullCost cfg),
        last_sync_at := Some (e_sqlnow env 2)\<rparr>" by (rule accrue_deduct_set_state [OF k3 d])
  have "r3 = ?r" using r3 r by simp
  then have st4: "enlightenment_pts st4 = Fin (of_int (b + a - k))"
    using after unfolding st4_def by simp
  obtain content where "parseSkinPool uni content = Inr pool" using assms(4) by (auto simp: LoadSkinPool_def split: option.splits)
  then have "pool_ok pool" by (rule parseSkinPool_pool_ok)
  then obtain res where "Roll digest pool (Some seed) = Inr res" by (rule Roll_ok)
  then have roll: "roll_pull digest pool env = Inr res" by (simp add: roll_pull_def assms(5))
  have same: "inventories db4 = inventories db" "gacha_logs db4 = gacha_logs db" "players db4 = players db"
    by (simp_all add: db4 db3 db2 frame_simps)
  have hp: "has_player db pid" using assms(2) state_ofD [OF assms(6)] by (auto simp: refs_ok_def)
  then have hp4: "has_player db4 pid" by (simp add: has_player_def same)
  have fresh: "\<not> list_ex (\<lambda>x. inv_id x = e_uuid env 0) (inventories db4)"
    using assms(11) by (simp add: same list_ex_iff)
  obtain g' db5 where G: "GrantItem False (e_sqlnow env 3) (e_uuid env 0) pid (ItemID res) (Rarity res)
      ItemTypeStoneSkin SourceWishCairn db4 = Inr (g', db5)"
    using GrantItem_passes [OF fresh hp4] by blast
  then have grant: "grant_pull env pid res db4 = Inr (g', db5)" using assms(3) by (simp add: grant_pull_def)
  obtain t5 where db5: "db5 = db4\<lparr>inventories := t5\<rparr>" using GrantItem_effect(8) [OF G] by blast
  have acc_ok: "fadd (fsub (Fin (of_int (b + a - k))) (Fin (of_int b))) (PullCost cfg) \<noteq> NaN"
    using w by (cases "fsub (Fin (of_int (b + a - k))) (Fin (of_int b :: rat))")
      (auto simp: fsub_def to_f64_def Let_def split: if_splits)
  have ids: "\<not> list_ex (\<lambda>l. gl_id l = e_uuid env 1) (gacha_logs db5)"
    using assms(12) by (simp add: db5 same list_ex_iff)
  have hp5: "has_player db5 pid" using hp4 by (simp add: has_player_def db5)
  obtain db6 where log: "log_pull cfg env pid res g' (Fin (of_int b)) (enlightenment_pts st4) db5 = Inr db6"
    using assms(3) ids hp5 acc_ok w unfolding log_pull_def Let_def st4 by simp
  show ?thesis
    using assms(3) unfolding execPull_def pull_tx_def gate grow claim bal pay roll grant log bindE_simps
    by (simp add: gate grow claim bal pay roll grant log)
qed

theorem pull_succeeds_witness:
  "\<exists>pool resp db. LoadSkinPool id (Some demo_csv) = Inr pool \<and>
     execPull demo_gacha demo_cairn (\<lambda>_. []) pool (demo_env 200 ''1'') ''p'' 0 demo_full = (Inr resp, db)"
proof -
  obtain pool where p: "LoadSkinPool id (Some demo_csv) = Inr pool"
    using demo_pool_loads by (cases "parseSkinPool id demo_csv") (simp_all add: LoadSkinPool_def)
  let ?env = "demo_env 200 ''1''"
  have a: "accrual 200 demo_row = Fin (of_int (max 0 ((200 - 100) * 1)))"
    by (rule accrual_int) (simp_all add: demo_row_def demo_state_def)
  have w: "whole_points demo_gacha ?env demo_row 40 100 100"
    using a by (simp add: whole_points_def demo_row_def demo_state_def demo_gacha_def demo_env_def)
  have gate: "state_of (set_state ''p'' (gate_write demo_gacha ?env) demo_full) ''p'' = Some (gate_write demo_gacha ?env demo_row)"
    by (subst state_of_set_state) (simp_all add: gate_write_def demo_full_state)
  have null: "cairn_last_growth_at (gate_write demo_gacha ?env demo_row) = None" by (simp add: gate_write_def demo_row_def)
  have nf: "e_growth_fault ?env = (\<lambda>_. False)" "e_sqlnow ?env 1 = 200" by (simp_all add: demo_env_def)
  have full: "slot_was_full demo_gacha demo_cairn ?env ''p'' 0 demo_full"
    unfolding slot_was_full_def ApplyGrowth_def plan_growth_def commit_growth_def nf attempt_simps gate one_row_simps
      lift_sql.simps bindE_simps null option.case growth_decision.case
    by (simp add: set_state_def slot_of_def demo_full_def new_slot_def demo_cairn_def)
  show ?thesis
    using pull_succeeds [OF demo_full_keys db_okD(2) [OF demo_full_ok] _ p _ demo_full_state _ full w,
        of "replicate 16 0" "\<lambda>_. []"] p
    by (simp add: demo_env_def may_pull_def demo_row_def demo_state_def demo_full_def demo_db_def empty_db_def)
qed

section \<open>Properties of the other handlers\<close>



context kv_contract
begin

text \<open>A cooldown that was stored is what a later status request reports, until it ends.\<close>

lemma Status_after_set:
  assumes "kv_set ops t (cooldown_key pid) (format_rfc3339 n) ttl s = (Inr (), s1)"
    and "four_digit_years n" and "t \<le> clk 0" and "clk 0 < t + ttl" and "clk 3 < of_unix n"
    and "Status ops fault clk pid s1 db = (a, s2)" and "fst (kv_get ops (clk 0) (cooldown_key pid) s1) \<noteq> Inl KvFail"
  shows "a = OK \<lparr>CanPull = False, NextGachaAt = Some (of_unix n)\<rparr>"
proof -
  obtain r s' where g: "kv_get ops (clk 0) (cooldown_key pid) s1 = (r, s')" by fastforce
  with assms(7) have "r \<noteq> Inl KvFail" by simp
  with set_get [OF assms(1,3,4) g] have "r = Inr (format_rfc3339 n)" .
  with g assms(2,5,6) show ?thesis
    by (simp add: Status_def getNextGachaAt_def parse_format)
qed

end

text \<open>
  After a successful pull of a server on the in-memory store, a status request made before
  the cooldown ends answers that no pull is possible and names the announced instant. (The
  cooldown is a whole number of seconds; the announced year has four digits.)
\<close>

theorem status_after_pull:
  assumes "Pull mem_ops cfg c digest pool env lf clk pid slot s db = (OK resp, s1, db1)" and "keys_ok db"
    and "Cooldown cfg = of_unix d" and "four_digit_years (unix (pr_next_gacha_at resp))"
    and "clk 8 \<le> clk' 0" and "clk' 0 < clk 8 + Cooldown cfg" and "clk' 3 < pr_next_gacha_at resp"
  shows "fst (Status mem_ops fault clk' pid s1 db2) =
    OK \<lparr>CanPull = False, NextGachaAt = Some (pr_next_gacha_at resp)\<rparr>"
  using assms(1)
proof (rule Pull_OK)
  fix i s0
  assume x: "execPull cfg c digest pool env pid i db = (Inr resp, db1)"
    and s1: "s1 = setCooldown mem_ops cfg (clk 8) pid (pr_next_gacha_at resp) s0"
  have "pr_next_gacha_at resp = next_pull cfg env"
    using pull_tx_contract [OF assms(2) execPull_Inr [OF x]] unfolding pull_contract_def by blast
  also have "\<dots> = of_unix (unix (e_now env) + d)"
    unfolding next_pull_def pull_now_def truncate_second_def assms(3) by (simp add: of_unix_def distrib_right)
  finally have next_sec: "of_unix (unix (pr_next_gacha_at resp)) = pr_next_gacha_at resp" by simp
  have set: "kv_set mem_ops (clk 8) (cooldown_key pid) (format_rfc3339 (unix (pr_next_gacha_at resp))) (Cooldown cfg) s0 = (Inr (), s1)"
    by (simp add: s1 setCooldown_def MemStore_Set_def)
  have "fst (kv_get mem_ops (clk' 0) (cooldown_key pid) s1) \<noteq> Inl KvFail" by (rule mem.get_total)
  with mem.Status_after_set [where clk = clk', OF set assms(4,5,6), of fault db2 "fst (Status mem_ops fault clk' pid s1 db2)"
      "snd (Status mem_ops fault clk' pid s1 db2)"] assms(7) next_sec
  show ?thesis by simp
qed

theorem status_after_pull_witness:
  "fst (Status mem_ops False (\<lambda>_. 300 * second) ''p'' (fst (snd (demo_pull 0))) demo_full) =
    OK \<lparr>CanPull = False, NextGachaAt = Some (2000 * second)\<rparr>"
proof -
  obtain resp db s where d: "demo_pull 0 = (OK resp, s, db)" and n: "pr_next_gacha_at resp = 2000 * second"
    by (rule demo_execPull)
  have c: "Cooldown demo_gacha = of_unix 1800" by (simp add: demo_gacha_def of_unix_def)
  have y: "four_digit_years (unix (pr_next_gacha_at resp))"
    by (simp add: n unix_def second_def four_digit_years_def)
  show ?thesis
    using status_after_pull [OF d [unfolded demo_pull_def] demo_full_keys c y, of "\<lambda>_. 300 * second" False demo_full] d
    by (simp add: n second_def demo_gacha_def)
qed

end
