(* ===== verification/Vow.thy ===== *)
theory Vow
  imports VowRates Gacha
begin

text \<open>
  The vow handler (\<open>internal/vow/vow.go\<close>): the checks of a request, the crafting transaction
  (payment, consumption of the materials, roll, grant, log), and the reload of the inventory that
  follows the commit. The contract of a vow is stated over the data base before and after.
\<close>

section \<open>Requests and answers\<close>

record debug_options =
  ForceSuccess :: bool
  ForceFailure :: bool
  InfiniteNPower :: bool
  IgnoreRequiredItems :: bool
  LocalPray :: bool

record pray_request =
  Materials :: "material list"
  NPower :: f64
  DebugOptions :: "debug_options option"

record vow_handler =
  vow_pool :: skin_pool
  requiredItemCount :: int
  vow_tiers :: "string \<Rightarrow> vow_tier option"
  allowDebug :: bool

definition NewHandler :: "skin_pool \<Rightarrow> int \<Rightarrow> vow_tier list \<Rightarrow> bool \<Rightarrow> vow_handler" where
  "NewHandler pool n ts allow =
     \<lparr>vow_pool = pool, requiredItemCount = n,
      vow_tiers = foldl (\<lambda>m t. m(TargetRarity t \<mapsto> t)) Map.empty ts, allowDebug = allow\<rparr>"

record inventory_item =
  ii_item :: string
  ii_type :: string
  ii_rarity :: string
  ii_count :: int
  ii_source :: string
  ii_acquired :: int

record pray_response =
  vr_result :: string
  vr_item :: string
  vr_rarity :: string
  vr_reward :: reward_grant
  vr_duplicate :: bool
  vr_new_count :: int
  vr_source :: string
  vr_base :: string
  vr_target :: string
  vr_rate :: f64
  vr_balance_after :: f64
  vr_last_sync_at :: int
  vr_inventory :: "inventory_item list"
  vr_is_new :: bool

datatype pray_error = PrayPoints | PrayMaterials | NoRewardPool | PrayFailed

text \<open>The surroundings of one vow: SQLite's clock, the faults, the identifiers, the random bytes.\<close>

record vow_env =
  v_sqlnow :: "nat \<Rightarrow> int"
  v_fault :: faults
  v_material_fault :: faults
  v_uuid :: "nat \<Rightarrow> string"
  v_percent :: "8 word list option"
  v_pick :: "8 word list option"

section \<open>The stages of the transaction\<close>

definition vow_balance :: "bool \<Rightarrow> string \<Rightarrow> database \<Rightarrow> pray_error + f64" where
  "vow_balance fault pid db =
     (case attempt fault (one_row (state_of db pid)) of
        Inl _ \<Rightarrow> Inl PrayFailed | Inr st \<Rightarrow> Inr (enlightenment_pts st))"

definition pay_vow :: "vow_env \<Rightarrow> f64 \<Rightarrow> string \<Rightarrow> database \<Rightarrow> pray_error + database \<times> state_row" where
  "pay_vow env cost pid db =
     (case attempt (v_fault env 2) (accrue_deduct (v_sqlnow env 0) cost pid db) of
        Inl ErrNoRows \<Rightarrow> Inl PrayPoints
      | Inl DbError \<Rightarrow> Inl PrayFailed
      | Inr x \<Rightarrow> Inr x)"

text \<open>Step 2: one conditional UPDATE per material, then the rows that became empty are deleted.\<close>

definition consume_one :: "bool \<Rightarrow> string \<Rightarrow> material \<Rightarrow> database \<Rightarrow> pray_error + database" where
  "consume_one fault pid m db =
     (let P = (\<lambda>r. (inv_player r = pid \<and> item_id r = mat_item m) \<and> item_count r \<ge> mat_count m)
      in if fault then Inl PrayFailed
         else if sql_affected P (inventories db) \<noteq> 1 then Inl PrayMaterials
         else Inr (db\<lparr>inventories := sql_update P (\<lambda>r. r\<lparr>item_count := item_count r - mat_count m\<rparr>) (inventories db)\<rparr>))"

fun consume_loop :: "faults \<Rightarrow> nat \<Rightarrow> string \<Rightarrow> material list \<Rightarrow> database \<Rightarrow> pray_error + database" where
  "consume_loop ft k pid [] db = Inr db"
| "consume_loop ft k pid (m # ms) db =
     bindE (consume_one (ft k) pid m db) (\<lambda>db'. consume_loop ft (k + 1) pid ms db')"

definition drop_empty :: "bool \<Rightarrow> string \<Rightarrow> database \<Rightarrow> pray_error + database" where
  "drop_empty fault pid db =
     (if fault then Inl PrayFailed
      else Inr (db\<lparr>inventories := sql_delete (\<lambda>r. inv_player r = pid \<and> item_count r \<le> 0) (inventories db)\<rparr>))"

definition consume_materials :: "vow_env \<Rightarrow> bool \<Rightarrow> string \<Rightarrow> material list \<Rightarrow> database \<Rightarrow> pray_error + database" where
  "consume_materials env ignoreItems pid ms db =
     (if ignoreItems then Inr db
      else bindE (consume_loop (v_material_fault env) 0 pid ms db) (drop_empty (v_fault env 3) pid))"

definition rollSuccess :: "vow_handler \<Rightarrow> debug_options option \<Rightarrow> f64 \<Rightarrow> 8 word list option \<Rightarrow> bool option" where
  "rollSuccess h d rate rand =
     (if allowDebug h \<and> (case d of None \<Rightarrow> False | Some x \<Rightarrow> ForceSuccess x) then Some True
      else if allowDebug h \<and> (case d of None \<Rightarrow> False | Some x \<Rightarrow> ForceFailure x) then Some False
      else map_option (\<lambda>r. fle r rate) (rollPercent rand))"

definition roll_vow :: "vow_handler \<Rightarrow> vow_env \<Rightarrow> debug_options option \<Rightarrow> f64 \<Rightarrow> pray_error + bool" where
  "roll_vow h env d rate =
     (case rollSuccess h d rate (v_percent env) of None \<Rightarrow> Inl PrayFailed | Some b \<Rightarrow> Inr b)"

definition pick_reward :: "vow_handler \<Rightarrow> vow_env \<Rightarrow> string \<Rightarrow> pray_error + string" where
  "pick_reward h env r =
     (case PickByRarity (vow_pool h) (v_pick env) r of None \<Rightarrow> Inl NoRewardPool | Some s \<Rightarrow> Inr s)"

definition grant_vow :: "vow_env \<Rightarrow> string \<Rightarrow> string \<Rightarrow> string \<Rightarrow> database \<Rightarrow> pray_error + reward_grant \<times> database" where
  "grant_vow env pid item r db =
     (case GrantItem (v_fault env 4) (v_sqlnow env 1) (v_uuid env 0) pid item r ItemTypeStoneSkin SourceVowReward db of
        Inl _ \<Rightarrow> Inl PrayFailed | Inr x \<Rightarrow> Inr x)"

text \<open>
  Step 5: the log row; the materials are a JSON text in the table and a list here. A value that is
  not a number violates NOT NULL.
\<close>

definition log_vow ::
  "vow_env \<Rightarrow> string \<Rightarrow> string \<Rightarrow> string \<Rightarrow> f64 \<Rightarrow> f64 \<Rightarrow> f64 \<Rightarrow> f64 \<Rightarrow> bool \<Rightarrow> string \<Rightarrow> string \<Rightarrow> reward_grant \<Rightarrow>
   material list \<Rightarrow> database \<Rightarrow> pray_error + database" where
  "log_vow env pid base target rate cost before after success item r g ms db =
     (let accrued = fadd (fsub after before) cost
      in if v_fault env 5 then Inl PrayFailed
         else if list_ex (\<lambda>l. vl_id l = v_uuid env 1) (vow_logs db) \<or> \<not> has_player db pid then Inl PrayFailed
         else if rate = NaN \<or> cost = NaN \<or> before = NaN \<or> after = NaN \<or> accrued = NaN then Inl PrayFailed
         else Inr (db\<lparr>vow_logs := vow_logs db @
                [\<lparr>vl_id = v_uuid env 1, vl_player = pid, vl_base_rarity = base, vl_target_rarity = target,
                  vl_success_rate = rate, vl_cost_points = cost,
                  vl_result = (if success then ''Success'' else ''Failed''), vl_reward_item_id = item,
                  vl_reward_rarity = r, vl_is_duplicate = grant_duplicate g,
                  vl_materials = map (\<lambda>m. (mat_item m, mat_count m)) ms, vl_prayed_at = v_sqlnow env 2,
                  vl_balance_before = before, vl_balance_after = after, vl_accrued_pts = accrued\<rparr>]\<rparr>))"

definition pray_tx ::
  "vow_handler \<Rightarrow> vow_env \<Rightarrow> string \<Rightarrow> pray_request \<Rightarrow> string \<Rightarrow> string \<Rightarrow> f64 \<Rightarrow> bool \<Rightarrow> bool \<Rightarrow> database \<Rightarrow>
   pray_error + pray_response \<times> database" where
  "pray_tx h env pid req base target rate infN ignoreItems db =
     (let cost = (if infN then Fin 0 else NPower req) in
      bindE (vow_balance (v_fault env 1) pid db) (\<lambda>before.
      bindE (pay_vow env cost pid db) (\<lambda>(db1, st).
      bindE (consume_materials env ignoreItems pid (Materials req) db1) (\<lambda>db2.
      bindE (roll_vow h env (DebugOptions req) rate) (\<lambda>success.
      let r = (if success then target else base) in
      bindE (pick_reward h env r) (\<lambda>item.
      bindE (grant_vow env pid item r db2) (\<lambda>(g, db3).
      bindE (log_vow env pid base target rate cost before (enlightenment_pts st) success item r g (Materials req) db3) (\<lambda>db4.
        Inr (\<lparr>vr_result = (if success then ''Success'' else ''Failed''), vr_item = item, vr_rarity = r, vr_reward = g,
              vr_duplicate = grant_duplicate g, vr_new_count = grant_count g, vr_source = SourceVowReward,
              vr_base = base, vr_target = target, vr_rate = rate, vr_balance_after = enlightenment_pts st,
              vr_last_sync_at = v_sqlnow env 0, vr_inventory = [], vr_is_new = (\<not> grant_duplicate g)\<rparr>, db4)))))))))"

definition loadInventory :: "bool \<Rightarrow> string \<Rightarrow> database \<Rightarrow> inventory_item list option" where
  "loadInventory fault pid db =
     (if fault then None
      else Some (map (\<lambda>r. \<lparr>ii_item = item_id r, ii_type = item_type r, ii_rarity = rarity r, ii_count = item_count r,
             ii_source = source_type r, ii_acquired = acquired_at r\<rparr>)
           (sort_key acquired_at (filter (\<lambda>r. inv_player r = pid) (inventories db)))))"

text \<open>\<open>execPray\<close>: the reload after the commit may fail too, with the vow already committed.\<close>

definition execPray ::
  "vow_handler \<Rightarrow> vow_env \<Rightarrow> string \<Rightarrow> pray_request \<Rightarrow> string \<Rightarrow> string \<Rightarrow> f64 \<Rightarrow> bool \<Rightarrow> bool \<Rightarrow> database \<Rightarrow>
   (pray_error + pray_response) \<times> database" where
  "execPray h env pid req base target rate infN ignoreItems db =
     (if v_fault env 0 then (Inl PrayFailed, db)
      else case pray_tx h env pid req base target rate infN ignoreItems db of
             Inl e \<Rightarrow> (Inl e, db)
           | Inr (resp, db') \<Rightarrow>
               if v_fault env 6 then (Inl PrayFailed, db)
               else (case loadInventory (v_fault env 7) pid db' of
                       None \<Rightarrow> (Inl PrayFailed, db')
                     | Some items \<Rightarrow> (Inr (resp\<lparr>vr_inventory := items\<rparr>), db')))"

section \<open>The handler\<close>

fun count_materials :: "material list \<Rightarrow> int \<Rightarrow> int option" where
  "count_materials [] tot = Some tot"
| "count_materials (m # ms) tot = (if mat_count m \<le> 0 then None else count_materials ms (wrap64 (tot + mat_count m)))"

definition debug_flag :: "vow_handler \<Rightarrow> (debug_options \<Rightarrow> bool) \<Rightarrow> pray_request \<Rightarrow> bool" where
  "debug_flag h f req \<longleftrightarrow> allowDebug h \<and> (case DebugOptions req of None \<Rightarrow> False | Some d \<Rightarrow> f d)"

text \<open>The fail-fast checks: the rarities and the tier of an acceptable request.\<close>

definition check_request :: "vow_handler \<Rightarrow> pray_request \<Rightarrow> (string \<times> string \<times> vow_tier) option" where
  "check_request h req =
     (case count_materials (Materials req) 0 of
        None \<Rightarrow> None
      | Some tot \<Rightarrow>
          if \<not> debug_flag h IgnoreRequiredItems req \<and> tot \<noteq> requiredItemCount h then None
          else (case computeRarities (vow_pool h) (Materials req) of
                  None \<Rightarrow> None
                | Some (base, target) \<Rightarrow>
                    (case vow_tiers h target of
                       None \<Rightarrow> None
                     | Some tier \<Rightarrow>
                         if \<not> debug_flag h InfiniteNPower req \<and>
                            (flt (NPower req) (MinNPower tier) \<or> flt (MaxNPower tier) (NPower req))
                         then None else Some (base, target, tier))))"

fun pray_rejection :: "pray_error \<Rightarrow> 'a answer" where
  "pray_rejection PrayPoints = Reject 409 ''INSUFFICIENT_POINTS''"
| "pray_rejection PrayMaterials = Reject 409 ''INSUFFICIENT_MATERIALS''"
| "pray_rejection NoRewardPool = internal_error"
| "pray_rejection PrayFailed = internal_error"

definition Pray ::
  "vow_handler \<Rightarrow> vow_env \<Rightarrow> string \<Rightarrow> pray_request option \<Rightarrow> database \<Rightarrow> pray_response answer \<times> database" where
  "Pray h env pid body db =
     (case body of
        None \<Rightarrow> (Reject 400 ''INVALID_REQUEST'', db)
      | Some req \<Rightarrow>
          (case check_request h req of
             None \<Rightarrow> (Reject 400 ''INVALID_REQUEST'', db)
           | Some (base, target, tier) \<Rightarrow>
               (case execPray h env pid req base target (calcSuccessRate tier (NPower req))
                       (debug_flag h InfiniteNPower req) (debug_flag h IgnoreRequiredItems req) db of
                  (Inl e, db') \<Rightarrow> (pray_rejection e, db')
                | (Inr resp, db') \<Rightarrow> (OK resp, db'))))"

section \<open>Consumption\<close>

text \<open>What a list of materials takes of an item.\<close>

definition consumed :: "material list \<Rightarrow> string \<Rightarrow> int" where
  "consumed ms x = sum_list (map mat_count (filter (\<lambda>m. mat_item m = x) ms))"

lemma inv_of_iff:
  assumes "keys_ok db"
  shows "inv_of db q x = Some r \<longleftrightarrow> r \<in> set (inventories db) \<and> inv_player r = q \<and> item_id r = x"
proof
  assume "r \<in> set (inventories db) \<and> inv_player r = q \<and> item_id r = x"
  with assms show "inv_of db q x = Some r"
    using find_key [of "\<lambda>r. (inv_player r, item_id r)" "inventories db" r]
    by (simp add: inv_of_key keys_ok_def)
qed (rule inv_ofD)

text \<open>The stock in the middle of the loop: the player's rows may be empty, the others are not.\<close>

definition stock_open :: "string \<Rightarrow> database \<Rightarrow> bool" where
  "stock_open pid db \<longleftrightarrow> (\<forall>r \<in> set (inventories db). 0 \<le> item_count r \<and> (inv_player r \<noteq> pid \<longrightarrow> 1 \<le> item_count r))"

lemma owned_nonneg: "stock_open pid db \<Longrightarrow> 0 \<le> owned db q x"
  unfolding stock_open_def owned_def by (auto split: option.split dest: inv_ofD)

lemma consume_one_effect:
  assumes "keys_ok db" and "consume_one fault pid m db = Inr db'"
  shows "owned db' q x = owned db q x - (if q = pid \<and> x = mat_item m then mat_count m else 0)"
    and "\<exists>t. db' = db\<lparr>inventories := t\<rparr>" and "keys_ok db'" and "refs_ok db \<Longrightarrow> refs_ok db'"
    and "stock_open pid db \<Longrightarrow> stock_open pid db'"
proof -
  let ?P = "\<lambda>r. (inv_player r = pid \<and> item_id r = mat_item m) \<and> item_count r \<ge> mat_count m"
  let ?f = "\<lambda>r :: inv_row. r\<lparr>item_count := item_count r - mat_count m\<rparr>"
  have hit: "sql_affected ?P (inventories db) = 1"
    and db': "db' = db\<lparr>inventories := sql_update ?P ?f (inventories db)\<rparr>"
    using assms(2) unfolding consume_one_def Let_def if_Inl_eq_Inr by auto
  have inv: "inv_of db' q x = map_option (\<lambda>r. if ?P r then ?f r else r) (inv_of db q x)" for q x
    unfolding inv_of_key db' using find_sql_update_key [of "\<lambda>r. (inv_player r, item_id r)" ?f "(q, x)" ?P "inventories db"] by simp
  from hit obtain r where r: "r \<in> set (inventories db)" "?P r"
    using sql_affected_0_iff [of ?P "inventories db"] by auto
  then have own: "inv_of db pid (mat_item m) = Some r" using assms(1) by (simp add: inv_of_iff)
  show "owned db' q x = owned db q x - (if q = pid \<and> x = mat_item m then mat_count m else 0)"
  proof (cases "q = pid \<and> x = mat_item m")
    case True
    then show ?thesis using own r(2) inv [of q x] by (simp add: owned_def)
  next
    case False
    then have "inv_of db' q x = inv_of db q x"
      unfolding inv by (cases "inv_of db q x") (auto dest!: inv_ofD)
    then show ?thesis unfolding if_not_P [OF False] by (simp add: owned_def)
  qed
  show "\<exists>t. db' = db\<lparr>inventories := t\<rparr>" unfolding db' by blast
  show "keys_ok db'" using assms(1) by (simp add: db' keys_ok_def map_key_sql_update)
  show "refs_ok db \<Longrightarrow> refs_ok db'" by (auto simp: db' refs_ok_def has_player_def set_sql_update)
  show "stock_open pid db \<Longrightarrow> stock_open pid db'" by (auto simp: db' stock_open_def set_sql_update)
qed

lemma same_inventories: "\<exists>t. db = db\<lparr>inventories := t\<rparr>"
  by (rule exI [of _ "inventories db"]) simp

lemma consume_loop_effect:
  assumes "keys_ok db" and "consume_loop ft k pid ms db = Inr db'"
  shows "(\<forall>q x. owned db' q x = owned db q x - (if q = pid then consumed ms x else 0)) \<and>
    (\<exists>t. db' = db\<lparr>inventories := t\<rparr>) \<and> keys_ok db' \<and> (refs_ok db \<longrightarrow> refs_ok db') \<and>
    (stock_open pid db \<longrightarrow> stock_open pid db')"
  using assms
proof (induction ms arbitrary: k db)
  case Nil
  then show ?case using same_inventories [of db'] by (simp add: consumed_def)
next
  case (Cons m ms)
  then obtain db1 where one: "consume_one (ft k) pid m db = Inr db1"
    and rest: "consume_loop ft (k + 1) pid ms db1 = Inr db'" by (auto simp: run_simps)
  note e = consume_one_effect [OF Cons.prems(1) one]
  have c: "consumed (m # ms) x = (if x = mat_item m then mat_count m else 0) + consumed ms x" for x
    by (simp add: consumed_def)
  obtain t where t: "db1 = db\<lparr>inventories := t\<rparr>" using e(2) by blast
  from Cons.IH [OF e(3) rest] obtain t' where t': "db' = db1\<lparr>inventories := t'\<rparr>" by blast
  have "db' = db\<lparr>inventories := t'\<rparr>" unfolding t t' by simp
  then show ?case using Cons.IH [OF e(3) rest] e(1,4,5) c by auto
qed

lemma drop_empty_effect:
  assumes "keys_ok db" and "stock_open pid db" and "drop_empty fault pid db = Inr db'"
  shows "owned db' q x = owned db q x" and "\<exists>t. db' = db\<lparr>inventories := t\<rparr>" and "keys_ok db'"
    and "refs_ok db \<Longrightarrow> refs_ok db'" and "stock_ok db'"
proof -
  let ?D = "\<lambda>r. inv_player r = pid \<and> item_count r \<le> 0"
  have db': "db' = db\<lparr>inventories := sql_delete ?D (inventories db)\<rparr>"
    using assms(3) unfolding drop_empty_def if_Inl_eq_Inr by simp
  have "find P (filter Q t) = find (\<lambda>r. P r \<and> Q r) t" for P Q and t :: "inv_row list" by (induction t) auto
  then have "inv_of db' q x = find (\<lambda>r. (inv_player r, item_id r) = (q, x) \<and> \<not> ?D r) (inventories db)"
    unfolding inv_of_key db' by (simp add: sql_delete_def)
  also have "\<dots> = (case inv_of db q x of None \<Rightarrow> None | Some r \<Rightarrow> if \<not> ?D r then Some r else None)"
    unfolding inv_of_key using assms(1) by (intro find_conj_key) (simp add: keys_ok_def)
  finally show "owned db' q x = owned db q x"
    using assms(2) by (auto simp: owned_def stock_open_def split: option.split dest!: inv_ofD)
  show "\<exists>t. db' = db\<lparr>inventories := t\<rparr>" unfolding db' by blast
  show "keys_ok db'" using assms(1) by (auto simp: db' keys_ok_def sql_delete_def distinct_map_filter)
  show "refs_ok db \<Longrightarrow> refs_ok db'" by (auto simp: db' refs_ok_def has_player_def sql_delete_def)
  show "stock_ok db'" using assms(2) by (force simp: db' stock_ok_def stock_open_def sql_delete_def)
qed

lemma consume_materials_effect:
  assumes "keys_ok db" and "stock_ok db" and "consume_materials env ign pid ms db = Inr db'"
  shows "\<And>q x. owned db' q x = owned db q x - (if q = pid \<and> \<not> ign then consumed ms x else 0)"
    and "\<exists>t. db' = db\<lparr>inventories := t\<rparr>" and "keys_ok db'" and "refs_ok db \<Longrightarrow> refs_ok db'" and "stock_ok db'"
    and "\<And>x. \<not> ign \<Longrightarrow> consumed ms x \<le> owned db pid x"
proof -
  have open_db: "stock_open pid db" using assms(2) by (auto simp: stock_ok_def stock_open_def dest: order_trans [rotated])
  have "(\<forall>q x. owned db' q x = owned db q x - (if q = pid \<and> \<not> ign then consumed ms x else 0)) \<and>
    (\<exists>t. db' = db\<lparr>inventories := t\<rparr>) \<and> keys_ok db' \<and> (refs_ok db \<longrightarrow> refs_ok db') \<and> stock_ok db' \<and>
    (\<not> ign \<longrightarrow> (\<forall>x. consumed ms x \<le> owned db pid x))"
  proof (cases ign)
    case True
    then show ?thesis using assms same_inventories [of db'] by (auto simp: consume_materials_def)
  next
    case False
    then obtain db1 where l: "consume_loop (v_material_fault env) 0 pid ms db = Inr db1"
      and d: "drop_empty (v_fault env 3) pid db1 = Inr db'"
      using assms(3) by (auto simp: consume_materials_def run_simps)
    note L = consume_loop_effect [OF assms(1) l]
    have o: "stock_open pid db1" using L open_db by blast
    note D = drop_empty_effect [OF _ o d]
    have k: "keys_ok db1" using L by blast
    obtain t where t: "db1 = db\<lparr>inventories := t\<rparr>" using L by blast
    obtain t' where t': "db' = db1\<lparr>inventories := t'\<rparr>" using D(2) [OF k] by blast
    have "db' = db\<lparr>inventories := t'\<rparr>" unfolding t t' by simp
    moreover have "consumed ms x \<le> owned db pid x" for x
    proof -
      have "0 \<le> owned db1 pid x" by (rule owned_nonneg [OF o])
      also have "\<dots> = owned db pid x - consumed ms x" using L by simp
      finally show ?thesis by simp
    qed
    ultimately show ?thesis using L D [OF k] False by auto
  qed
  then show "\<And>q x. owned db' q x = owned db q x - (if q = pid \<and> \<not> ign then consumed ms x else 0)"
    and "\<exists>t. db' = db\<lparr>inventories := t\<rparr>" and "keys_ok db'" and "refs_ok db \<Longrightarrow> refs_ok db'" and "stock_ok db'"
    and "\<And>x. \<not> ign \<Longrightarrow> consumed ms x \<le> owned db pid x" by blast+
qed

text \<open>No row with a new identifier appears.\<close>

lemma consume_loop_ids:
  "consume_loop ft k pid ms db = Inr db' \<Longrightarrow> inv_id ` set (inventories db') \<subseteq> inv_id ` set (inventories db)"
proof (induction ms arbitrary: k db)
  case (Cons m ms)
  then obtain db1 where one: "consume_one (ft k) pid m db = Inr db1"
    and rest: "consume_loop ft (k + 1) pid ms db1 = Inr db'" by (auto simp: run_simps)
  have "map inv_id (inventories db1) = map inv_id (inventories db)"
    using one unfolding consume_one_def Let_def if_Inl_eq_Inr by (auto simp: map_key_sql_update)
  then have "inv_id ` set (inventories db1) = inv_id ` set (inventories db)" by (metis set_map)
  then show ?case using Cons.IH [OF rest] by simp
qed simp

lemma consume_materials_ids:
  "consume_materials env ign pid ms db = Inr db' \<Longrightarrow> inv_id ` set (inventories db') \<subseteq> inv_id ` set (inventories db)"
proof (cases ign)
  case False
  assume "consume_materials env ign pid ms db = Inr db'"
  with False obtain d where d: "consume_loop (v_material_fault env) 0 pid ms db = Inr d"
    and e: "drop_empty (v_fault env 3) pid d = Inr db'" by (auto simp: consume_materials_def run_simps)
  have "set (inventories db') \<subseteq> set (inventories d)"
    using e unfolding drop_empty_def if_Inl_eq_Inr by (auto simp: sql_delete_def)
  then show ?thesis using consume_loop_ids [OF d] by blast
qed (simp add: consume_materials_def)

section \<open>The contract of a vow\<close>

definition vow_cost :: "vow_handler \<Rightarrow> pray_request \<Rightarrow> f64" where
  "vow_cost h req = (if debug_flag h InfiniteNPower req then Fin 0 else NPower req)"

definition vow_pays :: "vow_env \<Rightarrow> f64 \<Rightarrow> state_row \<Rightarrow> state_row \<Rightarrow> bool" where
  "vow_pays env cost st st' \<longleftrightarrow>
     fle cost (accrued_balance (v_sqlnow env 0) st) \<and>
     st' = st\<lparr>enlightenment_pts := fsub (accrued_balance (v_sqlnow env 0) st) cost, last_sync_at := Some (v_sqlnow env 0)\<rparr>"

definition vow_trades :: "vow_handler \<Rightarrow> string \<Rightarrow> pray_request \<Rightarrow> pray_response \<Rightarrow> database \<Rightarrow> database \<Rightarrow> bool" where
  "vow_trades h pid req resp db db' \<longleftrightarrow>
     (let ms = (if debug_flag h IgnoreRequiredItems req then [] else Materials req) in
     (\<forall>x. consumed ms x \<le> owned db pid x) \<and>
     (\<forall>q x. owned db' q x = owned db q x - (if q = pid then consumed ms x else 0) +
        (if q = pid \<and> x = vr_item resp then 1 else 0)) \<and>
     vr_new_count resp = owned db' pid (vr_item resp) \<and> (vr_duplicate resp \<longleftrightarrow> 1 < vr_new_count resp))"

definition vow_records :: "vow_env \<Rightarrow> string \<Rightarrow> pray_request \<Rightarrow> f64 \<Rightarrow> f64 \<Rightarrow> pray_response \<Rightarrow> database \<Rightarrow> database \<Rightarrow> bool" where
  "vow_records env pid req cost before resp db db' \<longleftrightarrow>
     vow_logs db' = vow_logs db @
       [\<lparr>vl_id = v_uuid env 1, vl_player = pid, vl_base_rarity = vr_base resp, vl_target_rarity = vr_target resp,
         vl_success_rate = vr_rate resp, vl_cost_points = cost, vl_result = vr_result resp,
         vl_reward_item_id = vr_item resp, vl_reward_rarity = vr_rarity resp, vl_is_duplicate = vr_duplicate resp,
         vl_materials = map (\<lambda>m. (mat_item m, mat_count m)) (Materials req), vl_prayed_at = v_sqlnow env 2,
         vl_balance_before = before, vl_balance_after = vr_balance_after resp,
         vl_accrued_pts = fadd (fsub (vr_balance_after resp) before) cost\<rparr>]"

definition vow_frame :: "string \<Rightarrow> database \<Rightarrow> database \<Rightarrow> bool" where
  "vow_frame pid db db' \<longleftrightarrow> (\<forall>q. q \<noteq> pid \<longrightarrow> state_of db' q = state_of db q) \<and>
     players db' = players db \<and> wish_cairn_slots db' = wish_cairn_slots db \<and> gacha_logs db' = gacha_logs db \<and>
     player_achievements db' = player_achievements db \<and> achievement_retry_queue db' = achievement_retry_queue db"

definition vow_contract ::
  "vow_handler \<Rightarrow> vow_env \<Rightarrow> string \<Rightarrow> pray_request \<Rightarrow> database \<Rightarrow> pray_response \<Rightarrow> database \<Rightarrow> bool" where
  "vow_contract h env pid req db resp db' \<longleftrightarrow>
     (\<exists>tier st st'. check_request h req = Some (vr_base resp, vr_target resp, tier) \<and>
        vr_rate resp = calcSuccessRate tier (NPower req) \<and>
        state_of db pid = Some st \<and> state_of db' pid = Some st' \<and> vow_pays env (vow_cost h req) st st' \<and>
        vr_balance_after resp = enlightenment_pts st' \<and> vow_trades h pid req resp db db' \<and>
        (vr_result resp = ''Success'' \<and> vr_rarity resp = vr_target resp \<or>
         vr_result resp = ''Failed'' \<and> vr_rarity resp = vr_base resp) \<and>
        vow_records env pid req (vow_cost h req) (enlightenment_pts st) resp db db' \<and> vow_frame pid db db')"

lemma vow_balance_Inr: "vow_balance fault pid db = Inr b \<Longrightarrow> \<exists>st. state_of db pid = Some st \<and> b = enlightenment_pts st"
  by (auto simp: vow_balance_def attempt_def one_row_def split: if_splits option.splits)

lemma pay_vow_Inr: "pay_vow env cost pid db = Inr x \<Longrightarrow> accrue_deduct (v_sqlnow env 0) cost pid db = Inr x"
  by (auto simp: pay_vow_def attempt_def split: if_splits sum.splits sql_error.splits)

lemma grant_vow_Inr: "grant_vow env pid item r db = Inr x \<Longrightarrow>
    GrantItem (v_fault env 4) (v_sqlnow env 1) (v_uuid env 0) pid item r ItemTypeStoneSkin SourceVowReward db = Inr x"
  by (auto simp: grant_vow_def split: sum.splits)

lemma pick_reward_Inr: "pick_reward h env r = Inr s \<Longrightarrow> PickByRarity (vow_pool h) (v_pick env) r = Some s"
  by (simp add: pick_reward_def split: option.splits)

lemma log_vow_Inr: "log_vow env pid base target rate cost before after success item r g ms db = Inr db' \<Longrightarrow>
    db' = db\<lparr>vow_logs := vow_logs db @
       [\<lparr>vl_id = v_uuid env 1, vl_player = pid, vl_base_rarity = base, vl_target_rarity = target,
         vl_success_rate = rate, vl_cost_points = cost, vl_result = (if success then ''Success'' else ''Failed''),
         vl_reward_item_id = item, vl_reward_rarity = r, vl_is_duplicate = grant_duplicate g,
         vl_materials = map (\<lambda>m. (mat_item m, mat_count m)) ms, vl_prayed_at = v_sqlnow env 2,
         vl_balance_before = before, vl_balance_after = after, vl_accrued_pts = fadd (fsub after before) cost\<rparr>]\<rparr>"
  unfolding log_vow_def Let_def if_Inl_eq_Inr by simp

text \<open>The stages of a successful transaction, in order.\<close>

lemma pray_tx_stages:
  assumes "pray_tx h env pid req base target rate infN ign db = Inr (resp, db4)"
  obtains before db1 st db2 success item g db3 where
    "vow_balance (v_fault env 1) pid db = Inr before"
    "pay_vow env (if infN then Fin 0 else NPower req) pid db = Inr (db1, st)"
    "consume_materials env ign pid (Materials req) db1 = Inr db2"
    "roll_vow h env (DebugOptions req) rate = Inr success"
    "pick_reward h env (if success then target else base) = Inr item"
    "grant_vow env pid item (if success then target else base) db2 = Inr (g, db3)"
    "log_vow env pid base target rate (if infN then Fin 0 else NPower req) before (enlightenment_pts st) success item
       (if success then target else base) g (Materials req) db3 = Inr db4"
    "resp = \<lparr>vr_result = (if success then ''Success'' else ''Failed''), vr_item = item,
       vr_rarity = (if success then target else base), vr_reward = g,
       vr_duplicate = grant_duplicate g, vr_new_count = grant_count g, vr_source = SourceVowReward,
       vr_base = base, vr_target = target, vr_rate = rate, vr_balance_after = enlightenment_pts st,
       vr_last_sync_at = v_sqlnow env 0, vr_inventory = [], vr_is_new = (\<not> grant_duplicate g)\<rparr>"
  using assms unfolding pray_tx_def Let_def bindE_eq_Inr
  by (elim exE conjE) (auto simp: bindE_eq_Inr simp del: if_split intro: that)

lemma vow_lookup_frames [frame_simps]:
  "inv_of (db\<lparr>vow_logs := v\<rparr>) q x = inv_of db q x"
  "state_of (db\<lparr>vow_logs := v\<rparr>) q = state_of db q"
  by (simp_all add: inv_of_def state_of_def)

lemma pray_tx_contract:
  assumes keys: "keys_ok db" and stock: "stock_ok db"
    and check: "check_request h req = Some (base, target, tier)"
    and run: "pray_tx h env pid req base target (calcSuccessRate tier (NPower req))
      (debug_flag h InfiniteNPower req) (debug_flag h IgnoreRequiredItems req) db = Inr (resp, db4)"
  shows "vow_contract h env pid req db resp db4"
    and "PickByRarity (vow_pool h) (v_pick env) (vr_rarity resp) = Some (vr_item resp)"
proof -
  let ?cost = "if debug_flag h InfiniteNPower req then Fin 0 else NPower req" and ?ign = "debug_flag h IgnoreRequiredItems req"
  obtain before db1 st1 db2 success item g db3 where
    bal: "vow_balance (v_fault env 1) pid db = Inr before" and pay: "pay_vow env ?cost pid db = Inr (db1, st1)"
    and cons: "consume_materials env ?ign pid (Materials req) db1 = Inr db2"
    and pick: "pick_reward h env (if success then target else base) = Inr item"
    and grant: "grant_vow env pid item (if success then target else base) db2 = Inr (g, db3)"
    and log: "log_vow env pid base target (calcSuccessRate tier (NPower req)) ?cost before (enlightenment_pts st1) success item
       (if success then target else base) g (Materials req) db3 = Inr db4"
    and resp: "resp = \<lparr>vr_result = (if success then ''Success'' else ''Failed''), vr_item = item,
       vr_rarity = (if success then target else base), vr_reward = g,
       vr_duplicate = grant_duplicate g, vr_new_count = grant_count g, vr_source = SourceVowReward,
       vr_base = base, vr_target = target, vr_rate = calcSuccessRate tier (NPower req),
       vr_balance_after = enlightenment_pts st1,
       vr_last_sync_at = v_sqlnow env 0, vr_inventory = [], vr_is_new = (\<not> grant_duplicate g)\<rparr>"
    by (rule pray_tx_stages [OF run]) (rule that; assumption)
  show "PickByRarity (vow_pool h) (v_pick env) (vr_rarity resp) = Some (vr_item resp)"
    using pick_reward_Inr [OF pick] by (simp add: resp)
  obtain st where st: "state_of db pid = Some st" "fle ?cost (accrued_balance (v_sqlnow env 0) st)"
    and st1: "st1 = st\<lparr>enlightenment_pts := fsub (accrued_balance (v_sqlnow env 0) st) ?cost, last_sync_at := Some (v_sqlnow env 0)\<rparr>"
    and db1: "db1 = set_state pid (\<lambda>_. st1) db" and st1': "state_of db1 pid = Some st1" and p1: "s_player st1 = pid"
    using accrue_deduct_set_state [OF keys pay_vow_Inr [OF pay]] by metis
  have k1: "keys_ok db1"
  proof -
    let ?f = "\<lambda>x. if s_player x = pid then st1 else x"
    have "db1 = set_state pid ?f db" unfolding db1 set_state_def sql_update_def by simp
    then show ?thesis using keys keys_ok_set_state [of ?f pid db] p1 by simp
  qed
  have s1: "stock_ok db1" using stock by (simp add: stock_ok_def db1 frame_simps)
  have own1: "owned db1 q x = owned db q x" for q x by (simp add: owned_def inv_of_def db1 frame_simps)
  note C = consume_materials_effect [OF k1 s1 cons]
  obtain t2 where db2: "db2 = db1\<lparr>inventories := t2\<rparr>" using C(2) by blast
  note G = GrantItem_effect [OF grant_vow_Inr [OF grant]]
  obtain t3 where db3: "db3 = db2\<lparr>inventories := t3\<rparr>" using G(8) by blast
  note db4 = log_vow_Inr [OF log]
  have own4: "owned db4 q x = owned db3 q x" for q x by (simp add: owned_def inv_of_def db4)
  have "vow_trades h pid req resp db db4"
  proof (cases ?ign)
    case True
    have "0 \<le> owned db pid x" for x
      using stock owned_nonneg [of pid db pid x] by (force simp: stock_ok_def stock_open_def)
    then show ?thesis using True C(1) G(1,2,3) by (simp add: vow_trades_def own1 own4 resp consumed_def)
  next
    case False
    then show ?thesis using C(1,6) G(1,2,3) by (simp add: vow_trades_def own1 own4 resp)
  qed
  moreover have "before = enlightenment_pts st" using vow_balance_Inr [OF bal] st(1) by auto
  then have "vow_records env pid req (vow_cost h req) (enlightenment_pts st) resp db db4"
    unfolding vow_records_def vow_cost_def by (simp add: db4 db3 db2 db1 resp frame_simps)
  moreover have "vow_frame pid db db4"
  proof -
    have "state_of db4 q = state_of db q" if "q \<noteq> pid" for q
    proof -
      have "state_of db4 q = state_of db1 q" by (simp add: db4 db3 db2 frame_simps)
      also have "\<dots> = state_of db q"
        unfolding db1 set_state_def state_of_def using that p1 by (simp add: find_sql_update_other)
      finally show ?thesis .
    qed
    then show ?thesis by (simp add: vow_frame_def db4 db3 db2 db1 frame_simps)
  qed
  moreover have "state_of db4 pid = Some st1" using st1' by (simp add: db4 db3 db2 frame_simps)
  moreover have "vow_pays env (vow_cost h req) st st1" using st st1 by (simp add: vow_pays_def vow_cost_def)
  ultimately show "vow_contract h env pid req db resp db4"
    unfolding vow_contract_def using check st(1) by (intro exI [of _ tier] exI [of _ st] exI [of _ st1]) (simp add: resp)
qed

lemma db_ok_pray_tx:
  assumes "db_ok c db" and "pray_tx h env pid req base target rate infN ign db = Inr (resp, db4)"
  shows "db_ok c db4"
  using assms(2)
proof (rule pray_tx_stages)
  fix before db1 st db2 success item g db3
  assume pay: "pay_vow env (if infN then Fin 0 else NPower req) pid db = Inr (db1, st)"
    and cons: "consume_materials env ign pid (Materials req) db1 = Inr db2"
    and grant: "grant_vow env pid item (if success then target else base) db2 = Inr (g, db3)"
    and log: "log_vow env pid base target rate (if infN then Fin 0 else NPower req) before (enlightenment_pts st) success item
       (if success then target else base) g (Materials req) db3 = Inr db4"
  have ok1: "db_ok c db1" using db_ok_accrue_deduct [OF assms(1) pay_vow_Inr [OF pay]] .
  note C = consume_materials_effect [OF db_okD(1) [OF ok1] db_okD(4) [OF ok1] cons]
  obtain t where db2: "db2 = db1\<lparr>inventories := t\<rparr>" using C(2) by blast
  have ok2: "db_ok c db2"
    using C(3-5) ok1 unfolding db_ok_def by (simp add: db2 balances_ok_def slots_ok_def)
  note G = GrantItem_invariants [OF grant_vow_Inr [OF grant]] and E = GrantItem_effect(8) [OF grant_vow_Inr [OF grant]]
  obtain t where db3: "db3 = db2\<lparr>inventories := t\<rparr>" using E by blast
  have ok3: "db_ok c db3"
    using G ok2 by (simp add: db_ok_def) (simp add: db3 balances_ok_def slots_ok_def)
  show ?thesis using ok3 log_vow_Inr [OF log]
    by (simp add: db_ok_def keys_ok_def refs_ok_def balances_ok_def stock_ok_def slots_ok_def has_player_def)
qed

end
