(* ===== verification/VowProps.thy ===== *)
theory VowProps
  imports Vow
begin

text \<open>
  The properties of the vow handler: its contract, what a refusal leaves behind, the invariant of
  the data base, the rarity of the reward, and the number of items that a vow consumes.
\<close>

section \<open>Answers and transactions\<close>

lemma vow_contract_inventory [simp]:
  "vow_contract h env pid req db (resp\<lparr>vr_inventory := x\<rparr>) db' \<longleftrightarrow> vow_contract h env pid req db resp db'"
  by (simp add: vow_contract_def vow_trades_def vow_records_def)

lemma execPray_Inr:
  assumes "execPray h env pid req base target rate infN ign db = (Inr resp, db')"
  obtains resp0 where "pray_tx h env pid req base target rate infN ign db = Inr (resp0, db')"
    and "loadInventory False pid db' = Some (vr_inventory resp)" and "resp = resp0\<lparr>vr_inventory := vr_inventory resp\<rparr>"
proof -
  obtain resp0 d where tx: "pray_tx h env pid req base target rate infN ign db = Inr (resp0, d)"
    using assms by (cases "pray_tx h env pid req base target rate infN ign db") (auto simp: execPray_def split: if_splits)
  with assms that show thesis
    by (auto simp: execPray_def loadInventory_def split: if_splits option.splits)
qed

lemma execPray_Inl:
  assumes "execPray h env pid req base target rate infN ign db = (Inl e, db')"
  shows "db' = db \<or> e = PrayFailed \<and> v_fault env 7 \<and>
    (\<exists>resp. pray_tx h env pid req base target rate infN ign db = Inr (resp, db'))"
  using assms
  by (cases "pray_tx h env pid req base target rate infN ign db")
    (auto simp: execPray_def loadInventory_def split: if_splits option.splits)

lemma pray_rejection_not_OK [simp]: "pray_rejection e \<noteq> OK resp"
  by (cases e) simp_all

lemma Pray_OK:
  assumes "Pray h env pid body db = (OK resp, db')"
  obtains req base target tier resp0 where "body = Some req" and "check_request h req = Some (base, target, tier)"
    and "pray_tx h env pid req base target (calcSuccessRate tier (NPower req))
      (debug_flag h InfiniteNPower req) (debug_flag h IgnoreRequiredItems req) db = Inr (resp0, db')"
    and "loadInventory False pid db' = Some (vr_inventory resp)" and "resp = resp0\<lparr>vr_inventory := vr_inventory resp\<rparr>"
proof -
  obtain req where req: "body = Some req" using assms by (cases body) (simp_all add: Pray_def)
  obtain base target tier where c: "check_request h req = Some (base, target, tier)"
    using assms req by (cases "check_request h req") (auto simp: Pray_def)
  obtain e d where x: "execPray h env pid req base target (calcSuccessRate tier (NPower req))
      (debug_flag h InfiniteNPower req) (debug_flag h IgnoreRequiredItems req) db = (e, d)" by fastforce
  with assms req c have "execPray h env pid req base target (calcSuccessRate tier (NPower req))
      (debug_flag h InfiniteNPower req) (debug_flag h IgnoreRequiredItems req) db = (Inr resp, db')"
    by (cases e) (simp_all add: Pray_def)
  then show thesis by (rule execPray_Inr) (rule that [OF req c])
qed

text \<open>The request was acceptable and its transaction leads to \<open>db'\<close>.\<close>

definition vow_commits :: "vow_handler \<Rightarrow> vow_env \<Rightarrow> string \<Rightarrow> pray_request option \<Rightarrow> database \<Rightarrow> database \<Rightarrow> bool" where
  "vow_commits h env pid body db db' \<longleftrightarrow>
     (\<exists>req base target tier resp. body = Some req \<and> check_request h req = Some (base, target, tier) \<and>
        pray_tx h env pid req base target (calcSuccessRate tier (NPower req))
          (debug_flag h InfiniteNPower req) (debug_flag h IgnoreRequiredItems req) db = Inr (resp, db'))"

lemma Pray_Reject:
  assumes "Pray h env pid body db = (Reject status code, db')"
  shows "(status, code) \<in> {(400, ''INVALID_REQUEST''), (409, ''INSUFFICIENT_POINTS''),
      (409, ''INSUFFICIENT_MATERIALS''), (500, ''INTERNAL_ERROR'')} \<and>
    (db' = db \<or> status = 500 \<and> v_fault env 7 \<and> vow_commits h env pid body db db')"
proof -
  consider "body = None" | req where "body = Some req" "check_request h req = None"
    | req base target tier where "body = Some req" "check_request h req = Some (base, target, tier)"
    by (cases body) (auto, metis option.exhaust prod_cases3)
  then show ?thesis
  proof cases
    case (3 req base target tier)
    obtain r d where x: "execPray h env pid req base target (calcSuccessRate tier (NPower req))
      (debug_flag h InfiniteNPower req) (debug_flag h IgnoreRequiredItems req) db = (r, d)" by fastforce
    with assms 3 obtain e where e: "r = Inl e" "d = db'" "pray_rejection e = (Reject status code :: pray_response answer)"
      by (cases r) (simp_all add: Pray_def)
    have "db' = db \<or> e = PrayFailed \<and> v_fault env 7 \<and> vow_commits h env pid body db db'"
      using execPray_Inl [OF x [unfolded e]] 3 unfolding vow_commits_def by blast
    with e(3) show ?thesis by (cases e) auto
  qed (use assms in \<open>simp_all add: Pray_def\<close>)
qed

section \<open>The number of items\<close>

lemma count_materials_exact:
  assumes "count_materials ms tot = Some n" and "0 \<le> tot" and "tot + count_sum ms < 2 ^ 63"
  shows "n = tot + count_sum ms"
  using assms
proof (induction ms arbitrary: tot)
  case Nil
  then show ?case by (simp add: count_sum_def)
next
  case (Cons m ms)
  have c: "0 < mat_count m" using Cons.prems(1) by (simp split: if_splits)
  have s: "count_sum (m # ms) = mat_count m + count_sum ms" by (simp add: count_sum_def)
  have pos: "0 \<le> count_sum xs" if "count_materials xs t = Some k" for xs t k
    using that by (induction xs arbitrary: t) (auto simp: count_sum_def split: if_splits)
  have "count_materials ms (wrap64 (tot + mat_count m)) = Some n" using Cons.prems(1) c by simp
  moreover from this have "0 \<le> count_sum ms" by (rule pos)
  moreover from this have "wrap64 (tot + mat_count m) = tot + mat_count m"
    using Cons.prems(2,3) c s by (intro wrap64_id) linarith+
  ultimately show ?case using Cons.IH [of "tot + mat_count m"] Cons.prems c s by simp
qed

lemma count_materials_positive: "count_materials ms tot = Some n \<Longrightarrow> \<forall>m \<in> set ms. 1 \<le> mat_count m"
  by (induction ms arbitrary: tot) (auto split: if_splits)

lemma consumed_total:
  assumes "finite S" and "mat_item ` set ms \<subseteq> S"
  shows "(\<Sum>x\<in>S. consumed ms x) = count_sum ms"
  using assms(2)
proof (induction ms)
  case (Cons m ms)
  have "consumed (m # ms) x = (if x = mat_item m then mat_count m else 0) + consumed ms x" for x
    by (simp add: consumed_def)
  then have "(\<Sum>x\<in>S. consumed (m # ms) x) = (\<Sum>x\<in>S. if x = mat_item m then mat_count m else 0) + (\<Sum>x\<in>S. consumed ms x)"
    by (simp add: sum.distrib)
  also have "(\<Sum>x\<in>S. if x = mat_item m then mat_count m else 0) = mat_count m"
    using assms(1) Cons.prems by (simp add: sum.delta)
  finally show ?case using Cons by (simp add: count_sum_def)
qed (simp add: consumed_def count_sum_def)

text \<open>The number of items that a player holds.\<close>

definition holdings :: "string \<Rightarrow> database \<Rightarrow> int" where
  "holdings pid db = sum_list (map item_count (filter (\<lambda>r. inv_player r = pid) (inventories db)))"

lemma owned_total:
  assumes "finite S" and "\<forall>r \<in> set (inventories db). 0 \<le> item_count r"
  shows "(\<Sum>x\<in>S. owned db pid x) \<le> holdings pid db"
proof -
  let ?own = "\<lambda>t x. case find (\<lambda>r. inv_player r = pid \<and> item_id r = x) t of None \<Rightarrow> 0 | Some r \<Rightarrow> item_count r"
  have "(\<Sum>x\<in>S. ?own t x) \<le> sum_list (map item_count (filter (\<lambda>r. inv_player r = pid) t))"
    if "\<forall>r \<in> set t. 0 \<le> item_count r" for t
    using that
  proof (induction t)
    case (Cons r t)
    have nn: "0 \<le> ?own t x" for x
      using Cons.prems by (auto split: option.split dest!: find_SomeD)
    have "?own (r # t) x \<le> (if x = item_id r then (if inv_player r = pid then item_count r else 0) else 0) + ?own t x" for x
      using nn [of x] by auto
    then have "(\<Sum>x\<in>S. ?own (r # t) x) \<le>
        (\<Sum>x\<in>S. (if x = item_id r then (if inv_player r = pid then item_count r else 0) else 0) + ?own t x)"
      by (intro sum_mono) blast
    also have "\<dots> = (\<Sum>x\<in>S. if x = item_id r then (if inv_player r = pid then item_count r else 0) else 0) + (\<Sum>x\<in>S. ?own t x)"
      by (rule sum.distrib)
    also have "\<dots> \<le> (if inv_player r = pid then item_count r else 0) + (\<Sum>x\<in>S. ?own t x)"
      using assms(1) Cons.prems by (simp add: sum.delta)
    also have "\<dots> \<le> sum_list (map item_count (filter (\<lambda>r. inv_player r = pid) (r # t)))"
      using Cons by simp
    finally show ?case .
  qed simp
  from this [OF assms(2)] show ?thesis by (simp add: owned_def inv_of_def holdings_def)
qed

lemma consumed_within_holdings:
  assumes "stock_ok db" and "\<forall>x. consumed ms x \<le> owned db pid x"
  shows "count_sum ms \<le> holdings pid db"
proof -
  let ?S = "mat_item ` set ms"
  have "count_sum ms = (\<Sum>x\<in>?S. consumed ms x)" by (rule consumed_total [symmetric]) simp_all
  also have "\<dots> \<le> (\<Sum>x\<in>?S. owned db pid x)" using assms(2) by (intro sum_mono) blast
  also have "\<dots> \<le> holdings pid db"
    using assms(1) by (intro owned_total) (auto simp: stock_ok_def dest: order_trans [rotated])
  finally show ?thesis .
qed

section \<open>When a vow succeeds\<close>

lemma consume_one_passes:
  assumes "keys_ok db" and "1 \<le> mat_count m" and "mat_count m \<le> owned db pid (mat_item m)"
  shows "\<exists>db'. consume_one False pid m db = Inr db'"
proof -
  let ?Q = "\<lambda>r. item_count r \<ge> mat_count m"
  obtain r where r: "inv_of db pid (mat_item m) = Some r" "?Q r"
    using assms(2,3) by (auto simp: owned_def split: option.splits)
  have "distinct (map (\<lambda>r. (inv_player r, item_id r)) (inventories db))" using assms(1) by (simp add: keys_ok_def)
  from sql_affected_key [OF this, of "(pid, mat_item m)" ?Q]
  have "sql_affected (\<lambda>r. (inv_player r = pid \<and> item_id r = mat_item m) \<and> ?Q r) (inventories db) \<le> 1" by simp
  moreover have "sql_affected (\<lambda>r. (inv_player r = pid \<and> item_id r = mat_item m) \<and> ?Q r) (inventories db) \<noteq> 0"
    using inv_ofD [OF r(1)] r(2) by (auto simp: sql_affected_0_iff)
  ultimately have "sql_affected (\<lambda>r. (inv_player r = pid \<and> item_id r = mat_item m) \<and> ?Q r) (inventories db) = 1" by simp
  then show ?thesis unfolding consume_one_def Let_def by simp
qed

lemma consume_loop_passes:
  assumes "keys_ok db" and "\<forall>m \<in> set ms. 1 \<le> mat_count m" and "\<forall>x. consumed ms x \<le> owned db pid x"
    and "\<forall>j. \<not> ft j"
  shows "\<exists>db'. consume_loop ft k pid ms db = Inr db'"
  using assms
proof (induction ms arbitrary: db k)
  case (Cons m ms)
  have c: "consumed (m # ms) x = (if x = mat_item m then mat_count m else 0) + consumed ms x" for x
    by (simp add: consumed_def)
  have nn: "0 \<le> consumed ms x" for x
    using Cons.prems(2) unfolding consumed_def by (intro sum_list_nonneg) auto
  have "mat_count m \<le> owned db pid (mat_item m)"
    using Cons.prems(3) [rule_format, of "mat_item m"] c [of "mat_item m"] nn [of "mat_item m"] by simp
  then obtain db1 where one: "consume_one False pid m db = Inr db1"
    using consume_one_passes [OF Cons.prems(1), of m pid] Cons.prems(2) by auto
  note e = consume_one_effect [OF Cons.prems(1) one]
  have "consumed ms x \<le> owned db1 pid x" for x using Cons.prems(3) [rule_format, of x] c [of x] by (simp add: e(1))
  then obtain db' where "consume_loop ft (k + 1) pid ms db1 = Inr db'"
    using Cons.IH [OF e(3) _ _ Cons.prems(4), of "k + 1"] Cons.prems(2) by auto
  moreover have "ft k = False" using Cons.prems(4) by blast
  ultimately show ?case by (simp add: one)
qed simp

text \<open>A vow in whole points small enough for a float to count exactly.\<close>

definition affordable :: "vow_env \<Rightarrow> f64 \<Rightarrow> state_row \<Rightarrow> bool" where
  "affordable env cost st \<longleftrightarrow> (\<exists>b a k. enlightenment_pts st = Fin (of_int b) \<and>
     accrual (v_sqlnow env 0) st = Fin (of_int a) \<and> cost = Fin (of_int k) \<and>
     0 \<le> b \<and> 0 \<le> a \<and> 0 \<le> k \<and> k \<le> b + a \<and> b + a + k \<le> 2 ^ 53)"

lemma affordable_pays:
  assumes "keys_ok db" and "state_of db pid = Some st" and "affordable env cost st" and "\<not> v_fault env 2"
  obtains db1 st1 where "pay_vow env cost pid db = Inr (db1, st1)" and "keys_ok db1" and "\<exists>t. db1 = db\<lparr>player_states := t\<rparr>"
    and "enlightenment_pts st1 \<noteq> NaN" and "fadd (fsub (enlightenment_pts st1) (enlightenment_pts st)) cost \<noteq> NaN"
    and "cost \<noteq> NaN" and "enlightenment_pts st \<noteq> NaN"
proof -
  obtain b a k where w: "enlightenment_pts st = Fin (of_int b)" "accrual (v_sqlnow env 0) st = Fin (of_int a)"
    "cost = Fin (of_int k)" "0 \<le> b" "0 \<le> a" "0 \<le> k" "k \<le> b + a" "b + a + k \<le> 2 ^ 53"
    using assms(3) unfolding affordable_def by blast
  have acc: "accrued_balance (v_sqlnow env 0) st = Fin (of_int (b + a))"
    using w fadd_int [of b a] by (simp add: accrued_balance_def)
  have after: "fsub (accrued_balance (v_sqlnow env 0) st) cost = Fin (of_int (b + a - k))"
    using w fsub_int [of "b + a" k] unfolding acc by simp
  have "fle cost (accrued_balance (v_sqlnow env 0) st)" using w unfolding acc by (simp flip: of_int_add)
  moreover have "fsub (accrued_balance (v_sqlnow env 0) st) cost \<noteq> NaN" unfolding after by simp
  ultimately obtain db1 st1 where d: "accrue_deduct (v_sqlnow env 0) cost pid db = Inr (db1, st1)"
    using accrue_deduct_succeeds [OF assms(1,2)] by (metis surj_pair)
  obtain r where r: "state_of db pid = Some r" and db1: "db1 = set_state pid (\<lambda>_. st1) db" and s: "s_player st1 = pid"
    and st1: "st1 = r\<lparr>enlightenment_pts := fsub (accrued_balance (v_sqlnow env 0) r) cost, last_sync_at := Some (v_sqlnow env 0)\<rparr>"
    by (rule accrue_deduct_set_state [OF assms(1) d])
  have pts: "enlightenment_pts st1 = Fin (of_int (b + a - k))" using r assms(2) after unfolding st1 by simp
  have "fsub (Fin (of_int (b + a - k))) (Fin (of_int b)) = Fin (of_int (b + a - k - b))"
    by (rule fsub_int) (use w in \<open>simp add: abs_le_iff\<close>)
  then have log: "fadd (fsub (enlightenment_pts st1) (enlightenment_pts st)) cost \<noteq> NaN" unfolding pts w by simp
  have "db1 = set_state pid (\<lambda>x. if s_player x = pid then st1 else x) db"
    unfolding db1 set_state_def sql_update_def by simp
  then have "keys_ok db1" using assms(1) s keys_ok_set_state [of "\<lambda>x. if s_player x = pid then st1 else x" pid db] by simp
  moreover have "\<exists>t. db1 = db\<lparr>player_states := t\<rparr>" unfolding db1 set_state_def by blast
  moreover have "pay_vow env cost pid db = Inr (db1, st1)" using assms(4) by (simp add: pay_vow_def d)
  ultimately show thesis using that log pts w by simp
qed

lemma orderRarity_gacha: "1 \<le> n \<Longrightarrow> n \<le> 5 \<Longrightarrow> isGachaRarity (orderRarity n)"
  by (auto simp: orderRarity_def isGachaRarity_def)

lemma rarityOrder_orderRarity: "1 \<le> n \<Longrightarrow> n \<le> 5 \<Longrightarrow> rarityOrder (orderRarity n) = n"
  by (auto simp: orderRarity_def rarityOrder_def rarity_defs)

lemma check_request_rarities:
  assumes "check_request h req = Some (base, target, tier)"
  obtains n where "1 \<le> n" and "n \<le> 4" and "base = orderRarity n" and "target = orderRarity (n + 1)"
    and "vow_tiers h target = Some tier"
proof -
  have c: "computeRarities (vow_pool h) (Materials req) = Some (base, target)" "vow_tiers h target = Some tier"
    using assms by (auto simp: check_request_def split: option.splits if_splits)
  then obtain tot acc where "base = orderRarity (half_up acc tot)" "target = orderRarity (half_up acc tot + 1)"
    "\<not> half_up acc tot < 1" "\<not> half_up acc tot \<ge> 5"
    by (auto simp: computeRarities_def Let_def split: option.splits if_splits)
  with that [of "half_up acc tot"] c(2) show thesis by simp
qed

lemma check_request_counts: "check_request h req = Some x \<Longrightarrow> \<forall>m \<in> set (Materials req). 1 \<le> mat_count m"
  by (auto simp: check_request_def split: option.splits dest: count_materials_positive)

lemma NewHandler_tier:
  assumes "vow_tiers (NewHandler pool n ts allow) r = Some t"
  shows "t \<in> set ts"
proof -
  have "foldl (\<lambda>m t. m(TargetRarity t \<mapsto> t)) m ts r = Some t \<Longrightarrow> m r = Some t \<or> t \<in> set ts" for m
  proof (induction ts arbitrary: m)
    case (Cons a ts)
    then show ?case using Cons.IH [of "m(TargetRarity a \<mapsto> a)"] by (auto split: if_splits)
  qed simp
  from this [of Map.empty] assms show ?thesis by (simp add: NewHandler_def)
qed

text \<open>The transaction goes through when nothing fails and the player can pay in points and materials.\<close>

lemma pray_tx_succeeds:
  assumes ok: "keys_ok db" "refs_ok db" "stock_ok db" and nf: "\<forall>k. \<not> v_fault env k" "\<forall>k. \<not> v_material_fault env k"
    and rand: "v_percent env = Some bs" "v_pick env = Some seed" and pool: "pool_ok (vow_pool h)"
    and r: "isGachaRarity base" "isGachaRarity target" and rate: "rate \<noteq> NaN"
    and st: "state_of db pid = Some st" "affordable env (if infN then Fin 0 else NPower req) st"
    and ms: "\<forall>m \<in> set (Materials req). 1 \<le> mat_count m" "\<not> ign \<longrightarrow> (\<forall>x. consumed (Materials req) x \<le> owned db pid x)"
    and ids: "\<forall>x \<in> set (inventories db). inv_id x \<noteq> v_uuid env 0" "\<forall>l \<in> set (vow_logs db). vl_id l \<noteq> v_uuid env 1"
  shows "\<exists>x. pray_tx h env pid req base target rate infN ign db = Inr x"
proof -
  let ?cost = "if infN then Fin 0 else NPower req"
  have bal: "vow_balance (v_fault env 1) pid db = Inr (enlightenment_pts st)" using nf st(1) by (simp add: vow_balance_def)
  obtain db1 st1 where pay: "pay_vow env ?cost pid db = Inr (db1, st1)" and k1: "keys_ok db1"
    and e1: "\<exists>t. db1 = db\<lparr>player_states := t\<rparr>"
    and nn: "enlightenment_pts st1 \<noteq> NaN" "fadd (fsub (enlightenment_pts st1) (enlightenment_pts st)) ?cost \<noteq> NaN"
      "?cost \<noteq> NaN" "enlightenment_pts st \<noteq> NaN"
    using affordable_pays [OF ok(1) st] nf(1) by blast
  obtain t1 where db1: "db1 = db\<lparr>player_states := t1\<rparr>" using e1 by blast
  have s1: "stock_ok db1" "\<And>x. owned db1 pid x = owned db pid x"
    using ok(3) by (simp_all add: db1 stock_ok_def owned_def frame_simps)
  obtain db2 where cons: "consume_materials env ign pid (Materials req) db1 = Inr db2"
  proof (cases ign)
    case True
    then show thesis using that by (simp add: consume_materials_def)
  next
    case False
    then obtain d where "consume_loop (v_material_fault env) 0 pid (Materials req) db1 = Inr d"
      using consume_loop_passes [OF k1 ms(1) _ nf(2), of pid 0] ms(2) s1(2) by auto
    with that nf(1) False show thesis by (simp add: consume_materials_def drop_empty_def)
  qed
  obtain p where "rollPercent (Some bs) = Some (Fin p)" by (rule rollPercent_range [OF refl, of bs])
  then have "\<exists>success. rollSuccess h (DebugOptions req) rate (v_percent env) = Some success"
    using rand(1) by (auto simp: rollSuccess_def)
  then obtain success where roll: "roll_vow h env (DebugOptions req) rate = Inr success" by (auto simp: roll_vow_def)
  let ?r = "if success then target else base"
  have "isGachaRarity ?r" using r by simp
  then obtain item where "PickByRarity (vow_pool h) (Some seed) ?r = Some item" by (rule PickByRarity_ok [OF pool])
  then have pick: "pick_reward h env ?r = Inr item" using rand(2) by (simp add: pick_reward_def)
  obtain t2 where db2: "db2 = db1\<lparr>inventories := t2\<rparr>" using consume_materials_effect(2) [OF k1 s1(1) cons] by blast
  have sub: "inv_id ` set t2 \<subseteq> inv_id ` set (inventories db1)" using consume_materials_ids [OF cons] by (simp add: db2)
  have hp: "has_player db pid" using ok(2) state_ofD [OF st(1)] by (auto simp: refs_ok_def)
  have hp2: "has_player db2 pid" using hp by (simp add: has_player_def db2 db1)
  have fresh: "\<not> list_ex (\<lambda>x. inv_id x = v_uuid env 0) (inventories db2)"
    using ids(1) sub by (fastforce simp: db2 db1 list_ex_iff)
  obtain g db3 where G: "GrantItem False (v_sqlnow env 1) (v_uuid env 0) pid item ?r ItemTypeStoneSkin SourceVowReward db2 = Inr (g, db3)"
    using GrantItem_passes [OF fresh hp2] by blast
  then have grant: "grant_vow env pid item ?r db2 = Inr (g, db3)" using nf(1) by (simp add: grant_vow_def)
  obtain t3 where db3: "db3 = db2\<lparr>inventories := t3\<rparr>" using GrantItem_effect(8) [OF G] by blast
  have "\<not> list_ex (\<lambda>l. vl_id l = v_uuid env 1) (vow_logs db3)" using ids(2) by (simp add: db3 db2 db1 list_ex_iff)
  moreover have "has_player db3 pid" using hp2 by (simp add: has_player_def db3)
  ultimately obtain db4 where log: "log_vow env pid base target rate ?cost (enlightenment_pts st) (enlightenment_pts st1) success item ?r g (Materials req) db3 = Inr db4"
    using nf(1) nn rate unfolding log_vow_def Let_def by simp
  show ?thesis
    unfolding pray_tx_def Let_def bal pay bindE_simps prod.case cons roll pick grant log by blast
qed

section \<open>A run\<close>

definition demo_vow_pool :: skin_pool where
  "demo_vow_pool = \<lparr>partsByRarity = (\<lambda>r. if isGachaRarity r then [''top''] else []),
     byPartRarity = (\<lambda>part r. if part = ''top'' \<and> isGachaRarity r then [''skin-'' @ r] else []),
     partTypes = [''top''],
     skinRarity = (\<lambda>s. find (\<lambda>r. s = ''skin-'' @ r) gachaRarities), stats = no_stats\<rparr>"

definition demo_vow :: "bool \<Rightarrow> vow_handler" where
  "demo_vow allow = NewHandler demo_vow_pool 7 shipped_tiers allow"

definition demo_vow_env :: "nat option \<Rightarrow> vow_env" where
  "demo_vow_env f = \<lparr>v_sqlnow = (\<lambda>_. 200), v_fault = (\<lambda>k. f = Some k), v_material_fault = (\<lambda>_. False),
     v_uuid = (\<lambda>k. if k = 0 then ''i9'' else ''v1''), v_percent = Some (replicate 8 0), v_pick = Some (replicate 8 0)\<rparr>"

definition demo_item :: "string \<Rightarrow> string \<Rightarrow> int \<Rightarrow> inv_row" where
  "demo_item i r n = \<lparr>inv_id = i, inv_player = ''p'', item_id = ''skin-'' @ r, rarity = r, item_count = n,
     item_type = ItemTypeStoneSkin, source_type = SourceWishCairn, acquired_at = 100\<rparr>"

definition demo_hoard :: database where
  "demo_hoard = demo_db\<lparr>player_states := [demo_row\<lparr>enlightenment_pts := Fin 3000\<rparr>],
     inventories := [demo_item ''i1'' Rare 8, demo_item ''i2'' Unique 1]\<rparr>"

definition demo_request :: "debug_options option \<Rightarrow> pray_request" where
  "demo_request d = \<lparr>Materials = [\<lparr>mat_item = ''skin-rare'', mat_count = 3\<rparr>, \<lparr>mat_item = ''skin-rare'', mat_count = 4\<rparr>],
     NPower = Fin 2500, DebugOptions = d\<rparr>"

definition demo_pray :: "nat option \<Rightarrow> pray_response answer \<times> database" where
  "demo_pray f = Pray (demo_vow False) (demo_vow_env f) ''p'' (Some (demo_request None)) demo_hoard"

lemma demo_vow_pool_ok: "pool_ok demo_vow_pool"
proof -
  have f: "find (\<lambda>r. ''skin-'' @ q = ''skin-'' @ r) gachaRarities = (if isGachaRarity q then Some q else None)" for q
    by (auto simp: gachaRarities_def isGachaRarity_def rarity_defs)
  have "isGachaRarity r" if "find (\<lambda>r. s = ''skin-'' @ r) gachaRarities = Some r" for s r
    using find_SomeD [OF that] by (simp add: isGachaRarity_iff)
  then show ?thesis using f by (simp add: pool_ok_def demo_vow_pool_def)
qed

lemma demo_check: "check_request (demo_vow False) (demo_request None) = Some (Rare, Unique, shipped_tiers ! 2)"
  by code_simp

lemma shipped_tiers_ok: "\<forall>t \<in> set shipped_tiers. tier_ok t \<and> tier_floats t"
  by (simp add: shipped_tiers_def tier_ok_def validVowRarities_def tier_floats_def)

lemma demo_hoard_state: "state_of demo_hoard ''p'' = Some (demo_row\<lparr>enlightenment_pts := Fin 3000\<rparr>)"
  by (simp add: state_of_def demo_hoard_def demo_row_def demo_state_def)

lemma demo_hoard_ok: "db_ok demo_cairn demo_hoard"
  by (simp add: db_ok_def keys_ok_def refs_ok_def balances_ok_def stock_ok_def slots_ok_def)
    (simp add: demo_hoard_def demo_item_def demo_db_def empty_db_def new_slot_def demo_cairn_def has_player_def
      demo_row_def demo_state_def rarity_defs)

lemma demo_affordable: "affordable (demo_vow_env f) (Fin 2500) (demo_row\<lparr>enlightenment_pts := Fin 3000\<rparr>)"
proof -
  have "accrual 200 (demo_row\<lparr>enlightenment_pts := Fin 3000\<rparr>) = Fin (of_int (max 0 ((200 - 100) * 1)))"
    by (rule accrual_int) (simp_all add: demo_row_def demo_state_def)
  then show ?thesis
    unfolding affordable_def by (intro exI [of _ 3000] exI [of _ 100] exI [of _ 2500]) (simp add: demo_vow_env_def)
qed

lemma demo_owns: "consumed (Materials (demo_request d)) x \<le> owned demo_hoard ''p'' x"
  by (auto simp: consumed_def demo_request_def owned_def inv_of_def demo_hoard_def demo_item_def rarity_defs)

lemma Pray_succeeds:
  assumes "keys_ok db" "refs_ok db" "stock_ok db" and "\<forall>k. \<not> v_fault env k" "\<forall>k. \<not> v_material_fault env k"
    and "v_percent env = Some bs" "v_pick env = Some seed" and "pool_ok pool"
    and "\<forall>t \<in> set ts. tier_ok t \<and> tier_floats t" and "check_request (NewHandler pool n ts allow) req = Some x"
    and "NPower req \<noteq> NaN" and "state_of db pid = Some st"
    and "affordable env (vow_cost (NewHandler pool n ts allow) req) st"
    and "\<forall>x. consumed (Materials req) x \<le> owned db pid x"
    and "\<forall>x \<in> set (inventories db). inv_id x \<noteq> v_uuid env 0" and "\<forall>l \<in> set (vow_logs db). vl_id l \<noteq> v_uuid env 1"
  shows "\<exists>resp db'. Pray (NewHandler pool n ts allow) env pid (Some req) db = (OK resp, db')"
proof -
  let ?h = "NewHandler pool n ts allow"
  obtain base target tier where c: "check_request ?h req = Some (base, target, tier)"
    using assms(10) by (cases x) auto
  obtain k where k: "1 \<le> k" "k \<le> 4" "base = orderRarity k" "target = orderRarity (k + 1)" "vow_tiers ?h target = Some tier"
    by (rule check_request_rarities [OF c])
  have "isGachaRarity base" "isGachaRarity target" using k by (simp_all add: orderRarity_gacha)
  moreover have "tier \<in> set ts" by (rule NewHandler_tier [OF k(5)])
  then obtain r where "calcSuccessRate tier (NPower req) = Fin r"
    using calcSuccessRate_range [OF _ _ assms(11), of tier] assms(9) by metis
  then have "calcSuccessRate tier (NPower req) \<noteq> NaN" by simp
  moreover have "vow_pool ?h = pool" by (simp add: NewHandler_def)
  ultimately obtain resp db' where tx: "pray_tx ?h env pid req base target (calcSuccessRate tier (NPower req))
      (debug_flag ?h InfiniteNPower req) (debug_flag ?h IgnoreRequiredItems req) db = Inr (resp, db')"
    using pray_tx_succeeds [OF assms(1-7), of ?h base target "calcSuccessRate tier (NPower req)" pid st] assms(8,12-16)
      check_request_counts [OF c] unfolding vow_cost_def by (metis surj_pair)
  have nf: "v_fault env i = False" for i using assms(4) by blast
  show ?thesis by (simp add: Pray_def c execPray_def tx nf loadInventory_def)
qed

lemma demo_pray_ok:
  obtains resp db where "demo_pray None = (OK resp, db)"
proof -
  note ok = db_okD [OF demo_hoard_ok]
  have "\<exists>resp db'. Pray (NewHandler demo_vow_pool 7 shipped_tiers False) (demo_vow_env None) ''p'' (Some (demo_request None)) demo_hoard = (OK resp, db')"
  proof (rule Pray_succeeds [OF ok(1,2,4) _ _ _ _ demo_vow_pool_ok shipped_tiers_ok demo_check [unfolded demo_vow_def] _ demo_hoard_state])
    show "affordable (demo_vow_env None) (vow_cost (NewHandler demo_vow_pool 7 shipped_tiers False) (demo_request None))
        (demo_row\<lparr>enlightenment_pts := Fin 3000\<rparr>)"
      using demo_affordable by (simp add: vow_cost_def debug_flag_def demo_request_def)
    show "\<forall>x. consumed (Materials (demo_request None)) x \<le> owned demo_hoard ''p'' x" by (simp add: demo_owns)
  qed (simp_all add: demo_vow_env_def demo_request_def demo_hoard_def demo_item_def demo_db_def empty_db_def)
  with that show thesis by (auto simp: demo_pray_def demo_vow_def)
qed

text \<open>A request with too few items, and a failing commit.\<close>

lemma demo_pray_short: "Pray (demo_vow False) (demo_vow_env None) ''p''
    (Some ((demo_request None)\<lparr>Materials := []\<rparr>)) demo_hoard = (Reject 400 ''INVALID_REQUEST'', demo_hoard)"
proof -
  have "check_request (demo_vow False) ((demo_request None)\<lparr>Materials := []\<rparr>) = None"
    by (simp add: check_request_def demo_vow_def NewHandler_def debug_flag_def)
  then show ?thesis by (simp add: Pray_def)
qed

section \<open>Properties\<close>

text \<open>
  C5. A vow that the server confirms fulfils its contract: the request passed the checks, the balance
  is the accrued one minus the cost and covers it, exactly the listed materials leave the
  inventory (each of them owned), one copy of the reward arrives, of the target rarity on success
  and of the base rarity otherwise, one log row records it all, and nobody else is touched. The
  answer lists the inventory as it is then.
\<close>

theorem pray_fulfils_contract:
  assumes "keys_ok db" and "stock_ok db" and "Pray h env pid body db = (OK resp, db')"
  shows "\<exists>req. body = Some req \<and> vow_contract h env pid req db resp db' \<and>
    loadInventory False pid db' = Some (vr_inventory resp)"
  using assms(3)
proof (rule Pray_OK)
  fix req base target tier resp0
  assume req: "body = Some req" and c: "check_request h req = Some (base, target, tier)"
    and tx: "pray_tx h env pid req base target (calcSuccessRate tier (NPower req))
      (debug_flag h InfiniteNPower req) (debug_flag h IgnoreRequiredItems req) db = Inr (resp0, db')"
    and l: "loadInventory False pid db' = Some (vr_inventory resp)" and r: "resp = resp0\<lparr>vr_inventory := vr_inventory resp\<rparr>"
  have "vow_contract h env pid req db (resp0\<lparr>vr_inventory := vr_inventory resp\<rparr>) db'"
    using pray_tx_contract(1) [OF assms(1,2) c tx] by simp
  then show ?thesis using req l r by metis
qed

theorem pray_fulfils_contract_witness:
  "\<exists>resp db. demo_pray None = (OK resp, db) \<and>
     vow_contract (demo_vow False) (demo_vow_env None) ''p'' (demo_request None) demo_hoard resp db"
proof -
  obtain resp db where d: "demo_pray None = (OK resp, db)" by (rule demo_pray_ok)
  with pray_fulfils_contract [OF db_okD(1,4) [OF demo_hoard_ok] d [unfolded demo_pray_def]] show ?thesis by simp
qed

text \<open>
  A refusal costs nothing, with one exception: whatever fails before the commit is rolled back, and
  only when the reload of the inventory fails after the commit does the error answer 500 leave a
  committed vow behind.
\<close>

theorem pray_refusal:
  assumes "Pray h env pid body db = (Reject status code, db')"
  shows "(status, code) \<in> {(400, ''INVALID_REQUEST''), (409, ''INSUFFICIENT_POINTS''),
      (409, ''INSUFFICIENT_MATERIALS''), (500, ''INTERNAL_ERROR'')} \<and>
    (db' = db \<or> status = 500 \<and> v_fault env 7 \<and> vow_commits h env pid body db db')"
  using assms by (rule Pray_Reject)

theorem pray_refusal_witness:
  "snd (Pray (demo_vow False) (demo_vow_env None) ''p'' (Some ((demo_request None)\<lparr>Materials := []\<rparr>)) demo_hoard) = demo_hoard"
proof -
  obtain db where d: "Pray (demo_vow False) (demo_vow_env None) ''p'' (Some ((demo_request None)\<lparr>Materials := []\<rparr>)) demo_hoard =
      (Reject 400 ''INVALID_REQUEST'', db)" using demo_pray_short by blast
  from pray_refusal [OF d] have "db = demo_hoard" by simp
  with d show ?thesis by simp
qed

text \<open>
  C20. An error answer can hide a committed vow: for every confirmed vow, the same request with a failing reload commits
  the same data base and is answered with an internal error, so that a client that takes it for a
  refusal pays twice.
\<close>

theorem reload_failure_hides_commit:
  assumes "Pray h env pid body db = (OK resp, db')"
  shows "Pray h (env\<lparr>v_fault := (v_fault env)(7 := True)\<rparr>) pid body db = (Reject 500 ''INTERNAL_ERROR'', db')"
  using assms
proof (rule Pray_OK)
  fix req base target tier resp0
  let ?env = "env\<lparr>v_fault := (v_fault env)(7 := True)\<rparr>"
  assume req: "body = Some req" and c: "check_request h req = Some (base, target, tier)"
    and tx: "pray_tx h env pid req base target (calcSuccessRate tier (NPower req))
      (debug_flag h InfiniteNPower req) (debug_flag h IgnoreRequiredItems req) db = Inr (resp0, db')"
  have "pray_tx h ?env pid req base target (calcSuccessRate tier (NPower req))
      (debug_flag h InfiniteNPower req) (debug_flag h IgnoreRequiredItems req) db = Inr (resp0, db')"
    using tx by (simp add: pray_tx_def pay_vow_def consume_materials_def roll_vow_def pick_reward_def
        grant_vow_def log_vow_def cong: if_cong)
  moreover have "v_fault env 0 = False" "v_fault env 6 = False"
    using assms tx by (auto simp: Pray_def req c execPray_def split: if_splits)
  ultimately show ?thesis by (simp add: Pray_def req c execPray_def loadInventory_def)
qed

theorem reload_failure_hides_commit_witness:
  "\<exists>resp db. demo_pray None = (OK resp, db) \<and>
     Pray (demo_vow False) ((demo_vow_env None)\<lparr>v_fault := (\<lambda>k. None = Some k)(7 := True)\<rparr>) ''p''
       (Some (demo_request None)) demo_hoard = (Reject 500 ''INTERNAL_ERROR'', db)"
proof -
  obtain resp db where d: "demo_pray None = (OK resp, db)" by (rule demo_pray_ok)
  with reload_failure_hides_commit [OF d [unfolded demo_pray_def]] show ?thesis by (simp add: demo_vow_env_def)
qed

text \<open>
  A vow keeps the invariant of the data base, whatever the answer and whatever fails: keys and
  references, balances that are not negative, and no row of the inventory without an item.
\<close>

theorem pray_keeps_invariant:
  assumes "db_ok c db" and "Pray h env pid body db = (a, db')"
  shows "db_ok c db'"
proof (cases a)
  case (OK resp)
  from assms(2) [unfolded OK] show ?thesis
    by (rule Pray_OK) (rule db_ok_pray_tx [OF assms(1)])
next
  case (Reject status code)
  from Pray_Reject [OF assms(2) [unfolded Reject]] have "db' = db \<or> vow_commits h env pid body db db'" by blast
  then show ?thesis using assms(1) db_ok_pray_tx [OF assms(1)] unfolding vow_commits_def by blast
qed

theorem pray_keeps_invariant_witness:
  "\<exists>resp db. demo_pray None = (OK resp, db) \<and> db_ok demo_cairn db"
proof -
  obtain resp db where d: "demo_pray None = (OK resp, db)" by (rule demo_pray_ok)
  with pray_keeps_invariant [OF demo_hoard_ok d [unfolded demo_pray_def]] show ?thesis by simp
qed



text \<open>
  In production the debug options of a request change nothing: with \<open>allowDebug\<close> off the answer
  and the data base are those of the request without them.
\<close>

theorem debug_options_ignored:
  assumes "\<not> allowDebug h"
  shows "Pray h env pid (Some req) db = Pray h env pid (Some (req\<lparr>DebugOptions := d\<rparr>)) db"
proof -
  have flags: "debug_flag h f (req\<lparr>DebugOptions := x\<rparr>) = False" "debug_flag h f req = False" for f x
    using assms by (simp_all add: debug_flag_def)
  have "roll_vow h env y rate =
      (case map_option (\<lambda>r. fle r rate) (rollPercent (v_percent env)) of None \<Rightarrow> Inl PrayFailed | Some b \<Rightarrow> Inr b)" for y rate
    using assms by (simp add: roll_vow_def rollSuccess_def)
  then have "pray_tx h env pid (req\<lparr>DebugOptions := d\<rparr>) base target rate infN ign db = pray_tx h env pid req base target rate infN ign db"
    for base target rate infN ign by (simp add: pray_tx_def)
  then have x: "execPray h env pid (req\<lparr>DebugOptions := d\<rparr>) base target rate infN ign db = execPray h env pid req base target rate infN ign db"
    for base target rate infN ign by (simp only: execPray_def)
  have n: "NPower (req\<lparr>DebugOptions := d\<rparr>) = NPower req" "Materials (req\<lparr>DebugOptions := d\<rparr>) = Materials req" by simp_all
  have c: "check_request h (req\<lparr>DebugOptions := d\<rparr>) = check_request h req"
    unfolding check_request_def flags n ..
  show ?thesis unfolding Pray_def option.case c n flags x ..
qed

theorem debug_options_ignored_witness:
  "Pray (demo_vow False) (demo_vow_env None) ''p'' (Some (demo_request None)) demo_hoard =
   Pray (demo_vow False) (demo_vow_env None) ''p'' (Some (demo_request (Some
     \<lparr>ForceSuccess = True, ForceFailure = False, InfiniteNPower = True, IgnoreRequiredItems = True, LocalPray = False\<rparr>))) demo_hoard"
proof -
  have "\<not> allowDebug (demo_vow False)" by (simp add: demo_vow_def NewHandler_def)
  moreover have "demo_request d = (demo_request None)\<lparr>DebugOptions := d\<rparr>" for d by (simp add: demo_request_def)
  ultimately show ?thesis using debug_options_ignored by metis
qed

text \<open>
  A confirmed vow consumes exactly the required number of items. The handler adds the counts of
  the request in 64 bits, so a request could pass its check by wrapping around; but the
  consumption of every material is checked against the stock, and as long as a player's holdings
  fit in 64 bits no such request is confirmed.
\<close>

theorem vow_consumes_required_items:
  assumes "keys_ok db" and "stock_ok db" and "holdings pid db < 2 ^ 63" and "\<not> allowDebug h"
    and "Pray h env pid (Some req) db = (OK resp, db')"
  shows "count_sum (Materials req) = requiredItemCount h"
  using assms(5)
proof (rule Pray_OK)
  fix r base target tier resp0
  assume r: "Some req = Some r" and c: "check_request h r = Some (base, target, tier)"
    and tx: "pray_tx h env pid r base target (calcSuccessRate tier (NPower r))
      (debug_flag h InfiniteNPower r) (debug_flag h IgnoreRequiredItems r) db = Inr (resp0, db')"
  have ign: "debug_flag h IgnoreRequiredItems r = False" using assms(4) by (simp add: debug_flag_def)
  have "\<forall>x. consumed (Materials r) x \<le> owned db pid x"
    using pray_tx_contract(1) [OF assms(1,2) c tx] ign by (auto simp: vow_contract_def vow_trades_def Let_def)
  then have "count_sum (Materials r) \<le> holdings pid db" by (rule consumed_within_holdings [OF assms(2)])
  then have small: "0 + count_sum (Materials r) < 2 ^ 63" using assms(3) by simp
  obtain tot where tot: "count_materials (Materials r) 0 = Some tot" "tot = requiredItemCount h"
    using c ign by (auto simp: check_request_def split: option.splits if_splits)
  from count_materials_exact [OF tot(1) _ small] tot(2) r show ?thesis by simp
qed

theorem vow_consumes_required_items_witness: "count_sum (Materials (demo_request None)) = 7"
proof -
  obtain resp db where d: "demo_pray None = (OK resp, db)" by (rule demo_pray_ok)
  have "holdings ''p'' demo_hoard < 2 ^ 63" "\<not> allowDebug (demo_vow False)"
    by (simp_all add: holdings_def demo_hoard_def demo_item_def demo_vow_def NewHandler_def)
  from vow_consumes_required_items [OF db_okD(1,4) [OF demo_hoard_ok] this d [unfolded demo_pray_def]]
  show ?thesis by (simp add: demo_vow_def NewHandler_def)
qed

text \<open>
  C22. A vow that should go through does: an acceptable request for tiers as the configuration loads
  them, a loaded pool, materials in stock, a whole-point balance that covers the cost, fresh
  identifiers and no failing call lead to a confirmed vow.
\<close>

theorem pray_succeeds:
  assumes "keys_ok db" "refs_ok db" "stock_ok db" and "\<forall>k. \<not> v_fault env k" "\<forall>k. \<not> v_material_fault env k"
    and "v_percent env = Some bs" "v_pick env = Some seed" and "pool_ok pool"
    and "\<forall>t \<in> set ts. tier_ok t \<and> tier_floats t" and "check_request (NewHandler pool n ts allow) req = Some x"
    and "NPower req \<noteq> NaN" and "state_of db pid = Some st"
    and "affordable env (vow_cost (NewHandler pool n ts allow) req) st"
    and "\<forall>x. consumed (Materials req) x \<le> owned db pid x"
    and "\<forall>x \<in> set (inventories db). inv_id x \<noteq> v_uuid env 0" and "\<forall>l \<in> set (vow_logs db). vl_id l \<noteq> v_uuid env 1"
  shows "\<exists>resp db'. Pray (NewHandler pool n ts allow) env pid (Some req) db = (OK resp, db')"
  using assms by (rule Pray_succeeds)

theorem pray_succeeds_witness:
  "\<exists>resp db. Pray (NewHandler demo_vow_pool 7 shipped_tiers False) (demo_vow_env None) ''p'' (Some (demo_request None)) demo_hoard = (OK resp, db)"
proof -
  note ok = db_okD [OF demo_hoard_ok]
  show ?thesis
  proof (rule pray_succeeds [OF ok(1,2,4) _ _ _ _ demo_vow_pool_ok shipped_tiers_ok demo_check [unfolded demo_vow_def] _ demo_hoard_state])
    show "affordable (demo_vow_env None) (vow_cost (NewHandler demo_vow_pool 7 shipped_tiers False) (demo_request None))
        (demo_row\<lparr>enlightenment_pts := Fin 3000\<rparr>)"
      using demo_affordable by (simp add: vow_cost_def debug_flag_def demo_request_def)
    show "\<forall>x. consumed (Materials (demo_request None)) x \<le> owned demo_hoard ''p'' x" by (simp add: demo_owns)
  qed (simp_all add: demo_vow_env_def demo_request_def demo_hoard_def demo_item_def demo_db_def empty_db_def)
qed

end
