(* ===== verification/Player.thy ===== *)
theory Player
  imports DbInvariant
begin

text \<open>
  The player handlers (\<open>internal/player/player.go\<close>): the synchronisation, which credits the passive
  gain, and the read of the whole state, which repairs and grows the cairn on the way.
\<close>

section \<open>Synchronisation\<close>

text \<open>The surroundings of a request: the clock, SQLite's clock, and the faults of the calls.\<close>

record player_env =
  p_now :: clock
  p_sqlnow :: clock
  p_fault :: faults
  p_tx_fault :: faults
  p_growth_fault :: faults
  p_init_fault :: faults

record sync_response =
  sy_pts :: f64
  sy_last_sync_at :: "int option"

definition synced :: "int \<Rightarrow> state_row \<Rightarrow> state_row" where
  "synced now r = r\<lparr>enlightenment_pts := accrued_balance now r, last_sync_at := Some now, updated_at := now\<rparr>"

text \<open>The UPDATE with its RETURNING row; a balance that is not a number violates NOT NULL.\<close>

definition sync_update :: "bool \<Rightarrow> int \<Rightarrow> string \<Rightarrow> database \<Rightarrow> sql_error + database \<times> state_row" where
  "sync_update fault now pid db =
     attempt fault (bindE (one_row (state_of db pid)) (\<lambda>r.
       checkE (enlightenment_pts (synced now r) \<noteq> NaN) DbError
         (db\<lparr>player_states := sql_update (\<lambda>r. s_player r = pid) (synced now) (player_states db)\<rparr>, synced now r)))"

text \<open>The growth that follows is best effort: its failure is only logged.\<close>

definition Sync :: "cairn_config \<Rightarrow> player_env \<Rightarrow> string \<Rightarrow> database \<Rightarrow> sync_response answer \<times> database" where
  "Sync c env pid db =
     (case sync_update (p_fault env 0) (p_sqlnow env 0) pid db of
        Inl ErrNoRows \<Rightarrow> (Reject 404 ''NOT_FOUND'', db)
      | Inl DbError \<Rightarrow> (internal_error, db)
      | Inr (db1, r) \<Rightarrow>
          (OK \<lparr>sy_pts = enlightenment_pts r, sy_last_sync_at = last_sync_at r\<rparr>,
           snd (ApplyGrowthTx c (p_tx_fault env) (p_growth_fault env) (p_now env 0) (p_sqlnow env 1) pid db1)))"

section \<open>The state\<close>

record state_item =
  si_item :: string
  si_type :: string
  si_rarity :: string
  si_count :: int
  si_source :: string
  si_acquired :: int

record cairn_state_response =
  cs_slot_count :: int
  cs_max_layers :: int
  cs_interval :: int
  cs_slots :: "slot_state list"

record state_response =
  sr_player :: string
  sr_pts :: f64
  sr_rate :: f64
  sr_time_stones :: int
  sr_streak :: int
  sr_next_gacha_at :: "int option"
  sr_last_sync_at :: "int option"
  sr_inventory :: "state_item list"
  sr_cairn :: cairn_state_response
  sr_updated_at :: int

definition load_items :: "bool \<Rightarrow> string \<Rightarrow> database \<Rightarrow> sql_error + state_item list" where
  "load_items fault pid db =
     attempt fault (Inr (map (\<lambda>r. \<lparr>si_item = item_id r, si_type = item_type r, si_rarity = rarity r,
         si_count = item_count r, si_source = source_type r, si_acquired = acquired_at r\<rparr>)
       (sort_key acquired_at (filter (\<lambda>r. inv_player r = pid) (inventories db)))))"

text \<open>The slots that are missing are created; the growth is applied; the result is read again.\<close>

definition refresh_cairn :: "cairn_config \<Rightarrow> player_env \<Rightarrow> string \<Rightarrow> database \<Rightarrow> (unit + slot_state list) \<times> database" where
  "refresh_cairn c env pid db =
     (case LoadSlots c (p_fault env 2) pid db of
        Inl _ \<Rightarrow> (Inl (), db)
      | Inr slots \<Rightarrow>
          let (r1, db1) = (if int (length slots) < SlotCount c
                           then InitializeSlots c (p_init_fault env) pid (p_now env 0) db else (Inr (), db))
          in case r1 of
               Inl _ \<Rightarrow> (Inl (), db1)
             | Inr _ \<Rightarrow>
                 let (r2, db2) = ApplyGrowthTx c (p_tx_fault env) (p_growth_fault env) (p_now env 1) (p_sqlnow env 0) pid db1
                 in case r2 of
                      Inl _ \<Rightarrow> (Inl (), db2)
                    | Inr _ \<Rightarrow>
                        (case LoadSlots c (p_fault env 3) pid db2 of
                           Inl _ \<Rightarrow> (Inl (), db2)
                         | Inr slots' \<Rightarrow> (Inr slots', db2)))"

definition GetState :: "cairn_config \<Rightarrow> player_env \<Rightarrow> string \<Rightarrow> database \<Rightarrow> state_response answer \<times> database" where
  "GetState c env pid db =
     (case attempt (p_fault env 0) (one_row (state_of db pid)) of
        Inl ErrNoRows \<Rightarrow> (Reject 404 ''NOT_FOUND'', db)
      | Inl DbError \<Rightarrow> (internal_error, db)
      | Inr st \<Rightarrow>
          (case load_items (p_fault env 1) pid db of
             Inl _ \<Rightarrow> (internal_error, db)
           | Inr items \<Rightarrow>
               (case refresh_cairn c env pid db of
                  (Inl _, db') \<Rightarrow> (internal_error, db')
                | (Inr slots, db') \<Rightarrow>
                    (OK \<lparr>sr_player = pid, sr_pts = enlightenment_pts st, sr_rate = enlightenment_rate st,
                       sr_time_stones = time_stone_count st, sr_streak = streak_days st,
                       sr_next_gacha_at = map_option of_unix (next_gacha_at st),
                       sr_last_sync_at = map_option of_unix (last_sync_at st), sr_inventory = items,
                       sr_cairn = \<lparr>cs_slot_count = SlotCount c, cs_max_layers = MaxLayers c,
                         cs_interval = SpawnIntervalSeconds c, cs_slots = slots\<rparr>,
                       sr_updated_at = of_unix (updated_at st)\<rparr>, db'))))"

section \<open>What a synchronisation does\<close>

lemma sync_update_Inr:
  assumes "sync_update fault now pid db = Inr (db', r')"
  obtains r where "state_of db pid = Some r" and "r' = synced now r" and "db' = set_state pid (synced now) db"
    and "enlightenment_pts r' \<noteq> NaN"
  using assms by (auto simp: sync_update_def set_state_def run_simps)

lemma state_of_synced:
  "state_of (set_state pid (synced now) db) q = (if q = pid then map_option (synced now) (state_of db q) else state_of db q)"
  by (rule state_of_set_state) (simp add: synced_def)

lemma db_ok_sync:
  assumes "db_ok c db" and "Sync c env pid db = (a, db')"
  shows "db_ok c db'"
proof (cases "sync_update (p_fault env 0) (p_sqlnow env 0) pid db")
  case (Inl e)
  with assms show ?thesis by (cases e) (simp_all add: Sync_def)
next
  case (Inr x)
  obtain db1 r where x: "x = (db1, r)" by (cases x)
  note u = Inr [unfolded x]
  have "db_ok c db1"
    using u
  proof (rule sync_update_Inr)
    fix st assume "state_of db pid = Some st" "db1 = set_state pid (synced (p_sqlnow env 0)) db"
    then show ?thesis
      using db_ok_set_state [OF assms(1), of "synced (p_sqlnow env 0)" pid] accrued_balance_nonneg
      by (simp add: synced_def)
  qed
  moreover obtain g d where g: "ApplyGrowthTx c (p_tx_fault env) (p_growth_fault env) (p_now env 0) (p_sqlnow env 1) pid db1 = (g, d)"
    by fastforce
  ultimately show ?thesis using assms(2) u db_ok_ApplyGrowthTx [OF _ g] by (simp add: Sync_def)
qed

text \<open>The growth leaves the balances and the synchronisation times alone.\<close>

lemma ApplyGrowthTx_state:
  assumes "ApplyGrowthTx c txft ft now sqlnow pid db = (r, db')"
  shows "map_option (\<lambda>st. st\<lparr>cairn_last_growth_at := None\<rparr>) (state_of db' q) =
    map_option (\<lambda>st. st\<lparr>cairn_last_growth_at := None\<rparr>) (state_of db q)"
    and "\<exists>t u. db' = db\<lparr>player_states := t, wish_cairn_slots := u\<rparr>"
proof -
  have same: "\<exists>t u. db = db\<lparr>player_states := t, wish_cairn_slots := u\<rparr>"
    by (rule exI [of _ "player_states db"], rule exI [of _ "wish_cairn_slots db"]) simp
  have "map_option (\<lambda>st. st\<lparr>cairn_last_growth_at := None\<rparr>) (state_of db' q) =
      map_option (\<lambda>st. st\<lparr>cairn_last_growth_at := None\<rparr>) (state_of db q) \<and>
    (\<exists>t u. db' = db\<lparr>player_states := t, wish_cairn_slots := u\<rparr>)"
  proof (cases "db' = db")
    case True
    then show ?thesis using same by simp
  next
    case False
    then have g: "ApplyGrowth c ft now sqlnow pid db = Inr db'"
      using assms by (auto simp: ApplyGrowthTx_def split: if_splits sum.splits)
    obtain h where "\<And>q. state_of db' q = map_option (\<lambda>st. st\<lparr>cairn_last_growth_at := h st\<rparr>) (state_of db q)"
      using ApplyGrowth_lookups(1) [OF g] by blast
    then show ?thesis using ApplyGrowth_lookups(3) [OF g] by (cases "state_of db q") simp_all
  qed
  then show "map_option (\<lambda>st. st\<lparr>cairn_last_growth_at := None\<rparr>) (state_of db' q) =
    map_option (\<lambda>st. st\<lparr>cairn_last_growth_at := None\<rparr>) (state_of db q)"
    and "\<exists>t u. db' = db\<lparr>player_states := t, wish_cairn_slots := u\<rparr>" by blast+
qed

lemma Sync_OK:
  assumes "Sync c env pid db = (OK resp, db')"
  obtains st st' where "state_of db pid = Some st" and "state_of db' pid = Some st'"
    and "st'\<lparr>cairn_last_growth_at := None\<rparr> = (synced (p_sqlnow env 0) st)\<lparr>cairn_last_growth_at := None\<rparr>"
    and "sy_pts resp = enlightenment_pts st'" and "inventories db' = inventories db"
proof (cases "sync_update (p_fault env 0) (p_sqlnow env 0) pid db")
  case (Inl e)
  with assms show thesis by (cases e) (simp_all add: Sync_def)
next
  case (Inr x)
  obtain db1 r where x: "x = (db1, r)" by (cases x)
  note u = Inr [unfolded x]
  obtain g d where d: "ApplyGrowthTx c (p_tx_fault env) (p_growth_fault env) (p_now env 0) (p_sqlnow env 1) pid db1 = (g, d)"
    by fastforce
  then have "d = db'" and pts: "sy_pts resp = enlightenment_pts r" using assms u by (auto simp: Sync_def)
  with d have g: "ApplyGrowthTx c (p_tx_fault env) (p_growth_fault env) (p_now env 0) (p_sqlnow env 1) pid db1 = (g, db')" by simp
  show thesis
    using u
  proof (rule sync_update_Inr)
    fix st assume st: "state_of db pid = Some st" and r: "r = synced (p_sqlnow env 0) st"
      and db1: "db1 = set_state pid (synced (p_sqlnow env 0)) db"
    have s1: "state_of db1 pid = Some (synced (p_sqlnow env 0) st)" unfolding db1 state_of_synced using st by simp
    have "map_option (\<lambda>st. st\<lparr>cairn_last_growth_at := None\<rparr>) (state_of db' pid) =
        Some ((synced (p_sqlnow env 0) st)\<lparr>cairn_last_growth_at := None\<rparr>)"
      using ApplyGrowthTx_state(1) [OF g, of pid] s1 by simp
    then obtain st' where st': "state_of db' pid = Some st'"
      "st'\<lparr>cairn_last_growth_at := None\<rparr> = (synced (p_sqlnow env 0) st)\<lparr>cairn_last_growth_at := None\<rparr>" by auto
    moreover have "enlightenment_pts st' = enlightenment_pts (synced (p_sqlnow env 0) st)"
      using arg_cong [OF st'(2), of enlightenment_pts] by simp
    moreover have "inventories db' = inventories db"
      using ApplyGrowthTx_state(2) [OF g] by (auto simp: db1 frame_simps)
    ultimately show thesis using that st r pts by simp
  qed
qed

lemma accrued_balance_not_NaN: "enlightenment_pts r = Fin b \<Longrightarrow> accrued_balance now r \<noteq> NaN"
  using accrual_nonneg [of now r] by (cases "accrual now r") (simp_all add: accrued_balance_def)

lemma Sync_passes:
  assumes "\<not> p_fault env 0" and "state_of db pid = Some st" and "enlightenment_pts st = Fin b"
  shows "\<exists>resp db'. Sync c env pid db = (OK resp, db')"
  using assms accrued_balance_not_NaN [OF assms(3)] by (simp add: Sync_def sync_update_def synced_def)

section \<open>What the state shows\<close>

lemma refresh_cairn_Inr:
  assumes "refresh_cairn c env pid db = (Inr slots, db')"
  obtains db1 where "db1 = db \<and> SlotCount c \<le> int (length (sorted_slots db pid)) \<or>
      InitializeSlots c (p_init_fault env) pid (p_now env 0) db = (Inr (), db1)"
    and "ApplyGrowthTx c (p_tx_fault env) (p_growth_fault env) (p_now env 1) (p_sqlnow env 0) pid db1 = (Inr (), db')"
    and "LoadSlots c False pid db' = Inr slots"
proof -
  obtain r1 db1 where r1: "(if int (length (sorted_slots db pid)) < SlotCount c
      then InitializeSlots c (p_init_fault env) pid (p_now env 0) db else (Inr (), db)) = (r1, db1)" by fastforce
  have nf: "\<not> p_fault env 2" using assms by (auto simp: refresh_cairn_def LoadSlots_def attempt_def)
  obtain r2 db2 where r2: "ApplyGrowthTx c (p_tx_fault env) (p_growth_fault env) (p_now env 1) (p_sqlnow env 0) pid db1 = (r2, db2)"
    by fastforce
  have run: "refresh_cairn c env pid db = (case r1 of Inl _ \<Rightarrow> (Inl (), db1) | Inr _ \<Rightarrow>
      (case r2 of Inl _ \<Rightarrow> (Inl (), db2) | Inr _ \<Rightarrow>
        (case LoadSlots c (p_fault env 3) pid db2 of Inl _ \<Rightarrow> (Inl (), db2) | Inr s \<Rightarrow> (Inr s, db2))))"
    using nf r1 r2 by (cases r1) (simp_all add: refresh_cairn_def LoadSlots_def attempt_def)
  have ok: "r1 = Inr ()" using assms run by (cases r1) simp_all
  have ok2: "r2 = Inr ()" using assms run ok by (cases r2) simp_all
  have "LoadSlots c False pid db2 = Inr slots" "db2 = db'"
    using assms run ok ok2 by (auto simp: LoadSlots_def attempt_def split: if_splits)
  with that r1 r2 ok ok2 show thesis by (auto split: if_splits)
qed

text \<open>With all indices in range, as many slots as configured are all of them.\<close>

definition slots_indexed :: "cairn_config \<Rightarrow> database \<Rightarrow> bool" where
  "slots_indexed c db \<longleftrightarrow> (\<forall>r \<in> set (wish_cairn_slots db). 0 \<le> slot_index r \<and> slot_index r < SlotCount c)"

lemma enough_slots:
  assumes "keys_ok db" and "slots_indexed c db" and "SlotCount c \<le> int (length (sorted_slots db pid))"
    and "0 \<le> i" and "i < SlotCount c"
  shows "i \<in> slot_index ` set (sorted_slots db pid)"
proof -
  let ?I = "slot_index ` set (sorted_slots db pid)"
  have "distinct (map slot_index (sorted_slots db pid))" by (rule distinct_slot_indices [OF assms(1)])
  then have card: "card ?I = length (sorted_slots db pid)" using distinct_card by fastforce
  have sub: "?I \<subseteq> {0..<SlotCount c}"
    using assms(2) by (auto simp: slots_indexed_def set_sorted_slots)
  have "card {0..<SlotCount c} \<le> card ?I" using assms(3) card by simp
  then have "?I = {0..<SlotCount c}" by (intro card_seteq) (simp_all add: sub)
  then show ?thesis using assms(4,5) by simp
qed

lemma slot_of_in_sorted: "slot_of db pid i = Some s \<Longrightarrow> i \<in> slot_index ` set (sorted_slots db pid)"
  by (auto simp: set_sorted_slots dest: slot_ofD)

lemma refresh_lists_all:
  assumes "keys_ok db" and "slots_indexed c db" and "0 \<le> i" and "i < SlotCount c"
    and "refresh_cairn c env pid db = (Inr slots, db')"
  shows "\<exists>s \<in> set slots. SlotIndex s = i"
  using assms(5)
proof (rule refresh_cairn_Inr)
  fix db1
  assume init: "db1 = db \<and> SlotCount c \<le> int (length (sorted_slots db pid)) \<or>
      InitializeSlots c (p_init_fault env) pid (p_now env 0) db = (Inr (), db1)"
    and g: "ApplyGrowthTx c (p_tx_fault env) (p_growth_fault env) (p_now env 1) (p_sqlnow env 0) pid db1 = (Inr (), db')"
    and l: "LoadSlots c False pid db' = Inr slots"
  have "i \<in> slot_index ` set (sorted_slots db1 pid)"
    using init
  proof
    assume "db1 = db \<and> SlotCount c \<le> int (length (sorted_slots db pid))"
    then show ?thesis using enough_slots [OF assms(1,2) _ assms(3,4)] by blast
  next
    assume I: "InitializeSlots c (p_init_fault env) pid (p_now env 0) db = (Inr (), db1)"
    then obtain phase where "PhaseOffset c = Some phase" by (cases "PhaseOffset c") (simp_all add: InitializeSlots_def)
    with I have e: "init_slots (p_init_fault env) pid (p_now env 0) phase [0..SlotCount c - 1] db = (Inr (), db1)"
      by (auto simp: InitializeSlots_def split: prod.splits sum.splits elim: lift_sql.elims)
    have "slot_of db1 pid i \<noteq> None"
      using init_slots_complete [of "p_init_fault env" pid "p_now env 0" phase "[0..SlotCount c - 1]" db i] e assms(3,4) by simp
    then show ?thesis using slot_of_in_sorted by blast
  qed
  moreover have "slot_index ` set (sorted_slots db' pid) = slot_index ` set (sorted_slots db1 pid)"
  proof -
    have "ApplyGrowth c (p_growth_fault env) (p_now env 1) (p_sqlnow env 0) pid db1 = Inr db'"
      using g by (auto simp: ApplyGrowthTx_def split: if_splits sum.splits)
    then obtain P x h where "db' = db1\<lparr>player_states := sql_update (\<lambda>r. s_player r = pid \<and> P r)
        (\<lambda>r. r\<lparr>cairn_last_growth_at := x\<rparr>) (player_states db1),
        wish_cairn_slots := raise_slots pid h (wish_cairn_slots db1)\<rparr>" by (rule ApplyGrowth_frame)
    then have "sorted_slots db' pid = map (\<lambda>r. r\<lparr>layer_count := layer_count r + h (slot_index r)\<rparr>) (sorted_slots db1 pid)"
      by (simp add: sorted_slots_raise sorted_slots_def slots_of_def slots_raise sort_key_map)
    then show ?thesis by (simp add: image_image)
  qed
  ultimately have "i \<in> slot_index ` set (sorted_slots db' pid)" by simp
  then obtain r where "r \<in> set (sorted_slots db' pid)" "slot_index r = i" by auto
  then show ?thesis using l by (force simp: LoadSlots_def attempt_def)
qed

lemma GetState_OK:
  assumes "GetState c env pid db = (OK resp, db')"
  obtains st where "state_of db pid = Some st" and "sr_pts resp = enlightenment_pts st"
    and "refresh_cairn c env pid db = (Inr (cs_slots (sr_cairn resp)), db')"
    and "load_items False pid db = Inr (sr_inventory resp)"
proof -
  obtain st where st: "state_of db pid = Some st" and nf: "\<not> p_fault env 0"
    using assms by (cases "state_of db pid") (auto simp: GetState_def attempt_def split: if_splits)
  have ni: "\<not> p_fault env 1" using assms nf st by (auto simp: GetState_def load_items_def attempt_def)
  obtain s d where s: "refresh_cairn c env pid db = (s, d)" by fastforce
  with assms st nf ni that show thesis by (cases s) (auto simp: GetState_def load_items_def attempt_def)
qed

lemma db_ok_GetState:
  assumes "db_ok c db" and "0 \<le> MaxLayers c" and "GetState c env pid db = (a, db')"
  shows "db_ok c db'"
proof -
  have r: "db_ok c d" if r: "refresh_cairn c env pid db = (x, d)" for x d
  proof -
    obtain r1 db1 where r1: "(if int (length (sorted_slots db pid)) < SlotCount c
        then InitializeSlots c (p_init_fault env) pid (p_now env 0) db else (Inr (), db)) = (r1, db1)" by fastforce
    have ok1: "db_ok c db1" using r1 assms(1) db_ok_InitializeSlots [OF assms(1,2)] by (auto split: if_splits)
    obtain r2 db2 where r2: "ApplyGrowthTx c (p_tx_fault env) (p_growth_fault env) (p_now env 1) (p_sqlnow env 0) pid db1 = (r2, db2)"
      by fastforce
    have ok2: "db_ok c db2" by (rule db_ok_ApplyGrowthTx [OF ok1 r2])
    from r r1 r2 have "d = db \<or> d = db1 \<or> d = db2"
      by (cases "p_fault env 2"; cases r1; cases r2)
        (auto simp: refresh_cairn_def LoadSlots_def attempt_def split: if_splits sum.splits)
    then show ?thesis using assms(1) ok1 ok2 by blast
  qed
  obtain x d where x: "refresh_cairn c env pid db = (x, d)" by fastforce
  have "db' = db \<or> db' = d"
    using assms(3) x by (auto simp: GetState_def split: sum.splits sql_error.splits)
  then show ?thesis using assms(1) r [OF x] by blast
qed

section \<open>Properties\<close>

definition demo_player_env :: "int \<Rightarrow> player_env" where
  "demo_player_env t = \<lparr>p_now = (\<lambda>_. t * second), p_sqlnow = (\<lambda>_. t), p_fault = (\<lambda>_. False), p_tx_fault = (\<lambda>_. False),
     p_growth_fault = (\<lambda>_. False), p_init_fault = (\<lambda>_. False)\<rparr>"

definition demo_idle :: database where
  "demo_idle = demo_db\<lparr>player_states := [demo_state\<lparr>cairn_last_growth_at := None\<rparr>]\<rparr>"

text \<open>
  A synchronisation credits the elapsed time and nothing else: the new balance is the accrued
  one, never below the old, the time of the synchronisation is recorded and answered, and the
  inventory and all other fields of the row but the growth anchor are unchanged, whether the
  best-effort growth succeeds or not.
\<close>

theorem sync_credits_elapsed_time:
  assumes "state_of db pid = Some st" and "is_float (enlightenment_pts st)" and "finite64 (enlightenment_pts st)"
    and "Sync c env pid db = (OK resp, db')"
  shows "\<exists>st'. state_of db' pid = Some st' \<and>
    st'\<lparr>cairn_last_growth_at := None\<rparr> = st\<lparr>enlightenment_pts := accrued_balance (p_sqlnow env 0) st,
      last_sync_at := Some (p_sqlnow env 0), updated_at := p_sqlnow env 0, cairn_last_growth_at := None\<rparr> \<and>
    sy_pts resp = enlightenment_pts st' \<and> fle (enlightenment_pts st) (enlightenment_pts st') \<and>
    inventories db' = inventories db"
  using assms(4)
proof (rule Sync_OK)
  fix s s'
  assume s: "state_of db pid = Some s" "state_of db' pid = Some s'"
    and eq: "s'\<lparr>cairn_last_growth_at := None\<rparr> = (synced (p_sqlnow env 0) s)\<lparr>cairn_last_growth_at := None\<rparr>"
    and r: "sy_pts resp = enlightenment_pts s'" "inventories db' = inventories db"
  obtain b where b: "enlightenment_pts st = Fin b" using assms(3) by (cases "enlightenment_pts st") simp_all
  have "fle (Fin b) (fadd (Fin b) (accrual (p_sqlnow env 0) st))"
    using assms(2) b by (intro fadd_ge_left accrual_nonneg) simp
  moreover have "enlightenment_pts s' = accrued_balance (p_sqlnow env 0) s"
    using arg_cong [OF eq, of enlightenment_pts] by (simp add: synced_def)
  ultimately show ?thesis using s eq r assms(1) b by (simp add: synced_def accrued_balance_def)
qed

theorem sync_credits_elapsed_time_witness:
  "fst (Sync demo_cairn (demo_player_env 200) ''p'' demo_idle) =
     OK \<lparr>sy_pts = Fin 140, sy_last_sync_at = Some 200\<rparr> \<and>
   (\<exists>st. state_of (snd (Sync demo_cairn (demo_player_env 200) ''p'' demo_idle)) ''p'' = Some st \<and> last_sync_at st = Some 200)"
proof -
  have "fst (Sync demo_cairn (demo_player_env 200) ''p'' demo_idle) = OK \<lparr>sy_pts = Fin 140, sy_last_sync_at = Some 200\<rparr>"
    by code_simp
  then obtain db where d: "Sync demo_cairn (demo_player_env 200) ''p'' demo_idle =
      (OK \<lparr>sy_pts = Fin 140, sy_last_sync_at = Some 200\<rparr>, db)" by (metis prod.collapse)
  have s: "state_of demo_idle ''p'' = Some (demo_state\<lparr>cairn_last_growth_at := None\<rparr>)"
    by (simp add: state_of_def demo_idle_def demo_state_def)
  obtain st where "state_of db ''p'' = Some st" and
    e: "st\<lparr>cairn_last_growth_at := None\<rparr> = (demo_state\<lparr>cairn_last_growth_at := None\<rparr>)\<lparr>enlightenment_pts :=
      accrued_balance (p_sqlnow (demo_player_env 200) 0) (demo_state\<lparr>cairn_last_growth_at := None\<rparr>),
      last_sync_at := Some (p_sqlnow (demo_player_env 200) 0), updated_at := p_sqlnow (demo_player_env 200) 0, cairn_last_growth_at := None\<rparr>"
    using sync_credits_elapsed_time [OF s _ _ d] by (auto simp: demo_state_def)
  have "last_sync_at st = Some 200" using arg_cong [OF e, of last_sync_at] by (simp add: demo_player_env_def)
  with d \<open>state_of db ''p'' = Some st\<close> show ?thesis by simp
qed

text \<open>
  C26. How often a client synchronises does not matter: in whole points, a synchronisation at time t1
  followed by one at time t2 leads to the same balance as the one at t2 alone, so every second is
  credited exactly once.
\<close>

theorem sync_path_independent:
  assumes "Sync c env1 pid db = (OK r1, db1)" and "Sync c env2 pid db1 = (OK r2, db2)"
    and "Sync c env3 pid db = (OK r3, db3)"
    and "p_sqlnow env1 0 = t1" and "p_sqlnow env2 0 = t2" and "p_sqlnow env3 0 = t2"
    and "state_of db pid = Some st" and "enlightenment_pts st = Fin (of_int b)"
    and "enlightenment_rate st = Fin (of_int k)" and "last_sync_at st = Some t0"
    and "0 \<le> t0" and "t0 \<le> t1" and "t1 \<le> t2" and "t2 \<le> 2 ^ 53" and "0 \<le> b" and "0 \<le> k"
    and "b + (t2 - t0) * k \<le> 2 ^ 53"
  shows "sy_pts r2 = sy_pts r3 \<and> sy_pts r3 = Fin (of_int (b + (t2 - t0) * k))"
proof -
  have prod: "0 \<le> (u - v) * k" "(u - v) * k \<le> (t2 - t0) * k" if "t0 \<le> v" "v \<le> u" "u \<le> t2" for u v
    using that assms(16) by (auto intro: mult_right_mono)
  have bal: "accrued_balance u s = Fin (of_int (x + (u - v) * k))"
    if "enlightenment_pts s = Fin (of_int x)" "enlightenment_rate s = Fin (of_int k)" "last_sync_at s = Some v"
      "t0 \<le> v" "v \<le> u" "u \<le> t2" "0 \<le> x" "x + (u - v) * k \<le> 2 ^ 53" for s u v x
  proof -
    note p = prod [OF that(4-6)]
    have "accrual u s = Fin (of_int (max 0 ((u - v) * k)))"
      by (rule accrual_int) (use that p assms in \<open>auto simp: abs_le_iff\<close>)
    then have "accrual u s = Fin (of_int ((u - v) * k))" using p by (simp add: max_def)
    then show ?thesis using that p fadd_int [of x "(u - v) * k"] by (simp add: accrued_balance_def)
  qed
  have first: "accrued_balance t1 st = Fin (of_int (b + (t1 - t0) * k))"
    by (rule bal) (use assms prod [of t0 t1] in auto)
  have direct: "accrued_balance t2 st = Fin (of_int (b + (t2 - t0) * k))"
    by (rule bal) (use assms in auto)
  obtain s1 where s1: "state_of db1 pid = Some s1"
    "s1\<lparr>cairn_last_growth_at := None\<rparr> = (synced t1 st)\<lparr>cairn_last_growth_at := None\<rparr>"
    by (rule Sync_OK [OF assms(1)]) (use assms(4,7) in auto)
  have f1: "enlightenment_pts s1 = Fin (of_int (b + (t1 - t0) * k))" "enlightenment_rate s1 = Fin (of_int k)" "last_sync_at s1 = Some t1"
    using arg_cong [OF s1(2), of enlightenment_pts] arg_cong [OF s1(2), of enlightenment_rate]
      arg_cong [OF s1(2), of last_sync_at] first assms(9) by (simp_all add: synced_def)
  have sum: "b + (t1 - t0) * k + (t2 - t1) * k = b + (t2 - t0) * k" by (simp add: algebra_simps)
  have second: "accrued_balance t2 s1 = Fin (of_int (b + (t1 - t0) * k + (t2 - t1) * k))"
    by (rule bal) (use f1 assms prod [of t0 t1] sum in auto)
  have "sy_pts r2 = accrued_balance t2 s1"
  proof (rule Sync_OK [OF assms(2)])
    fix s s' assume s: "state_of db1 pid = Some s" "sy_pts r2 = enlightenment_pts s'"
      and eq: "s'\<lparr>cairn_last_growth_at := None\<rparr> = (synced (p_sqlnow env2 0) s)\<lparr>cairn_last_growth_at := None\<rparr>"
    have "enlightenment_pts s' = accrued_balance t2 s"
      using arg_cong [OF eq, of enlightenment_pts] assms(5) by (simp add: synced_def)
    then show ?thesis using s s1(1) by simp
  qed
  moreover have "sy_pts r3 = accrued_balance t2 st"
  proof (rule Sync_OK [OF assms(3)])
    fix s s' assume s: "state_of db pid = Some s" "sy_pts r3 = enlightenment_pts s'"
      and eq: "s'\<lparr>cairn_last_growth_at := None\<rparr> = (synced (p_sqlnow env3 0) s)\<lparr>cairn_last_growth_at := None\<rparr>"
    have "enlightenment_pts s' = accrued_balance t2 s"
      using arg_cong [OF eq, of enlightenment_pts] assms(6) by (simp add: synced_def)
    then show ?thesis using s assms(7) by simp
  qed
  ultimately show ?thesis using second direct sum by simp
qed

theorem sync_path_independent_witness:
  "\<exists>r1 db1 r2 db2. Sync demo_cairn (demo_player_env 150) ''p'' demo_idle = (OK r1, db1) \<and>
     Sync demo_cairn (demo_player_env 200) ''p'' db1 = (OK r2, db2) \<and> sy_pts r2 = Fin 140"
proof -
  let ?s = "\<lambda>t. Sync demo_cairn (demo_player_env t) ''p''"
  have s: "state_of demo_idle ''p'' = Some (demo_state\<lparr>cairn_last_growth_at := None\<rparr>)"
    by (simp add: state_of_def demo_idle_def demo_state_def)
  have nf: "\<not> p_fault (demo_player_env t) 0" for t by (simp add: demo_player_env_def)
  have first: "fst (?s 150 demo_idle) = OK \<lparr>sy_pts = Fin 90, sy_last_sync_at = Some 150\<rparr>" by code_simp
  then obtain db1 where d1: "?s 150 demo_idle = (OK \<lparr>sy_pts = Fin 90, sy_last_sync_at = Some 150\<rparr>, db1)"
    by (metis prod.collapse)
  obtain s1 where "state_of db1 ''p'' = Some s1" "enlightenment_pts s1 = Fin 90"
    by (rule Sync_OK [OF d1]) simp
  from Sync_passes [OF nf this] obtain r2 db2 where d2: "?s 200 db1 = (OK r2, db2)" by blast
  have b: "enlightenment_pts (demo_state\<lparr>cairn_last_growth_at := None\<rparr>) = Fin 40" by (simp add: demo_state_def)
  from Sync_passes [OF nf s b] obtain r3 db3 where d3: "?s 200 demo_idle = (OK r3, db3)" by blast
  from sync_path_independent [OF d1 d2 d3 _ _ _ s, of 150 200 40 1 100] d1 d2 show ?thesis
    by (simp add: demo_player_env_def demo_state_def)
qed



end
