(* ===== verification/Session.thy ===== *)
theory Session
  imports KvStore
begin

text \<open>
  Sessions, refresh tokens and used tickets in the key-value store (\<open>internal/auth/session.go\<close>). The
  functions take the store's operations; what they guarantee is proved for every store that meets
  the contract of a reliable key-value store, and holds for the in-memory one by its interpretation.
\<close>

section \<open>Keys and times to live\<close>

definition sessionTTL :: int where "sessionTTL = 24 * 3600 * second"
definition refreshTTL :: int where "refreshTTL = 30 * 24 * 3600 * second"
definition ticketTTL :: int where "ticketTTL = 3600 * second"
definition sessionLockTTL :: int where "sessionLockTTL = 5 * second"
definition refreshLockTTL :: int where "refreshLockTTL = 10 * second"
definition refreshCooldownTTL :: int where "refreshCooldownTTL = 3 * second"

lemmas ttl_defs = sessionTTL_def refreshTTL_def ticketTTL_def sessionLockTTL_def refreshLockTTL_def
  refreshCooldownTTL_def second_def

definition session_key :: "string \<Rightarrow> string" where "session_key jti = ''session:'' @ jti"
definition lock_key :: "string \<Rightarrow> string" where "lock_key pid = ''session:lock:'' @ pid"
definition current_key :: "string \<Rightarrow> string" where "current_key pid = ''session:current:'' @ pid"
definition refresh_key :: "string \<Rightarrow> string" where "refresh_key pid = ''refresh:'' @ pid"
definition lookup_key :: "string \<Rightarrow> string" where "lookup_key tok = ''refresh_lookup:'' @ tok"
definition refresh_lock_key :: "string \<Rightarrow> string" where "refresh_lock_key pid = ''refresh_lock:'' @ pid"
definition refresh_cooldown_key :: "string \<Rightarrow> string" where "refresh_cooldown_key pid = ''refresh_cooldown:'' @ pid"
definition ticket_key :: "string \<Rightarrow> string" where "ticket_key hash = ''ticket:used:'' @ hash"

lemmas key_defs = session_key_def lock_key_def current_key_def refresh_key_def lookup_key_def
  refresh_lock_key_def refresh_cooldown_key_def ticket_key_def

text \<open>
  The prefixes keep the keys of different kinds apart, and within a kind the key determines its
  subject. The exception is \<open>session:\<close>, which is also a prefix of the lock and of the pointer: a
  session identifier must not contain a colon, as no UUID does.
\<close>

definition plain :: "string \<Rightarrow> bool" where
  "plain jti \<longleftrightarrow> CHR '':'' \<notin> set jti"

named_theorems key_simps "keys of different kinds differ"

lemma same_kind [key_simps]:
  "session_key a = session_key b \<longleftrightarrow> a = b" "lock_key a = lock_key b \<longleftrightarrow> a = b"
  "current_key a = current_key b \<longleftrightarrow> a = b" "refresh_key a = refresh_key b \<longleftrightarrow> a = b"
  "lookup_key a = lookup_key b \<longleftrightarrow> a = b" "refresh_lock_key a = refresh_lock_key b \<longleftrightarrow> a = b"
  "refresh_cooldown_key a = refresh_cooldown_key b \<longleftrightarrow> a = b" "ticket_key a = ticket_key b \<longleftrightarrow> a = b"
  by (simp_all add: key_defs)

lemma other_kind [key_simps]:
  "lock_key a \<noteq> current_key b" "current_key b \<noteq> lock_key a"
  "refresh_key a \<noteq> session_key b" "session_key b \<noteq> refresh_key a"
  "refresh_key a \<noteq> lock_key b" "lock_key b \<noteq> refresh_key a"
  "refresh_key a \<noteq> current_key b" "current_key b \<noteq> refresh_key a"
  "lookup_key a \<noteq> session_key b" "session_key b \<noteq> lookup_key a"
  "lookup_key a \<noteq> lock_key b" "lock_key b \<noteq> lookup_key a"
  "lookup_key a \<noteq> current_key b" "current_key b \<noteq> lookup_key a"
  "lookup_key a \<noteq> refresh_key b" "refresh_key b \<noteq> lookup_key a"
  "refresh_lock_key a \<noteq> session_key b" "session_key b \<noteq> refresh_lock_key a"
  "refresh_lock_key a \<noteq> lock_key b" "lock_key b \<noteq> refresh_lock_key a"
  "refresh_lock_key a \<noteq> current_key b" "current_key b \<noteq> refresh_lock_key a"
  "refresh_lock_key a \<noteq> refresh_key b" "refresh_key b \<noteq> refresh_lock_key a"
  "refresh_lock_key a \<noteq> lookup_key b" "lookup_key b \<noteq> refresh_lock_key a"
  "refresh_cooldown_key a \<noteq> session_key b" "session_key b \<noteq> refresh_cooldown_key a"
  "refresh_cooldown_key a \<noteq> lock_key b" "lock_key b \<noteq> refresh_cooldown_key a"
  "refresh_cooldown_key a \<noteq> current_key b" "current_key b \<noteq> refresh_cooldown_key a"
  "refresh_cooldown_key a \<noteq> refresh_key b" "refresh_key b \<noteq> refresh_cooldown_key a"
  "refresh_cooldown_key a \<noteq> lookup_key b" "lookup_key b \<noteq> refresh_cooldown_key a"
  "refresh_cooldown_key a \<noteq> refresh_lock_key b" "refresh_lock_key b \<noteq> refresh_cooldown_key a"
  "ticket_key a \<noteq> session_key b" "session_key b \<noteq> ticket_key a"
  "ticket_key a \<noteq> lock_key b" "lock_key b \<noteq> ticket_key a"
  "ticket_key a \<noteq> current_key b" "current_key b \<noteq> ticket_key a"
  "ticket_key a \<noteq> refresh_key b" "refresh_key b \<noteq> ticket_key a"
  "ticket_key a \<noteq> lookup_key b" "lookup_key b \<noteq> ticket_key a"
  "ticket_key a \<noteq> refresh_lock_key b" "refresh_lock_key b \<noteq> ticket_key a"
  "ticket_key a \<noteq> refresh_cooldown_key b" "refresh_cooldown_key b \<noteq> ticket_key a"
  by (simp_all add: key_defs)

lemma plain_session [key_simps]:
  assumes "plain j"
  shows "session_key j \<noteq> lock_key p" "session_key j \<noteq> current_key p"
    "lock_key p \<noteq> session_key j" "current_key p \<noteq> session_key j"
  using assms by (auto simp: plain_def key_defs)

section \<open>The functions\<close>

datatype session_error = SessionInFlight | SessionKv kv_error

text \<open>The critical section of \<open>enforceSingleSession\<close>; the error of the Del is ignored.\<close>

definition drop_session :: "'s kv_ops \<Rightarrow> kv_error + string \<Rightarrow> 's \<Rightarrow> 's" where
  "drop_session ops old s =
     (case old of Inl _ \<Rightarrow> s | Inr jti \<Rightarrow> if jti \<noteq> [] then snd (kv_del ops [session_key jti] s) else s)"

definition replace_session :: "'s kv_ops \<Rightarrow> clock \<Rightarrow> string \<Rightarrow> string \<Rightarrow> 's \<Rightarrow> (session_error + unit) \<times> 's" where
  "replace_session ops clk pid jti s =
     (case kv_get ops (clk 1) (current_key pid) s of
        (old, s1) \<Rightarrow>
          (case kv_set ops (clk 2) (session_key jti) ''1'' sessionTTL (drop_session ops old s1) of
             (Inl e, s3) \<Rightarrow> (Inl (SessionKv e), s3)
           | (Inr _, s3) \<Rightarrow>
               (case kv_set ops (clk 3) (current_key pid) jti sessionTTL s3 of
                  (Inl e, s4) \<Rightarrow> (Inl (SessionKv e), s4)
                | (Inr _, s4) \<Rightarrow> (Inr (), s4))))"

definition enforceSingleSession ::
  "'s kv_ops \<Rightarrow> clock \<Rightarrow> string \<Rightarrow> string \<Rightarrow> 's \<Rightarrow> (session_error + unit) \<times> 's" where
  "enforceSingleSession ops clk pid jti s =
     (case kv_setnx ops (clk 0) (lock_key pid) ''1'' sessionLockTTL s of
        (Inl e, s1) \<Rightarrow> (Inl (SessionKv e), s1)
      | (Inr locked, s1) \<Rightarrow>
          if \<not> locked then (Inl SessionInFlight, s1)
          else (case replace_session ops clk pid jti s1 of
                  (r, s2) \<Rightarrow> (r, snd (kv_del ops [lock_key pid] s2))))"

definition storeRefreshToken :: "'s kv_ops \<Rightarrow> clock \<Rightarrow> string \<Rightarrow> string \<Rightarrow> 's \<Rightarrow> unit kv_result \<times> 's" where
  "storeRefreshToken ops clk pid tok s =
     (case kv_set ops (clk 0) (refresh_key pid) tok refreshTTL s of
        (Inl e, s1) \<Rightarrow> (Inl e, s1)
      | (Inr _, s1) \<Rightarrow> kv_set ops (clk 1) (lookup_key tok) pid refreshTTL s1)"

definition invalidateRefreshLookup :: "'s kv_ops \<Rightarrow> string \<Rightarrow> 's \<Rightarrow> 's" where
  "invalidateRefreshLookup ops tok s = snd (kv_del ops [lookup_key tok] s)"

definition lookupRefreshToken :: "'s kv_ops \<Rightarrow> int \<Rightarrow> string \<Rightarrow> 's \<Rightarrow> string kv_result \<times> 's" where
  "lookupRefreshToken ops t tok s = kv_get ops t (lookup_key tok) s"

definition getStoredRefreshToken :: "'s kv_ops \<Rightarrow> int \<Rightarrow> string \<Rightarrow> 's \<Rightarrow> string kv_result \<times> 's" where
  "getStoredRefreshToken ops t pid s = kv_get ops t (refresh_key pid) s"

definition acquireRefreshLock :: "'s kv_ops \<Rightarrow> int \<Rightarrow> string \<Rightarrow> 's \<Rightarrow> bool kv_result \<times> 's" where
  "acquireRefreshLock ops t pid s = kv_setnx ops t (refresh_lock_key pid) ''1'' refreshLockTTL s"

definition releaseRefreshLock :: "'s kv_ops \<Rightarrow> string \<Rightarrow> 's \<Rightarrow> 's" where
  "releaseRefreshLock ops pid s = snd (kv_del ops [refresh_lock_key pid] s)"

definition setRefreshCooldown :: "'s kv_ops \<Rightarrow> int \<Rightarrow> string \<Rightarrow> 's \<Rightarrow> unit kv_result \<times> 's" where
  "setRefreshCooldown ops t pid s = kv_set ops t (refresh_cooldown_key pid) ''1'' refreshCooldownTTL s"

definition isRefreshCoolingDown :: "'s kv_ops \<Rightarrow> int \<Rightarrow> string \<Rightarrow> 's \<Rightarrow> bool kv_result \<times> 's" where
  "isRefreshCoolingDown ops t pid s =
     (case kv_get ops t (refresh_cooldown_key pid) s of
        (Inl NotFound, s1) \<Rightarrow> (Inr False, s1)
      | (Inl KvFail, s1) \<Rightarrow> (Inl KvFail, s1)
      | (Inr _, s1) \<Rightarrow> (Inr True, s1))"

text \<open>\<open>logoutSession\<close>: an error of the Get leaves the empty string, and Del errors are ignored.\<close>

definition logoutSession :: "'s kv_ops \<Rightarrow> int \<Rightarrow> string \<Rightarrow> string \<Rightarrow> 's \<Rightarrow> 's" where
  "logoutSession ops t pid jti s =
     (case kv_get ops t (current_key pid) s of
        (r, s1) \<Rightarrow>
          (let stored = (case r of Inl _ \<Rightarrow> [] | Inr j \<Rightarrow> j)
           in if stored = jti then snd (kv_del ops [session_key jti, current_key pid, refresh_key pid] s1)
              else snd (kv_del ops [session_key jti] s1)))"

definition claimTicket :: "'s kv_ops \<Rightarrow> int \<Rightarrow> string \<Rightarrow> 's \<Rightarrow> bool kv_result \<times> 's" where
  "claimTicket ops t hash s = kv_setnx ops t (ticket_key hash) ''1'' ticketTTL s"

definition releaseTicket :: "'s kv_ops \<Rightarrow> string \<Rightarrow> 's \<Rightarrow> 's" where
  "releaseTicket ops hash s = snd (kv_del ops [ticket_key hash] s)"

section \<open>What a reliable store guarantees of them\<close>

text \<open>The store \<open>s'\<close> shows from \<open>T\<close> on what \<open>s\<close> shows, but for the keys in \<open>K\<close>.\<close>

definition keeps :: "('s \<Rightarrow> int \<Rightarrow> string \<Rightarrow> string option) \<Rightarrow> int \<Rightarrow> string set \<Rightarrow> 's \<Rightarrow> 's \<Rightarrow> bool" where
  "keeps view T K s s' \<longleftrightarrow> (\<forall>t k. T \<le> t \<longrightarrow> k \<notin> K \<longrightarrow> view s' t k = view s t k)"

lemma keepsD: "keeps view T K s s' \<Longrightarrow> T \<le> t \<Longrightarrow> k \<notin> K \<Longrightarrow> view s' t k = view s t k"
  by (simp add: keeps_def)

lemma keeps_refl [simp]: "keeps view T K s s"
  by (simp add: keeps_def)

lemma keeps_trans: "keeps view T K s s1 \<Longrightarrow> keeps view T' K' s1 s2 \<Longrightarrow> T \<le> U \<Longrightarrow> T' \<le> U \<Longrightarrow> K \<union> K' \<subseteq> L \<Longrightarrow> keeps view U L s s2"
  unfolding keeps_def by (metis UnI1 UnI2 dual_order.trans in_mono)

lemma keeps_mono: "keeps view T K s s' \<Longrightarrow> T \<le> U \<Longrightarrow> K \<subseteq> L \<Longrightarrow> keeps view U L s s'"
  unfolding keeps_def by (meson dual_order.trans in_mono)

text \<open>What the critical section touches: the new session, the pointer, and the session pointed to.\<close>

definition session_keys :: "('s \<Rightarrow> int \<Rightarrow> string \<Rightarrow> string option) \<Rightarrow> int \<Rightarrow> string \<Rightarrow> string \<Rightarrow> 's \<Rightarrow> string set" where
  "session_keys view t pid jti s = {session_key jti, current_key pid} \<union> session_key ` set_option (view s t (current_key pid))"


context kv_reliable
begin

lemma get_run:
  obtains s' where "kv_get ops t k s = (case view s t k of None \<Rightarrow> Inl NotFound | Some v \<Rightarrow> Inr v, s')" "keeps view t K s s'"
proof -
  obtain r s' where g: "kv_get ops t k s = (r, s')" by fastforce
  with get_is_view [OF g] get_frame [OF g] that show thesis by (simp add: keeps_def)
qed

lemma set_run:
  obtains s' where "kv_set ops t k v ttl s = (Inr (), s')" "keeps view t {k} s s'"
    "\<And>u. t \<le> u \<Longrightarrow> u < t + ttl \<Longrightarrow> view s' u k = Some v"
    "\<And>u. 0 < ttl \<Longrightarrow> t + ttl < u \<Longrightarrow> view s' u k = None"
proof -
  obtain s' where g: "kv_set ops t k v ttl s = (Inr (), s')" using set_total [of t k v ttl s] by (metis prod.collapse)
  show thesis
    using that [OF g] set_frame [OF g] set_live [OF g] set_over [OF g] by (simp add: keeps_def)
qed

lemma setnx_run:
  obtains s' where "kv_setnx ops t k v ttl s = (Inr (view s t k = None), s')" "keeps view t {k} s s'"
    "\<And>u. view s t k = None \<Longrightarrow> t \<le> u \<Longrightarrow> u < t + ttl \<Longrightarrow> view s' u k = Some v"
    "view s t k \<noteq> None \<Longrightarrow> keeps view t {} s s'"
proof -
  obtain b s' where g: "kv_setnx ops t k v ttl s = (Inr b, s')" using setnx_total [of t k v ttl s] by (metis prod.collapse)
  then have b: "b = (view s t k = None)" using setnx_is_view [of t k v ttl s] by simp
  have "view s' u j = view s u j" if "view s t k \<noteq> None" "t \<le> u" for u j
    using that g b setnx_kept [of t k v ttl s s' u] setnx_frame [OF g, of u j] by (cases "j = k") auto
  moreover have "view s' u k = Some v" if "view s t k = None" "t \<le> u" "u < t + ttl" for u
    using that g b setnx_live [of t k v ttl s s' u] by simp
  ultimately show thesis
    using that [of s'] g b setnx_frame [OF g] by (simp add: keeps_def)
qed

lemma del_run:
  obtains s' where "kv_del ops ks s = (Inr (), s')" "\<And>t k. view s' t k = (if k \<in> set ks then None else view s t k)"
proof -
  obtain s' where g: "kv_del ops ks s = (Inr (), s')" using del_total [of ks s] by (metis prod.collapse)
  show thesis using that [OF g] del_gone [OF g] del_frame [OF g] by simp
qed

lemma del_view: "view (snd (kv_del ops ks s)) t k = (if k \<in> set ks then None else view s t k)"
  by (rule del_run [of ks s]) simp

lemma drop_session_view:
  "view (drop_session ops old s) t k =
    (if old \<noteq> Inl NotFound \<and> old \<noteq> Inl KvFail \<and> old \<noteq> Inr [] \<and> k = session_key (projr old) then None else view s t k)"
proof (cases old)
  case (Inl e)
  then show ?thesis by (cases e) (simp_all add: drop_session_def)
qed (simp add: drop_session_def del_view)

lemma replace_session_run:
  assumes T: "\<And>i. clk i \<le> T" and jti: "plain jti"
  obtains s' where "replace_session ops clk pid jti s = (Inr (), s')"
    "keeps view T (session_keys view (clk 1) pid jti s) s s'"
    "\<And>t. T \<le> t \<Longrightarrow> t < clk 2 + sessionTTL \<Longrightarrow> view s' t (session_key jti) = Some ''1''"
    "\<And>t. T \<le> t \<Longrightarrow> t < clk 3 + sessionTTL \<Longrightarrow> view s' t (current_key pid) = Some jti"
    "\<And>t old. view s (clk 1) (current_key pid) = Some old \<Longrightarrow> plain old \<Longrightarrow> old \<noteq> [] \<Longrightarrow> old \<noteq> jti \<Longrightarrow> T \<le> t \<Longrightarrow>
       view s' t (session_key old) = None"
proof -
  let ?old = "view s (clk 1) (current_key pid)"
  let ?res = "case ?old of None \<Rightarrow> Inl NotFound | Some v \<Rightarrow> Inr v"
  obtain s1 where s1: "kv_get ops (clk 1) (current_key pid) s = (?res, s1)" "keeps view (clk 1) {} s s1"
    by (rule get_run [where t = "clk 1" and k = "current_key pid" and s = s]) (rule that; assumption)
  let ?s2 = "drop_session ops ?res s1"
  obtain s3 where s3: "kv_set ops (clk 2) (session_key jti) ''1'' sessionTTL ?s2 = (Inr (), s3)"
    "keeps view (clk 2) {session_key jti} ?s2 s3"
    "\<And>u. clk 2 \<le> u \<Longrightarrow> u < clk 2 + sessionTTL \<Longrightarrow> view s3 u (session_key jti) = Some ''1''"
    by (rule set_run [of "clk 2" "session_key jti" "''1''" sessionTTL ?s2]) blast
  obtain s4 where s4: "kv_set ops (clk 3) (current_key pid) jti sessionTTL s3 = (Inr (), s4)"
    "keeps view (clk 3) {current_key pid} s3 s4"
    "\<And>u. clk 3 \<le> u \<Longrightarrow> u < clk 3 + sessionTTL \<Longrightarrow> view s4 u (current_key pid) = Some jti"
    by (rule set_run [of "clk 3" "current_key pid" jti sessionTTL s3]) blast
  have run: "replace_session ops clk pid jti s = (Inr (), s4)"
    unfolding replace_session_def s1(1) prod.case s3(1) sum.case s4(1) ..
  have u: "clk i \<le> t" if "T \<le> t" for i t using T [of i] that by simp
  have last: "view s4 t k = view s3 t k" if "T \<le> t" "k \<noteq> current_key pid" for t k
    using keepsD [OF s4(2) u [OF that(1)]] that(2) by simp
  have mid: "view s3 t k = view ?s2 t k" if "T \<le> t" "k \<noteq> session_key jti" for t k
    using keepsD [OF s3(2) u [OF that(1)]] that(2) by simp
  have first: "view s1 t k = view s t k" if "T \<le> t" for t k
    using keepsD [OF s1(2) u [OF that]] by simp
  have drop: "view ?s2 t k = (if ?old \<noteq> None \<and> ?old \<noteq> Some [] \<and> k = session_key (the ?old) then None else view s1 t k)" for t k
    by (cases ?old) (simp_all add: drop_session_view)
  have "keeps view T (session_keys view (clk 1) pid jti s) s s4"
    unfolding keeps_def session_keys_def using last mid drop first by (auto split: if_splits)
  moreover have "view s4 t (session_key jti) = Some ''1''" if "T \<le> t" "t < clk 2 + sessionTTL" for t
    using last [OF that(1)] s3(3) [OF u [OF that(1)] that(2)] jti by (simp add: key_simps)
  moreover have "view s4 t (session_key old) = None"
    if "?old = Some old" "plain old" "old \<noteq> []" "old \<noteq> jti" "T \<le> t" for t old
    using last [OF that(5)] mid [OF that(5)] drop that by (simp add: key_simps)
  ultimately show thesis using that [OF run] s4(3) u by blast
qed

text \<open>
  A login that gets the lock ends with the new session live and pointed to, the old one gone and the
  lock free; one that does not get it changes nothing.
\<close>

lemma enforceSingleSession_run:
  assumes T: "\<And>i. clk i \<le> T" and jti: "plain jti" and r: "enforceSingleSession ops clk pid jti s = (r, s')"
  shows "r = (if view s (clk 0) (lock_key pid) = None then Inr () else Inl SessionInFlight)"
    and "r \<noteq> Inr () \<Longrightarrow> keeps view T {} s s'"
    and "clk 0 \<le> clk 1 \<Longrightarrow> keeps view T (insert (lock_key pid) (session_keys view (clk 1) pid jti s)) s s'"
    and "r = Inr () \<Longrightarrow> T \<le> t \<Longrightarrow> t < clk 2 + sessionTTL \<Longrightarrow> view s' t (session_key jti) = Some ''1''"
    and "r = Inr () \<Longrightarrow> T \<le> t \<Longrightarrow> t < clk 3 + sessionTTL \<Longrightarrow> view s' t (current_key pid) = Some jti"
    and "r = Inr () \<Longrightarrow> view s' t (lock_key pid) = None"
    and "r = Inr () \<Longrightarrow> clk 0 \<le> clk 1 \<Longrightarrow> view s (clk 1) (current_key pid) = Some old \<Longrightarrow> plain old \<Longrightarrow> old \<noteq> [] \<Longrightarrow>
      old \<noteq> jti \<Longrightarrow> T \<le> t \<Longrightarrow> view s' t (session_key old) = None"
proof -
  obtain s1 where s1: "kv_setnx ops (clk 0) (lock_key pid) ''1'' sessionLockTTL s = (Inr (view s (clk 0) (lock_key pid) = None), s1)"
    "keeps view (clk 0) {lock_key pid} s s1" "view s (clk 0) (lock_key pid) \<noteq> None \<Longrightarrow> keeps view (clk 0) {} s s1"
    by (rule setnx_run [of "clk 0" "lock_key pid" "''1''" sessionLockTTL s]) blast
  obtain s2 where s2: "replace_session ops clk pid jti s1 = (Inr (), s2)"
    "keeps view T (session_keys view (clk 1) pid jti s1) s1 s2"
    "\<And>t. T \<le> t \<Longrightarrow> t < clk 2 + sessionTTL \<Longrightarrow> view s2 t (session_key jti) = Some ''1''"
    "\<And>t. T \<le> t \<Longrightarrow> t < clk 3 + sessionTTL \<Longrightarrow> view s2 t (current_key pid) = Some jti"
    "\<And>t old. view s1 (clk 1) (current_key pid) = Some old \<Longrightarrow> plain old \<Longrightarrow> old \<noteq> [] \<Longrightarrow> old \<noteq> jti \<Longrightarrow> T \<le> t \<Longrightarrow>
       view s2 t (session_key old) = None"
    by (rule replace_session_run [OF T jti, where pid = pid and s = s1]) (rule that; assumption)
  obtain s3 where s3: "kv_del ops [lock_key pid] s2 = (Inr (), s3)"
    "\<And>t k. view s3 t k = (if k = lock_key pid then None else view s2 t k)"
    by (rule del_run [of "[lock_key pid]" s2]) simp
  have run: "(r, s') = (if view s (clk 0) (lock_key pid) = None then (Inr (), s3) else (Inl SessionInFlight, s1))"
    using r unfolding enforceSingleSession_def s1(1) prod.case sum.case
    by (auto simp: s2(1) s3(1) split: if_splits)
  then show "r = (if view s (clk 0) (lock_key pid) = None then Inr () else Inl SessionInFlight)" by (simp split: if_splits)
  have won: "view s (clk 0) (lock_key pid) = None \<and> s' = s3" if "r = Inr ()" using run that by (simp split: if_splits)
  have lost: "view s (clk 0) (lock_key pid) \<noteq> None \<and> s' = s1" if "r \<noteq> Inr ()" using run that by (simp split: if_splits)
  show "keeps view T {} s s'" if "r \<noteq> Inr ()"
    using lost [OF that] keeps_mono [OF s1(3) T [of 0]] by simp
  have same: "view s1 (clk 1) (current_key pid) = view s (clk 1) (current_key pid)" if "clk 0 \<le> clk 1"
    using keepsD [OF s1(2) that] by (simp add: key_simps)
  show "keeps view T (insert (lock_key pid) (session_keys view (clk 1) pid jti s)) s s'" if c: "clk 0 \<le> clk 1"
  proof (cases "r = Inr ()")
    case True
    have "session_keys view (clk 1) pid jti s1 = session_keys view (clk 1) pid jti s"
      using same [OF c] by (simp add: session_keys_def)
    with keeps_trans [OF s1(2) s2(2) T order_refl subset_refl]
    have "keeps view T ({lock_key pid} \<union> session_keys view (clk 1) pid jti s) s s2" by simp
    then show ?thesis using won [OF True] s3(2) by (auto simp: keeps_def)
  next
    case False
    then show ?thesis using lost [OF False] keeps_mono [OF s1(2) T [of 0]] by auto
  qed
  show "view s' t (session_key jti) = Some ''1''" if "r = Inr ()" "T \<le> t" "t < clk 2 + sessionTTL"
    using won [OF that(1)] s2(3) [OF that(2,3)] s3(2) jti by (simp add: key_simps)
  show "view s' t (current_key pid) = Some jti" if "r = Inr ()" "T \<le> t" "t < clk 3 + sessionTTL"
    using won [OF that(1)] s2(4) [OF that(2,3)] s3(2) by (simp add: key_simps)
  show "view s' t (lock_key pid) = None" if "r = Inr ()" using won [OF that] s3(2) by simp
  show "view s' t (session_key old) = None" if "r = Inr ()" "clk 0 \<le> clk 1"
    "view s (clk 1) (current_key pid) = Some old" "plain old" "old \<noteq> []" "old \<noteq> jti" "T \<le> t"
    using won [OF that(1)] s2(5) [of old] same that s3(2) by simp
qed

text \<open>The keys that a login of a player may touch, whatever its outcome.\<close>

lemma enforceSingleSession_touches:
  assumes T: "\<And>i. clk i \<le> T" and jti: "plain jti" and r: "enforceSingleSession ops clk pid jti s = (r, s')"
  shows "keeps view T ({lock_key pid, current_key pid} \<union> range session_key) s s'"
proof -
  obtain s1 where s1: "kv_setnx ops (clk 0) (lock_key pid) ''1'' sessionLockTTL s = (Inr (view s (clk 0) (lock_key pid) = None), s1)"
    "keeps view (clk 0) {lock_key pid} s s1"
    by (rule setnx_run [of "clk 0" "lock_key pid" "''1''" sessionLockTTL s]) blast
  obtain s2 where s2: "replace_session ops clk pid jti s1 = (Inr (), s2)"
    "keeps view T (session_keys view (clk 1) pid jti s1) s1 s2"
    by (rule replace_session_run [OF T jti, where pid = pid and s = s1]) (rule that; assumption)
  have "keeps view T ({lock_key pid} \<union> session_keys view (clk 1) pid jti s1) s s2"
    using keeps_trans [OF s1(2) s2(2) T order_refl subset_refl] .
  then have "keeps view T ({lock_key pid, current_key pid} \<union> range session_key) s s2"
    by (rule keeps_mono) (auto simp: session_keys_def)
  moreover have "s' = s1 \<or> s' = snd (kv_del ops [lock_key pid] s2)"
    using r unfolding enforceSingleSession_def s1(1) prod.case sum.case by (auto simp: s2(1) split: if_splits)
  moreover have "keeps view T ({lock_key pid, current_key pid} \<union> range session_key) s s1"
    by (rule keeps_mono [OF s1(2) T]) simp
  ultimately show ?thesis by (auto simp: keeps_def del_view)
qed

lemma storeRefreshToken_run:
  assumes T: "\<And>i. clk i \<le> T"
  obtains s' where "storeRefreshToken ops clk pid tok s = (Inr (), s')"
    "keeps view T {refresh_key pid, lookup_key tok} s s'"
    "\<And>t. T \<le> t \<Longrightarrow> t < clk 0 + refreshTTL \<Longrightarrow> view s' t (refresh_key pid) = Some tok"
    "\<And>t. T \<le> t \<Longrightarrow> t < clk 1 + refreshTTL \<Longrightarrow> view s' t (lookup_key tok) = Some pid"
proof -
  obtain s1 where s1: "kv_set ops (clk 0) (refresh_key pid) tok refreshTTL s = (Inr (), s1)"
    "keeps view (clk 0) {refresh_key pid} s s1"
    "\<And>u. clk 0 \<le> u \<Longrightarrow> u < clk 0 + refreshTTL \<Longrightarrow> view s1 u (refresh_key pid) = Some tok"
    by (rule set_run [of "clk 0" "refresh_key pid" tok refreshTTL s]) blast
  obtain s2 where s2: "kv_set ops (clk 1) (lookup_key tok) pid refreshTTL s1 = (Inr (), s2)"
    "keeps view (clk 1) {lookup_key tok} s1 s2"
    "\<And>u. clk 1 \<le> u \<Longrightarrow> u < clk 1 + refreshTTL \<Longrightarrow> view s2 u (lookup_key tok) = Some pid"
    by (rule set_run [of "clk 1" "lookup_key tok" pid refreshTTL s1]) blast
  have u: "clk i \<le> t" if "T \<le> t" for i t using T [of i] that by simp
  show thesis
  proof (rule that [of s2])
    show "storeRefreshToken ops clk pid tok s = (Inr (), s2)"
      unfolding storeRefreshToken_def s1(1) prod.case sum.case by (rule s2(1))
    show "keeps view T {refresh_key pid, lookup_key tok} s s2"
      by (rule keeps_trans [OF s1(2) s2(2) T T]) auto
    show "view s2 t (refresh_key pid) = Some tok" if "T \<le> t" "t < clk 0 + refreshTTL" for t
      using s1(3) [OF u [OF that(1)] that(2)] keepsD [OF s2(2) u [OF that(1)], of "refresh_key pid"] by (simp add: key_simps)
    show "view s2 t (lookup_key tok) = Some pid" if "T \<le> t" "t < clk 1 + refreshTTL" for t
      using s2(3) [OF u [OF that(1)] that(2)] .
  qed
qed

end

end
