(* ===== verification/Auth.thy ===== *)
theory Auth
  imports Session DbInvariant
begin

text \<open>
  Logins (\<open>internal/auth\<close>): the gate of the Steam ticket, the upsert of the player and of the state
  row, the login streak, the re-anchoring of the accrual, the tokens, and the handlers of the
  Steam, development, refresh and logout routes. Parameters: the Steam web API, the signature of a
  token, the hash of a ticket, the identifiers.
\<close>

section \<open>The Steam ticket\<close>

datatype steam_error = ErrInvalidTicket | ErrAccountBanned | ErrTicketNotOwned | SteamCallFailed

text \<open>\<open>errors.Is(err, ErrInvalidTicket)\<close>: the two specific reasons wrap it.\<close>

definition is_invalid_ticket :: "steam_error \<Rightarrow> bool" where
  "is_invalid_ticket e \<longleftrightarrow> e = ErrInvalidTicket \<or> e = ErrAccountBanned \<or> e = ErrTicketNotOwned"

record ticket_params =
  tp_Result :: string
  tp_SteamID :: string
  tp_OwnerSteamID :: string
  tp_VacBanned :: bool
  tp_PublisherBanned :: bool

definition validateTicketParams :: "ticket_params option \<Rightarrow> steam_error + string" where
  "validateTicketParams p =
     (case p of
        None \<Rightarrow> Inl ErrInvalidTicket
      | Some p \<Rightarrow>
          if tp_Result p \<noteq> ''OK'' then Inl ErrInvalidTicket
          else if tp_VacBanned p \<or> tp_PublisherBanned p then Inl ErrAccountBanned
          else if tp_OwnerSteamID p = [] \<or> tp_OwnerSteamID p \<noteq> tp_SteamID p then Inl ErrTicketNotOwned
          else Inr (tp_SteamID p))"

text \<open>
  The call: \<open>post\<close> is the HTTP client on the form of the request (\<open>None\<close>: no answer in 5 seconds),
  \<open>decode\<close> the JSON decoder on the body of the answer.
\<close>

definition AuthenticateTicket ::
  "((string \<times> string) list \<Rightarrow> string option) \<Rightarrow> (string \<Rightarrow> ticket_params option option) \<Rightarrow> string \<Rightarrow> string \<Rightarrow>
   string \<Rightarrow> steam_error + string" where
  "AuthenticateTicket post decode apiKey appID ticket =
     (case post [(''key'', apiKey), (''appid'', appID), (''ticket'', ticket), (''identity'', ''stone-server'')] of
        None \<Rightarrow> Inl SteamCallFailed
      | Some body \<Rightarrow>
          (case decode body of None \<Rightarrow> Inl SteamCallFailed | Some params \<Rightarrow> validateTicketParams params))"

definition mock_AuthenticateTicket :: "string \<Rightarrow> steam_error + string" where
  "mock_AuthenticateTicket ticket = (if ticket = ''invalid_ticket'' then Inl ErrInvalidTicket else Inr ticket)"

definition NewSteamClientForEnv ::
  "((string \<times> string) list \<Rightarrow> string option) \<Rightarrow> (string \<Rightarrow> ticket_params option option) \<Rightarrow> string \<Rightarrow> string \<Rightarrow>
   string \<Rightarrow> string \<Rightarrow> steam_error + string" where
  "NewSteamClientForEnv post decode appEnv apiKey appID =
     (if appEnv = ''development'' then mock_AuthenticateTicket else AuthenticateTicket post decode apiKey appID)"

section \<open>Tokens\<close>

record jwt_claims =
  cl_PlayerID :: string
  cl_Issuer :: string
  cl_Audience :: "string list"
  cl_Subject :: string
  cl_ID :: string
  cl_IssuedAt :: int
  cl_ExpiresAt :: int

definition jwtIssuer :: string where "jwtIssuer = ''stone-server''"
definition jwtAudience :: string where "jwtAudience = ''stone-server''"
definition jwtExpiry :: int where "jwtExpiry = 24 * 3600 * second"

text \<open>\<open>sign\<close> is the RS256 signature with the server's key; it may fail.\<close>

definition NewToken :: "(jwt_claims \<Rightarrow> string option) \<Rightarrow> int \<Rightarrow> string \<Rightarrow> string \<Rightarrow> (string \<times> int) option" where
  "NewToken sign now pid jti =
     (let expAt = now + jwtExpiry;
          claims = \<lparr>cl_PlayerID = pid, cl_Issuer = jwtIssuer, cl_Audience = [jwtAudience], cl_Subject = pid,
                    cl_ID = jti, cl_IssuedAt = now, cl_ExpiresAt = expAt\<rparr>
      in map_option (\<lambda>tok. (tok, expAt)) (sign claims))"

section \<open>The player's rows\<close>

text \<open>
  The upsert: a known Steam identity gets its \<open>last_login\<close> set and keeps its identifier, an unknown
  one is inserted; a new identifier that is taken violates the primary key.
\<close>

definition player_of :: "database \<Rightarrow> string \<Rightarrow> player_row option" where
  "player_of db steamID = find (\<lambda>p. steam_id p = steamID) (players db)"

definition upsertPlayer ::
  "bool \<Rightarrow> int \<Rightarrow> string \<Rightarrow> string \<Rightarrow> database \<Rightarrow> (sql_error + string) \<times> database" where
  "upsertPlayer fault sqlnow newid steamID db =
     (if fault then (Inl DbError, db)
      else case player_of db steamID of
        Some p \<Rightarrow> (Inr (p_id p), db\<lparr>players := sql_update (\<lambda>p. steam_id p = steamID)
                   (\<lambda>p. p\<lparr>last_login := Some sqlnow\<rparr>) (players db)\<rparr>)
      | None \<Rightarrow>
          if has_player db newid then (Inl DbError, db)
          else (Inr newid, db\<lparr>players := players db @
                 [\<lparr>p_id = newid, steam_id = steamID, created_at = sqlnow, last_login = Some sqlnow\<rparr>]\<rparr>))"

text \<open>The defaults of a new \<open>player_states\<close> row.\<close>

definition new_state :: "string \<Rightarrow> int \<Rightarrow> state_row" where
  "new_state pid sqlnow = \<lparr>s_player = pid, enlightenment_pts = Fin 0, time_stone_count = 0, streak_days = 0,
     last_login_date = None, next_gacha_at = None, enlightenment_rate = Fin 1, last_sync_at = Some sqlnow,
     cairn_last_growth_at = None, updated_at = sqlnow\<rparr>"

definition insert_state :: "bool \<Rightarrow> int \<Rightarrow> string \<Rightarrow> database \<Rightarrow> (sql_error + unit) \<times> database" where
  "insert_state fault sqlnow pid db =
     (if fault then (Inl DbError, db)
      else if state_of db pid \<noteq> None then (Inr (), db)
      else if \<not> has_player db pid then (Inl DbError, db)
      else (Inr (), db\<lparr>player_states := player_states db @ [new_state pid sqlnow]\<rparr>))"

definition initPlayerState ::
  "bool \<Rightarrow> faults \<Rightarrow> int \<Rightarrow> int \<Rightarrow> cairn_config \<Rightarrow> string \<Rightarrow> database \<Rightarrow> (unit + unit) \<times> database" where
  "initPlayerState fault slotft sqlnow now c pid db =
     bindS (failS () (insert_state fault sqlnow pid db))
       (\<lambda>_ db1. failS () (InitializeSlots c slotft pid now db1))"

text \<open>\<open>date('now')\<close> is the day of the UTC calendar, as the number of days since 1970-01-01.\<close>

definition utc_day :: "int \<Rightarrow> int" where
  "utc_day t = t div 86400"

definition streaked :: "int \<Rightarrow> state_row \<Rightarrow> state_row" where
  "streaked now r = r\<lparr>
     streak_days :=
       (case last_login_date r of
          None \<Rightarrow> 1
        | Some d \<Rightarrow>
            if d = utc_day now then streak_days r
            else if d = utc_day now - 1 then streak_days r + 1
            else 1),
     last_login_date := Some (utc_day now), updated_at := now\<rparr>"

definition updateLoginStreak :: "bool \<Rightarrow> int \<Rightarrow> string \<Rightarrow> database \<Rightarrow> (sql_error + unit) \<times> database" where
  "updateLoginStreak fault sqlnow pid db =
     (if fault then (Inl DbError, db) else (Inr (), set_state pid (streaked sqlnow) db))"

definition anchored :: "int \<Rightarrow> state_row \<Rightarrow> state_row" where
  "anchored now r = r\<lparr>last_sync_at := Some now, cairn_last_growth_at := Some (Stamp now), updated_at := now\<rparr>"

definition resetAccrualAnchor :: "bool \<Rightarrow> int \<Rightarrow> string \<Rightarrow> database \<Rightarrow> (sql_error + unit) \<times> database" where
  "resetAccrualAnchor fault sqlnow pid db =
     (if fault then (Inl DbError, db) else (Inr (), set_state pid (anchored sqlnow) db))"

section \<open>The login\<close>

record auth_handler =
  auth_cairn :: cairn_config
  auth_sign :: "jwt_claims \<Rightarrow> string option"

record auth_response =
  ar_JWT :: string
  ar_RefreshToken :: string
  ar_ExpiresAt :: int

text \<open>
  The surroundings of one request: SQLite's clock, the handler's clock, the clock of the store, the
  faults of the statements and of the slot inserts, the generated identifiers (player, jti, refresh).
\<close>

record auth_env =
  a_sqlnow :: "nat \<Rightarrow> int"
  a_now :: clock
  a_kv :: clock
  a_fault :: faults
  a_slot_fault :: faults
  a_uuid :: "nat \<Rightarrow> string"

datatype login_error =
  UpsertFailed | InitFailed | StreakFailed | SignFailed | SessionFailed session_error | RefreshFailed | AnchorFailed

text \<open>The statements before the session: player, state row and slots, streak (not for a load-test token).\<close>

definition prepare_player ::
  "auth_handler \<Rightarrow> auth_env \<Rightarrow> bool \<Rightarrow> string \<Rightarrow> database \<Rightarrow> (login_error + string) \<times> database" where
  "prepare_player h env streak steamID db =
     bindS (failS UpsertFailed (upsertPlayer (a_fault env 0) (a_sqlnow env 0) (a_uuid env 0) steamID db)) (\<lambda>pid db1.
     bindS (failS InitFailed (initPlayerState (a_fault env 1) (a_slot_fault env) (a_sqlnow env 1) (a_now env 0)
              (auth_cairn h) pid db1)) (\<lambda>_ db2.
     bindS (if streak then failS StreakFailed (updateLoginStreak (a_fault env 2) (a_sqlnow env 2) pid db2) else (Inr (), db2))
       (\<lambda>_ db3. (Inr pid, db3))))"

text \<open>The session of a player: single session, then refresh token.\<close>

definition open_session ::
  "'s kv_ops \<Rightarrow> clock \<Rightarrow> string \<Rightarrow> string \<Rightarrow> string \<Rightarrow> 's \<Rightarrow> (login_error + unit) \<times> 's" where
  "open_session ops clk pid jti tok s =
     (case enforceSingleSession ops clk pid jti s of
        (Inl e, s1) \<Rightarrow> (Inl (SessionFailed e), s1)
      | (Inr _, s1) \<Rightarrow> failS RefreshFailed (storeRefreshToken ops (\<lambda>i. clk (4 + i)) pid tok s1))"

definition login ::
  "'s kv_ops \<Rightarrow> auth_handler \<Rightarrow> auth_env \<Rightarrow> clock \<Rightarrow> bool \<Rightarrow> string \<Rightarrow> 's \<Rightarrow> database \<Rightarrow>
   (login_error + auth_response) \<times> 's \<times> database" where
  "login ops h env clk streak steamID s db =
     (case prepare_player h env streak steamID db of
        (Inl e, db1) \<Rightarrow> (Inl e, s, db1)
      | (Inr pid, db1) \<Rightarrow>
          (case NewToken (auth_sign h) (a_now env 1) pid (a_uuid env 1) of
             None \<Rightarrow> (Inl SignFailed, s, db1)
           | Some (jwt, expAt) \<Rightarrow>
               (case open_session ops clk pid (a_uuid env 1) (a_uuid env 2) s of
                  (Inl e, s1) \<Rightarrow> (Inl e, s1, db1)
                | (Inr _, s1) \<Rightarrow>
                    (case resetAccrualAnchor (a_fault env 3) (a_sqlnow env 3) pid db1 of
                       (Inl _, db2) \<Rightarrow> (Inl AnchorFailed, s1, db2)
                     | (Inr _, db2) \<Rightarrow>
                         (Inr \<lparr>ar_JWT = jwt, ar_RefreshToken = a_uuid env 2, ar_ExpiresAt = expAt\<rparr>, s1, db2)))))"

section \<open>The handlers\<close>

definition session_answer :: "session_error \<Rightarrow> 'a answer" where
  "session_answer e = (case e of SessionInFlight \<Rightarrow> Reject 409 ''LOGIN_IN_PROGRESS'' | SessionKv _ \<Rightarrow> unavailable)"

fun steam_login_answer :: "login_error \<Rightarrow> 'a answer" where
  "steam_login_answer (SessionFailed e) = session_answer e"
| "steam_login_answer RefreshFailed = unavailable"
| "steam_login_answer _ = internal_error"

text \<open>\<open>AuthSteam\<close>: the ticket is claimed first and released when the login does not succeed.\<close>

definition AuthSteam ::
  "'s kv_ops \<Rightarrow> auth_handler \<Rightarrow> (string \<Rightarrow> string) \<Rightarrow> (string \<Rightarrow> steam_error + string) \<Rightarrow> auth_env \<Rightarrow> string option \<Rightarrow>
   's \<Rightarrow> database \<Rightarrow> auth_response answer \<times> 's \<times> database" where
  "AuthSteam ops h ticketHash steam env body s db =
     (case body of
        None \<Rightarrow> (Reject 400 ''INVALID_REQUEST'', s, db)
      | Some ticket \<Rightarrow>
          if ticket = [] then (Reject 400 ''INVALID_REQUEST'', s, db)
          else (case claimTicket ops (a_kv env 0) (ticketHash ticket) s of
             (Inl _, s1) \<Rightarrow> (unavailable, s1, db)
           | (Inr claimed, s1) \<Rightarrow>
               if \<not> claimed then (Reject 409 ''TICKET_USED'', s1, db)
               else (case steam ticket of
                  Inl e \<Rightarrow> ((if is_invalid_ticket e then Reject 401 ''INVALID_TICKET'' else internal_error),
                            releaseTicket ops (ticketHash ticket) s1, db)
                | Inr steamID \<Rightarrow>
                    (case login ops h env (\<lambda>i. a_kv env (1 + i)) True steamID s1 db of
                       (Inl e, s2, db2) \<Rightarrow> (steam_login_answer e, releaseTicket ops (ticketHash ticket) s2, db2)
                     | (Inr resp, s2, db2) \<Rightarrow> (OK resp, s2, db2)))))"

fun dev_login_answer :: "login_error \<Rightarrow> 'a answer" where
  "dev_login_answer (SessionFailed SessionInFlight) = Reject 409 ''LOGIN_IN_PROGRESS''"
| "dev_login_answer _ = internal_error"

text \<open>\<open>uuid_ok\<close> is \<open>uuid.Parse\<close> without its result.\<close>

definition AuthDev ::
  "'s kv_ops \<Rightarrow> auth_handler \<Rightarrow> (string \<Rightarrow> bool) \<Rightarrow> auth_env \<Rightarrow> string option \<Rightarrow> 's \<Rightarrow> database \<Rightarrow>
   auth_response answer \<times> 's \<times> database" where
  "AuthDev ops h uuid_ok env body s db =
     (case body of
        None \<Rightarrow> (Reject 400 ''INVALID_REQUEST'', s, db)
      | Some u \<Rightarrow>
          if u = [] \<or> \<not> uuid_ok u then (Reject 400 ''INVALID_REQUEST'', s, db)
          else (case login ops h env (a_kv env) True u s db of
                  (Inl e, s1, db1) \<Rightarrow> (dev_login_answer e, s1, db1)
                | (Inr resp, s1, db1) \<Rightarrow> (OK resp, s1, db1)))"

text \<open>\<open>DevToken\<close>: its error bodies have no code.\<close>

definition DevToken ::
  "'s kv_ops \<Rightarrow> auth_handler \<Rightarrow> auth_env \<Rightarrow> string \<Rightarrow> 's \<Rightarrow> database \<Rightarrow> auth_response answer \<times> 's \<times> database" where
  "DevToken ops h env steamID s db =
     (if steamID = [] then (Reject 400 [], s, db)
      else (case login ops h env (a_kv env) False steamID s db of
              (Inl e, s1, db1) \<Rightarrow> (Reject 500 [], s1, db1)
            | (Inr resp, s1, db1) \<Rightarrow> (OK resp, s1, db1)))"

text \<open>
  \<open>AuthRefresh\<close>: the body of the critical section, then the handler with its lock, which is released on
  every path. A failing cooldown is only logged.
\<close>

definition refresh_locked ::
  "'s kv_ops \<Rightarrow> auth_handler \<Rightarrow> auth_env \<Rightarrow> string \<Rightarrow> string \<Rightarrow> 's \<Rightarrow> auth_response answer \<times> 's" where
  "refresh_locked ops h env pid tok s =
     (case isRefreshCoolingDown ops (a_kv env 2) pid s of
        (Inl _, s1) \<Rightarrow> (unavailable, s1)
      | (Inr cooling, s1) \<Rightarrow>
          if cooling then (Reject 409 ''REFRESH_IN_PROGRESS'', s1)
          else (case getStoredRefreshToken ops (a_kv env 3) pid s1 of
             (Inl NotFound, s2) \<Rightarrow> (Reject 401 ''INVALID_REFRESH_TOKEN'', s2)
           | (Inl KvFail, s2) \<Rightarrow> (unavailable, s2)
           | (Inr stored, s2) \<Rightarrow>
               if stored \<noteq> tok then (Reject 401 ''REFRESH_TOKEN_REVOKED'', s2)
               else (case NewToken (auth_sign h) (a_now env 0) pid (a_uuid env 0) of
                  None \<Rightarrow> (internal_error, s2)
                | Some (jwt, expAt) \<Rightarrow>
                    (case enforceSingleSession ops (\<lambda>i. a_kv env (4 + i)) pid (a_uuid env 0) s2 of
                       (Inl e, s3) \<Rightarrow> (session_answer e, s3)
                     | (Inr _, s3) \<Rightarrow>
                         (let s4 = snd (setRefreshCooldown ops (a_kv env 8) pid s3)
                          in case storeRefreshToken ops (\<lambda>i. a_kv env (9 + i)) pid (a_uuid env 1) s4 of
                               (Inl _, s5) \<Rightarrow> (unavailable, s5)
                             | (Inr _, s5) \<Rightarrow>
                                 (OK \<lparr>ar_JWT = jwt, ar_RefreshToken = a_uuid env 1, ar_ExpiresAt = expAt\<rparr>,
                                  invalidateRefreshLookup ops tok s5))))))"

definition AuthRefresh ::
  "'s kv_ops \<Rightarrow> auth_handler \<Rightarrow> auth_env \<Rightarrow> string option \<Rightarrow> 's \<Rightarrow> auth_response answer \<times> 's" where
  "AuthRefresh ops h env body s =
     (case body of
        None \<Rightarrow> (Reject 400 ''INVALID_REQUEST'', s)
      | Some tok \<Rightarrow>
          if tok = [] then (Reject 400 ''INVALID_REQUEST'', s)
          else (case lookupRefreshToken ops (a_kv env 0) tok s of
             (Inl NotFound, s1) \<Rightarrow> (Reject 401 ''INVALID_REFRESH_TOKEN'', s1)
           | (Inl KvFail, s1) \<Rightarrow> (unavailable, s1)
           | (Inr pid, s1) \<Rightarrow>
               (case acquireRefreshLock ops (a_kv env 1) pid s1 of
                  (Inl _, s2) \<Rightarrow> (unavailable, s2)
                | (Inr acquired, s2) \<Rightarrow>
                    if \<not> acquired then (Reject 409 ''REFRESH_IN_PROGRESS'', s2)
                    else (case refresh_locked ops h env pid tok s2 of
                            (a, s3) \<Rightarrow> (a, releaseRefreshLock ops pid s3)))))"

definition AuthLogout :: "'s kv_ops \<Rightarrow> int \<Rightarrow> string \<Rightarrow> string \<Rightarrow> 's \<Rightarrow> unit answer \<times> 's" where
  "AuthLogout ops t pid jti s = (OK (), logoutSession ops t pid jti s)"

end
