(* ===== verification/AuthProps.thy ===== *)
theory AuthProps
  imports Auth
begin

text \<open>
  What the logins guarantee: the rows they create and keep, the single use of a ticket, the rotation
  of refresh tokens, and what a refused login leaves alone.
\<close>

section \<open>The statements of a login\<close>

lemma upsertPlayer_effect:
  assumes "upsertPlayer fault sqlnow newid steamID db = (r, db')"
  shows "\<exists>t. db' = db\<lparr>players := t\<rparr>" and "has_player db q \<Longrightarrow> has_player db' q"
    and "r = Inr pid \<Longrightarrow> has_player db' pid"
    and "r = Inr pid \<Longrightarrow> \<exists>p. player_of db' steamID = Some p \<and> p_id p = pid \<and> last_login p = Some sqlnow"
    and "player_of db steamID = Some p \<Longrightarrow> r = Inr pid \<Longrightarrow> pid = p_id p"
    and "keys_ok db \<Longrightarrow> keys_ok db'"
proof -
  let ?upd = "sql_update (\<lambda>p. steam_id p = steamID) (\<lambda>p. p\<lparr>last_login := Some sqlnow\<rparr>) (players db)"
  let ?new = "\<lparr>p_id = newid, steam_id = steamID, created_at = sqlnow, last_login = Some sqlnow\<rparr>"
  have ids: "list_ex (\<lambda>p. p_id p = i) (sql_update P (\<lambda>p. p\<lparr>last_login := x\<rparr>) t) = list_ex (\<lambda>p. p_id p = i) t" for i P x and t :: "player_row list"
    by (induction t) auto
  have find: "find (\<lambda>p. steam_id p = steamID) (sql_update (\<lambda>p. steam_id p = steamID) (\<lambda>p. p\<lparr>last_login := x\<rparr>) t) =
      map_option (\<lambda>p. p\<lparr>last_login := x\<rparr>) (find (\<lambda>p. steam_id p = steamID) t)" for x and t :: "player_row list"
    by (induction t) auto
  have cases: "db' = db \<and> r = Inl DbError \<or>
     (\<exists>p. player_of db steamID = Some p \<and> r = Inr (p_id p) \<and> db' = db\<lparr>players := ?upd\<rparr>) \<or>
     player_of db steamID = None \<and> \<not> has_player db newid \<and> r = Inr newid \<and> db' = db\<lparr>players := players db @ [?new]\<rparr>"
    using assms unfolding upsertPlayer_def by (auto split: if_splits option.splits)
  show "\<exists>t. db' = db\<lparr>players := t\<rparr>"
  proof -
    have "db = db\<lparr>players := players db\<rparr>" by simp
    with cases show ?thesis by blast
  qed
  show "has_player db q \<Longrightarrow> has_player db' q" using cases ids by (auto simp: has_player_def)
  have member: "player_of db steamID = Some p \<Longrightarrow> has_player db (p_id p)" for p
    unfolding player_of_def has_player_def by (auto simp: list_ex_iff dest: find_SomeD)
  show "r = Inr pid \<Longrightarrow> has_player db' pid" using cases ids member by (auto simp: has_player_def)
  show "r = Inr pid \<Longrightarrow> \<exists>p. player_of db' steamID = Some p \<and> p_id p = pid \<and> last_login p = Some sqlnow"
  proof -
    assume r: "r = Inr pid"
    have app: "find P (t @ [x]) = (case find P t of None \<Rightarrow> (if P x then Some x else None) | Some y \<Rightarrow> Some y)" for P t and x :: player_row
      by (induction t) auto
    show ?thesis using cases r find by (auto simp: player_of_def app)
  qed
  show "player_of db steamID = Some p \<Longrightarrow> r = Inr pid \<Longrightarrow> pid = p_id p" using cases by auto
  show "keys_ok db \<Longrightarrow> keys_ok db'"
  proof -
    assume k: "keys_ok db"
    have "map p_id ?upd = map p_id (players db)" "map steam_id ?upd = map steam_id (players db)"
      by (simp_all add: map_key_sql_update)
    moreover have "steamID \<notin> steam_id ` set (players db)" if "player_of db steamID = None"
      using that by (auto simp: player_of_def find_None_iff)
    moreover have "newid \<notin> p_id ` set (players db)" if "\<not> has_player db newid"
      using that by (auto simp: has_player_def list_ex_iff)
    ultimately show ?thesis using cases k by (auto simp: keys_ok_def)
  qed
qed

lemma insert_state_effect:
  assumes "insert_state fault sqlnow pid db = (r, db')"
  shows "\<exists>t. db' = db\<lparr>player_states := t\<rparr>"
    and "r = Inr () \<Longrightarrow> state_of db' q = (if q = pid \<and> state_of db pid = None then Some (new_state pid sqlnow) else state_of db q)"
    and "state_of db q = Some st \<Longrightarrow> state_of db' q = Some st"
    and "q \<noteq> pid \<Longrightarrow> state_of db' q = state_of db q"
proof -
  let ?new = "db\<lparr>player_states := player_states db @ [new_state pid sqlnow]\<rparr>"
  have cases: "db' = db \<and> (r = Inr () \<longrightarrow> state_of db pid \<noteq> None) \<or> state_of db pid = None \<and> r = Inr () \<and> db' = ?new"
    using assms unfolding insert_state_def by (auto split: if_splits)
  have find: "find P (t @ [x]) = (case find P t of None \<Rightarrow> (if P x then Some x else None) | Some y \<Rightarrow> Some y)" for P t and x :: state_row
    by (induction t) auto
  have new: "state_of ?new q = (case state_of db q of None \<Rightarrow> (if pid = q then Some (new_state pid sqlnow) else None) | Some y \<Rightarrow> Some y)" for q
    by (cases "find (\<lambda>r. s_player r = q) (player_states db)") (simp_all add: state_of_def find new_state_def)
  have "db = db\<lparr>player_states := player_states db\<rparr>" by simp
  with cases show "\<exists>t. db' = db\<lparr>player_states := t\<rparr>" by blast
  show "r = Inr () \<Longrightarrow> state_of db' q = (if q = pid \<and> state_of db pid = None then Some (new_state pid sqlnow) else state_of db q)"
    using cases new [of q] by (auto split: option.splits)
  show "state_of db q = Some st \<Longrightarrow> state_of db' q = Some st" using cases new [of q] by auto
  show "q \<noteq> pid \<Longrightarrow> state_of db' q = state_of db q" using cases new [of q] by (auto split: option.splits)
qed

lemma db_ok_upsert:
  assumes "db_ok c db" and "upsertPlayer fault sqlnow newid steamID db = (r, db')"
  shows "db_ok c db'"
proof -
  note u = upsertPlayer_effect [OF assms(2)]
  obtain t where t: "db' = db\<lparr>players := t\<rparr>" using u(1) by blast
  show ?thesis
    using assms(1) u(2,6) unfolding db_ok_def refs_ok_def balances_ok_def stock_ok_def slots_ok_def by (simp add: t)
qed

lemma db_ok_insert_state:
  assumes "db_ok c db" and "insert_state fault sqlnow pid db = (r, db')"
  shows "db_ok c db'"
proof -
  have "db' = db \<or> state_of db pid = None \<and> has_player db pid \<and> db' = db\<lparr>player_states := player_states db @ [new_state pid sqlnow]\<rparr>"
    using assms(2) unfolding insert_state_def by (auto split: if_splits)
  moreover have "pid \<notin> s_player ` set (player_states db)" if "state_of db pid = None"
    using that by (auto simp: state_of_def find_None_iff)
  ultimately show ?thesis
    using assms(1)
    by (auto simp: db_ok_def keys_ok_def refs_ok_def balances_ok_def stock_ok_def slots_ok_def has_player_def new_state_def)
qed

lemma db_ok_initPlayerState:
  assumes "db_ok c db" and "0 \<le> MaxLayers c" and "initPlayerState fault slotft sqlnow now k pid db = (r, db')"
  shows "db_ok c db'"
proof -
  let ?r = "failS () (insert_state fault sqlnow pid db)"
  have "db_ok c (snd (bindS ?r (\<lambda>_ db1. failS () (InitializeSlots k slotft pid now db1))))"
  proof (rule bindS_preserve)
    show "db_ok c (snd ?r)" using db_ok_insert_state [OF assms(1)] by (metis prod.collapse snd_failS)
    show "db_ok c (snd (failS () (InitializeSlots k slotft pid now d)))" if "db_ok c d" for d
      using db_ok_InitializeSlots [OF that assms(2)] by (metis prod.collapse snd_failS)
  qed
  then show ?thesis using assms(3) by (simp add: initPlayerState_def)
qed

lemma db_ok_streak: "db_ok c db \<Longrightarrow> db_ok c (snd (updateLoginStreak fault sqlnow pid db))"
  unfolding updateLoginStreak_def by (simp add: db_ok_set_state streaked_def)

lemma db_ok_anchor: "db_ok c db \<Longrightarrow> db_ok c (snd (resetAccrualAnchor fault sqlnow pid db))"
  unfolding resetAccrualAnchor_def by (simp add: db_ok_set_state anchored_def)

lemma db_ok_prepare_player:
  assumes "db_ok c db" and "0 \<le> MaxLayers c"
  shows "db_ok c (snd (prepare_player h env streak steamID db))"
  unfolding prepare_player_def
proof (intro bindS_preserve [where P = "db_ok c"])
  show "db_ok c (snd (failS UpsertFailed (upsertPlayer (a_fault env 0) (a_sqlnow env 0) (a_uuid env 0) steamID db)))"
    using db_ok_upsert [OF assms(1)] by (metis prod.collapse snd_failS)
  show "db_ok c (snd (failS InitFailed (initPlayerState (a_fault env 1) (a_slot_fault env) (a_sqlnow env 1) (a_now env 0) (auth_cairn h) pid d)))"
    if "db_ok c d" for d pid
    using db_ok_initPlayerState [OF that assms(2)] by (metis prod.collapse snd_failS)
  show "db_ok c (snd (if streak then failS StreakFailed (updateLoginStreak (a_fault env 2) (a_sqlnow env 2) pid d) else (Inr (), d)))"
    if "db_ok c d" for d pid
    using db_ok_streak [OF that] that by simp
qed simp

lemma db_ok_login:
  assumes "db_ok c db" and "0 \<le> MaxLayers c" and "login ops h env clk streak steamID s db = (r, s', db')"
  shows "db_ok c db'"
proof -
  note p = db_ok_prepare_player [OF assms(1,2), of h env streak steamID]
  obtain r1 db1 where r1: "prepare_player h env streak steamID db = (r1, db1)" by fastforce
  with p have ok: "db_ok c db1" by simp
  then have "db_ok c (snd (resetAccrualAnchor (a_fault env 3) (a_sqlnow env 3) pid db1))" for pid by (rule db_ok_anchor)
  moreover have "db' = db1 \<or> (\<exists>pid. db' = snd (resetAccrualAnchor (a_fault env 3) (a_sqlnow env 3) pid db1))"
    using assms(3) unfolding login_def r1
    by (auto split: prod.splits sum.splits option.splits) (metis snd_conv)+
  ultimately show ?thesis using ok by blast
qed

section \<open>What a login does to the data base\<close>

lemma state_of_frames:
  "state_of (db\<lparr>players := t\<rparr>) q = state_of db q" "state_of (db\<lparr>wish_cairn_slots := u\<rparr>) q = state_of db q"
  by (simp_all add: state_of_def)

lemma slot_of_append_other:
  "slot_of db q i = Some x \<Longrightarrow> slot_of (db\<lparr>wish_cairn_slots := wish_cairn_slots db @ new\<rparr>) q i = Some x"
  by (simp add: slot_of_append)

text \<open>The rows after the statements before the session, for a login that gets that far.\<close>

lemma prepare_player_Inr:
  assumes "prepare_player h env streak steamID db = (Inr pid, db')"
  obtains p where "player_of db' steamID = Some p" and "p_id p = pid" and "last_login p = Some (a_sqlnow env 0)"
    and "\<And>p0. player_of db steamID = Some p0 \<Longrightarrow> pid = p_id p0"
    and "state_of db' pid = Some ((if streak then streaked (a_sqlnow env 2) else id)
           (case state_of db pid of None \<Rightarrow> new_state pid (a_sqlnow env 1) | Some st \<Rightarrow> st))"
    and "\<And>q. q \<noteq> pid \<Longrightarrow> state_of db' q = state_of db q"
    and "\<And>i. 0 \<le> i \<Longrightarrow> i < SlotCount (auth_cairn h) \<Longrightarrow> slot_of db' pid i \<noteq> None"
    and "\<And>q i x. slot_of db q i = Some x \<Longrightarrow> slot_of db' q i = Some x"
    and "inventories db' = inventories db" and "gacha_logs db' = gacha_logs db" and "vow_logs db' = vow_logs db"
proof -
  obtain db1 d2 db2 where u: "upsertPlayer (a_fault env 0) (a_sqlnow env 0) (a_uuid env 0) steamID db = (Inr pid, db1)"
    and ins: "insert_state (a_fault env 1) (a_sqlnow env 1) pid db1 = (Inr (), d2)"
    and init: "InitializeSlots (auth_cairn h) (a_slot_fault env) pid (a_now env 0) d2 = (Inr (), db2)"
    and st: "db' = (if streak then set_state pid (streaked (a_sqlnow env 2)) db2 else db2)"
    using assms unfolding prepare_player_def initPlayerState_def
    by (auto simp: run_simps updateLoginStreak_def split: if_splits)
  note U = upsertPlayer_effect [OF u] and N = insert_state_effect [OF ins] and S = InitializeSlots_effect [OF init]
  obtain t where t: "db1 = db\<lparr>players := t\<rparr>" using U(1) by blast
  obtain t2 where t2: "d2 = db1\<lparr>player_states := t2\<rparr>" using N(1) by blast
  obtain new where new: "db2 = d2\<lparr>wish_cairn_slots := wish_cairn_slots d2 @ new\<rparr>" using S(1) by blast
  have rows: "state_of db2 q = state_of d2 q" "state_of db1 q = state_of db q" for q
    by (simp_all add: new t state_of_frames)
  have two: "state_of db2 q = (if q = pid \<and> state_of db pid = None then Some (new_state pid (a_sqlnow env 1)) else state_of db q)" for q
    using N(2) [OF refl, of q] rows by simp
  obtain p where p: "player_of db1 steamID = Some p" "p_id p = pid" "last_login p = Some (a_sqlnow env 0)"
    using U(4) [OF refl] by blast
  have keep: "s_player (streaked (a_sqlnow env 2) r) = s_player r" for r by (simp add: streaked_def)
  have three: "state_of db' q = (if q = pid \<and> streak then map_option (streaked (a_sqlnow env 2)) (state_of db2 q) else state_of db2 q)" for q
    using state_of_set_state [OF keep, of pid db2 q] by (cases "q = pid") (simp_all add: st)
  show thesis
  proof (rule that [of p])
    show "player_of db' steamID = Some p" using p(1) by (simp add: player_of_def st new t2 frame_simps)
    show "state_of db' pid = Some ((if streak then streaked (a_sqlnow env 2) else id)
           (case state_of db pid of None \<Rightarrow> new_state pid (a_sqlnow env 1) | Some st \<Rightarrow> st))"
      using two three by (cases "state_of db pid") simp_all
    show "state_of db' q = state_of db q" if "q \<noteq> pid" for q using two three that by simp
    show "slot_of db' pid i \<noteq> None" if "0 \<le> i" "i < SlotCount (auth_cairn h)" for i
      using S(2) [OF refl that] by (simp add: st slot_of_def set_state_def)
    show "slot_of db' q i = Some x" if "slot_of db q i = Some x" for q i x
    proof -
      have "slot_of d2 q i = Some x" using that by (simp add: t t2 slot_of_def)
      then have "slot_of db2 q i = Some x" unfolding new by (rule slot_of_append_other)
      then show ?thesis by (simp add: st slot_of_def set_state_def)
    qed
    show "pid = p_id p0" if "player_of db steamID = Some p0" for p0 by (rule U(5) [OF that refl])
  qed (simp_all add: p(2,3), simp_all add: st new t2 t frame_simps)
qed

text \<open>However far a login gets, the accrual of the rows that exist is as before.\<close>

definition accrual_of :: "state_row \<Rightarrow> f64 \<times> f64 \<times> int option \<times> stamp option \<times> int option" where
  "accrual_of st = (enlightenment_pts st, enlightenment_rate st, last_sync_at st, cairn_last_growth_at st, next_gacha_at st)"

definition accrual_kept :: "database \<Rightarrow> database \<Rightarrow> bool" where
  "accrual_kept db db' \<longleftrightarrow>
   (\<forall>q st. state_of db q = Some st \<longrightarrow> (\<exists>st'. state_of db' q = Some st' \<and> accrual_of st' = accrual_of st)) \<and>
   inventories db' = inventories db \<and> (\<forall>q i x. slot_of db q i = Some x \<longrightarrow> slot_of db' q i = Some x)"

lemma accrual_kept_refl: "accrual_kept db db"
  by (auto simp: accrual_kept_def)

lemma accrual_kept_trans: "accrual_kept a b \<Longrightarrow> accrual_kept b c \<Longrightarrow> accrual_kept a c"
  unfolding accrual_kept_def by (intro conjI allI impI) (metis, simp, blast)

lemma accrual_kept_prepare: "accrual_kept db (snd (prepare_player h env streak steamID db))"
  unfolding prepare_player_def
proof (intro bindS_preserve [where P = "accrual_kept db"])
  let ?u = "upsertPlayer (a_fault env 0) (a_sqlnow env 0) (a_uuid env 0) steamID db"
  obtain t where "snd ?u = db\<lparr>players := t\<rparr>" using upsertPlayer_effect(1) by (metis prod.collapse)
  then show "accrual_kept db (snd (failS UpsertFailed ?u))"
    by (simp add: accrual_kept_def state_of_def slot_of_def)
next
  fix pid d
  assume k: "accrual_kept db d"
  show "accrual_kept db (snd (failS InitFailed (initPlayerState (a_fault env 1) (a_slot_fault env) (a_sqlnow env 1)
      (a_now env 0) (auth_cairn h) pid d)))"
    unfolding snd_failS initPlayerState_def
  proof (intro bindS_preserve [where P = "accrual_kept db"])
    obtain r d1 where r: "insert_state (a_fault env 1) (a_sqlnow env 1) pid d = (r, d1)" by fastforce
    obtain t where "d1 = d\<lparr>player_states := t\<rparr>" using insert_state_effect(1) [OF r] by blast
    then have "accrual_kept d d1"
      using insert_state_effect(3) [OF r] by (auto simp: accrual_kept_def slot_of_def)
    then show "accrual_kept db (snd (failS () (insert_state (a_fault env 1) (a_sqlnow env 1) pid d)))"
      using k r accrual_kept_trans by simp
  next
    fix d1
    assume k1: "accrual_kept db d1"
    let ?i = "InitializeSlots (auth_cairn h) (a_slot_fault env) pid (a_now env 0) d1"
    obtain new where n: "snd ?i = d1\<lparr>wish_cairn_slots := wish_cairn_slots d1 @ new\<rparr>"
      using InitializeSlots_effect(1) by (metis prod.collapse)
    have "accrual_kept d1 (d1\<lparr>wish_cairn_slots := wish_cairn_slots d1 @ new\<rparr>)"
      by (simp add: accrual_kept_def state_of_frames slot_of_append_other)
    then show "accrual_kept db (snd (failS () ?i))" using k1 n accrual_kept_trans by simp
  qed
next
  fix pid d
  assume k: "accrual_kept db d"
  have keep: "s_player (streaked (a_sqlnow env 2) r) = s_player r" for r by (simp add: streaked_def)
  have same: "accrual_of (streaked x r) = accrual_of r" for x r by (simp add: accrual_of_def streaked_def)
  have "accrual_kept d (set_state pid (streaked (a_sqlnow env 2)) d)"
    using state_of_set_state [OF keep, of pid d]
    by (auto simp: accrual_kept_def slot_of_def set_state_tables same)
  then show "accrual_kept db (snd (if streak then failS StreakFailed (updateLoginStreak (a_fault env 2) (a_sqlnow env 2) pid d) else (Inr (), d)))"
    using k accrual_kept_trans by (auto simp: updateLoginStreak_def)
qed simp_all

section \<open>The streak\<close>

definition run_of_days :: "int set \<Rightarrow> int \<Rightarrow> int \<Rightarrow> bool" where
  "run_of_days days d k \<longleftrightarrow> 1 \<le> k \<and> (\<forall>i. 0 \<le> i \<and> i < k \<longrightarrow> d - i \<in> days) \<and> d - k \<notin> days"

lemma utc_day_mono: "a \<le> b \<Longrightarrow> utc_day a \<le> utc_day b"
  by (simp add: utc_day_def zdiv_mono1)

lemma streaked_run:
  assumes "last_login_date r = Some d" and "run_of_days days d (streak_days r)"
    and "\<forall>x \<in> days. x \<le> d" and "d \<le> utc_day t"
  shows "run_of_days (insert (utc_day t) days) (utc_day t) (streak_days (streaked t r))"
proof -
  let ?u = "utc_day t"
  note run = assms(2) [unfolded run_of_days_def]
  consider "d = ?u" | "d = ?u - 1" | "d < ?u - 1" using assms(4) by linarith
  then show ?thesis
  proof cases
    case 1
    then have "streak_days (streaked t r) = streak_days r" using assms(1) by (simp add: streaked_def)
    then show ?thesis using run 1 by (auto simp: run_of_days_def)
  next
    case 2
    then have k: "streak_days (streaked t r) = streak_days r + 1" using assms(1) by (simp add: streaked_def)
    have "?u - i \<in> insert ?u days" if "0 \<le> i" "i < streak_days r + 1" for i
    proof (cases "i = 0")
      case False
      then have "d - (i - 1) \<in> days" using that run by simp
      then show ?thesis using 2 by simp
    qed simp
    moreover have "?u - (streak_days r + 1) \<notin> days"
    proof -
      have "?u - (streak_days r + 1) = d - streak_days r" using 2 by simp
      then show ?thesis using run by (simp only:) blast
    qed
    ultimately show ?thesis using run k by (simp add: run_of_days_def)
  next
    case 3
    then have "streak_days (streaked t r) = 1" using assms(1) by (simp add: streaked_def)
    moreover have "?u - 1 \<notin> days" using 3 assms(3) by force
    moreover have "\<forall>i. 0 \<le> i \<and> i < 1 \<longrightarrow> i = (0 :: int)" by linarith
    ultimately show ?thesis by (auto simp: run_of_days_def)
  qed
qed

text \<open>
  C29. The login streak counts consecutive days: after logins at any times in order, the first of them
  ever, the streak is the length of the run of calendar days with a login that ends with the day of
  the last one, however many logins a day has; the balance is not touched.
\<close>

theorem streak_is_run_of_days:
  assumes "sorted ts" and "ts \<noteq> []" and "state_of db pid = Some r" and "last_login_date r = None"
  defines "db' \<equiv> fold (\<lambda>t d. snd (updateLoginStreak False t pid d)) ts db"
  shows "\<exists>r'. state_of db' pid = Some r' \<and> last_login_date r' = Some (utc_day (last ts)) \<and>
    run_of_days (utc_day ` set ts) (utc_day (last ts)) (streak_days r') \<and> enlightenment_pts r' = enlightenment_pts r"
  using assms(1,2) unfolding db'_def
proof (induction ts rule: rev_induct)
  case (snoc t ts)
  have keep: "s_player (streaked t r) = s_player r" for r by (simp add: streaked_def)
  let ?d = "fold (\<lambda>t d. snd (updateLoginStreak False t pid d)) ts db"
  have step: "state_of (snd (updateLoginStreak False t pid ?d)) pid = map_option (streaked t) (state_of ?d pid)"
    using state_of_set_state [OF keep, of pid ?d pid] by (simp add: updateLoginStreak_def)
  show ?case
  proof (cases "ts = []")
    case True
    have "state_of (snd (updateLoginStreak False t pid ?d)) pid = Some (streaked t r)"
      using step True assms(3) by simp
    moreover have "run_of_days {utc_day t} (utc_day t) 1" by (auto simp: run_of_days_def)
    ultimately show ?thesis using True assms(4) by (simp add: streaked_def)
  next
    case False
    obtain r0 where r0: "state_of ?d pid = Some r0" "last_login_date r0 = Some (utc_day (last ts))"
      "run_of_days (utc_day ` set ts) (utc_day (last ts)) (streak_days r0)" "enlightenment_pts r0 = enlightenment_pts r"
      using snoc False by (auto simp: sorted_append)
    have le: "\<forall>x \<in> set ts. x \<le> last ts"
      using snoc.prems(1) False by (metis append_butlast_last_id le_less_linear less_imp_le sorted_append in_set_conv_decomp
          UnE set_append list.set_intros(1) empty_iff empty_set set_ConsD order_refl sorted_wrt_append)
    then have "\<forall>x \<in> utc_day ` set ts. x \<le> utc_day (last ts)" using utc_day_mono by blast
    moreover have "utc_day (last ts) \<le> utc_day t"
      using snoc.prems(1) False by (intro utc_day_mono) (simp add: sorted_append)
    ultimately have "run_of_days (insert (utc_day t) (utc_day ` set ts)) (utc_day t) (streak_days (streaked t r0))"
      by (rule streaked_run [OF r0(2,3)])
    then show ?thesis using step r0 by (simp add: streaked_def)
  qed
qed simp

theorem streak_is_run_of_days_witness:
  "\<exists>r. state_of (fold (\<lambda>t d. snd (updateLoginStreak False t ''p'' d)) [0, 90000, 90001, 180000]
       (empty_db\<lparr>player_states := [new_state ''p'' 0]\<rparr>)) ''p'' = Some r \<and> run_of_days {0, 1, 2} 2 (streak_days r)"
proof -
  let ?db = "empty_db\<lparr>player_states := [new_state ''p'' 0]\<rparr>" and ?ts = "[0, 90000, 90001, 180000] :: int list"
  have "state_of ?db ''p'' = Some (new_state ''p'' 0)" "last_login_date (new_state ''p'' 0) = None"
    by (simp_all add: state_of_def new_state_def)
  then obtain r where r: "state_of (fold (\<lambda>t d. snd (updateLoginStreak False t ''p'' d)) ?ts ?db) ''p'' = Some r"
    and run: "run_of_days (utc_day ` set ?ts) (utc_day (last ?ts)) (streak_days r)"
    using streak_is_run_of_days [of ?ts ?db "''p''" "new_state ''p'' 0"] by auto
  have "utc_day ` set ?ts = {0, 1, 2}" "utc_day (last ?ts) = 2"
    by (simp_all add: utc_day_def)
  with r run show ?thesis by metis
qed

section \<open>What a login does to the store\<close>

lemma login_Inr:
  assumes "login ops h env clk streak steamID s db = (Inr resp, s', db')"
  obtains pid db1 where "prepare_player h env streak steamID db = (Inr pid, db1)"
    and "open_session ops clk pid (a_uuid env 1) (a_uuid env 2) s = (Inr (), s')"
    and "db' = set_state pid (anchored (a_sqlnow env 3)) db1"
    and "ar_RefreshToken resp = a_uuid env 2"
    and "NewToken (auth_sign h) (a_now env 1) pid (a_uuid env 1) = Some (ar_JWT resp, ar_ExpiresAt resp)"
  using assms that unfolding login_def
  by (auto simp: resetAccrualAnchor_def split: prod.splits sum.splits option.splits if_splits)

lemma login_Inl:
  assumes "login ops h env clk streak steamID s db = (Inl e, s', db')"
  shows "accrual_kept db db'"
proof -
  obtain r db1 where r: "prepare_player h env streak steamID db = (r, db1)" by fastforce
  have "db' = db1"
    using assms unfolding login_def r
    by (auto simp: resetAccrualAnchor_def split: prod.splits sum.splits option.splits if_splits)
  then show ?thesis using accrual_kept_prepare [of db h env streak steamID] r by simp
qed

context kv_reliable
begin

lemma open_session_run:
  assumes T: "\<And>i. clk i \<le> T" and jti: "plain jti" and r: "open_session ops clk pid jti tok s = (r, s')"
  shows "keeps view T ({lock_key pid, current_key pid, refresh_key pid, lookup_key tok} \<union> range session_key) s s'"
    and "r = Inr () \<Longrightarrow> T \<le> t \<Longrightarrow> t < clk 2 + sessionTTL \<Longrightarrow> view s' t (session_key jti) = Some ''1''"
    and "r = Inr () \<Longrightarrow> T \<le> t \<Longrightarrow> t < clk 3 + sessionTTL \<Longrightarrow> view s' t (current_key pid) = Some jti"
    and "r = Inr () \<Longrightarrow> T \<le> t \<Longrightarrow> t < clk 4 + refreshTTL \<Longrightarrow> view s' t (refresh_key pid) = Some tok"
    and "r = Inr () \<Longrightarrow> T \<le> t \<Longrightarrow> t < clk 5 + refreshTTL \<Longrightarrow> view s' t (lookup_key tok) = Some pid"
    and "r = Inr () \<Longrightarrow> clk 0 \<le> clk 1 \<Longrightarrow> view s (clk 1) (current_key pid) = Some old \<Longrightarrow> plain old \<Longrightarrow> old \<noteq> [] \<Longrightarrow>
      old \<noteq> jti \<Longrightarrow> T \<le> t \<Longrightarrow> view s' t (session_key old) = None"
proof -
  obtain r1 s1 where e: "enforceSingleSession ops clk pid jti s = (r1, s1)" by fastforce
  note E = enforceSingleSession_run [OF T jti e] and touch = enforceSingleSession_touches [OF T jti e]
  obtain s2 where s2: "storeRefreshToken ops (\<lambda>i. clk (4 + i)) pid tok s1 = (Inr (), s2)"
    "keeps view T {refresh_key pid, lookup_key tok} s1 s2"
    "\<And>t. T \<le> t \<Longrightarrow> t < clk 4 + refreshTTL \<Longrightarrow> view s2 t (refresh_key pid) = Some tok"
    "\<And>t. T \<le> t \<Longrightarrow> t < clk 5 + refreshTTL \<Longrightarrow> view s2 t (lookup_key tok) = Some pid"
    using storeRefreshToken_run [where clk = "\<lambda>i. clk (4 + i)" and T = T and pid = pid and tok = tok and s = s1] T
    by (metis (no_types, lifting) add.right_neutral add_numeral_special(2) numeral_plus_one semiring_norm(5) semiring_norm(2))
  have run: "(r, s') = (case r1 of Inl d \<Rightarrow> (Inl (SessionFailed d), s1) | Inr _ \<Rightarrow> (Inr (), s2))"
    using r by (simp add: open_session_def e s2(1) split: sum.splits)
  have won: "r1 = Inr () \<and> s' = s2" if "r = Inr ()" using run that by (simp split: sum.splits)
  have "keeps view T ({lock_key pid, current_key pid, refresh_key pid, lookup_key tok} \<union> range session_key) s s2"
    by (rule keeps_trans [OF touch s2(2)]) auto
  moreover have "keeps view T ({lock_key pid, current_key pid, refresh_key pid, lookup_key tok} \<union> range session_key) s s1"
    by (rule keeps_mono [OF touch]) auto
  moreover have "s' = s1 \<or> s' = s2" using run by (simp split: sum.splits)
  ultimately show "keeps view T ({lock_key pid, current_key pid, refresh_key pid, lookup_key tok} \<union> range session_key) s s'" by blast
  have same: "view s2 t k = view s1 t k" if "T \<le> t" "k \<noteq> refresh_key pid" "k \<noteq> lookup_key tok" for t k
    using keepsD [OF s2(2) that(1)] that by simp
  show "view s' t (session_key jti) = Some ''1''" if "r = Inr ()" "T \<le> t" "t < clk 2 + sessionTTL"
    using won [OF that(1)] same [OF that(2)] E(4) that by (simp add: key_simps)
  show "view s' t (current_key pid) = Some jti" if "r = Inr ()" "T \<le> t" "t < clk 3 + sessionTTL"
    using won [OF that(1)] same [OF that(2)] E(5) that by (simp add: key_simps)
  show "view s' t (refresh_key pid) = Some tok" if "r = Inr ()" "T \<le> t" "t < clk 4 + refreshTTL"
    using won [OF that(1)] s2(3) that by simp
  show "view s' t (lookup_key tok) = Some pid" if "r = Inr ()" "T \<le> t" "t < clk 5 + refreshTTL"
    using won [OF that(1)] s2(4) that by simp
  show "view s' t (session_key old) = None" if "r = Inr ()" "clk 0 \<le> clk 1"
    "view s (clk 1) (current_key pid) = Some old" "plain old" "old \<noteq> []" "old \<noteq> jti" "T \<le> t"
    using won [OF that(1)] same [OF that(7)] E(7) that by (simp add: key_simps)
qed

lemma login_keeps_tickets:
  assumes T: "\<And>i. clk i \<le> T" and jti: "plain (a_uuid env 1)"
    and r: "login ops h env clk streak steamID s db = (r, s', db')" and t: "T \<le> t"
  shows "view s' t (ticket_key x) = view s t (ticket_key x)"
proof -
  have "s' = s \<or> (\<exists>pid q. open_session ops clk pid (a_uuid env 1) (a_uuid env 2) s = (q, s'))"
    using r unfolding login_def by (auto split: prod.splits sum.splits option.splits)
  then show ?thesis
  proof
    assume "\<exists>pid q. open_session ops clk pid (a_uuid env 1) (a_uuid env 2) s = (q, s')"
    then obtain pid q where o: "open_session ops clk pid (a_uuid env 1) (a_uuid env 2) s = (q, s')" by blast
    have "ticket_key x \<notin> {lock_key pid, current_key pid, refresh_key pid, lookup_key (a_uuid env 2)} \<union> range session_key"
      by (auto simp: key_simps)
    with open_session_run(1) [OF T jti o] t show ?thesis by (rule keepsD)
  qed simp
qed

end

section \<open>The Steam route\<close>

lemma login_answers_reject [simp]:
  "steam_login_answer e \<noteq> OK x" "dev_login_answer e \<noteq> OK x"
  by (cases e; simp add: session_answer_def split: session_error.split)
    (cases e rule: dev_login_answer.cases; simp)

lemma AuthSteam_OK:
  assumes "AuthSteam ops h hash steam env body s db = (OK resp, s', db')"
  obtains ticket steamID s1 where "body = Some ticket" and "ticket \<noteq> []"
    and "claimTicket ops (a_kv env 0) (hash ticket) s = (Inr True, s1)" and "steam ticket = Inr steamID"
    and "login ops h env (\<lambda>i. a_kv env (1 + i)) True steamID s1 db = (Inr resp, s', db')"
  using assms that unfolding AuthSteam_def
  by (auto split: option.splits if_splits prod.splits sum.splits)


section \<open>Demonstration\<close>

definition demo_auth :: auth_handler where
  "demo_auth = \<lparr>auth_cairn = demo_cairn, auth_sign = (\<lambda>c. Some (cl_ID c))\<rparr>"

definition demo_auth_env :: "int \<Rightarrow> string \<Rightarrow> auth_env" where
  "demo_auth_env t x = \<lparr>a_sqlnow = (\<lambda>_. t), a_now = (\<lambda>_. of_unix t), a_kv = (\<lambda>_. of_unix t), a_fault = (\<lambda>_. False),
     a_slot_fault = (\<lambda>_. False), a_uuid = (\<lambda>k. [CHR ''P'', CHR ''J'', CHR ''R''] ! k # x)\<rparr>"

definition demo_login :: "int \<Rightarrow> string \<Rightarrow> mem_store \<Rightarrow> database \<Rightarrow> auth_response answer \<times> mem_store \<times> database" where
  "demo_login t x = AuthSteam mem_ops demo_auth (\<lambda>s. s) mock_AuthenticateTicket (demo_auth_env t x) (Some ''steam-7'')"

lemma demo_login_ok:
  obtains s db where "demo_login 1000 ''1'' NewMemStore empty_db = (OK \<lparr>ar_JWT = ''J1'', ar_RefreshToken = ''R1'', ar_ExpiresAt = of_unix 87400\<rparr>, s, db)"
proof -
  have "fst (demo_login 1000 ''1'' NewMemStore empty_db) = OK \<lparr>ar_JWT = ''J1'', ar_RefreshToken = ''R1'', ar_ExpiresAt = of_unix 87400\<rparr>"
    by code_simp
  then show thesis using that by (cases "demo_login 1000 ''1'' NewMemStore empty_db") auto
qed


text \<open>
  C30. A Steam ticket is good for one login: within an hour of a confirmed login a request with the
  same ticket (or one of the same hash) is refused as used, before Steam is asked, and changes
  neither the data base nor what the store shows.
\<close>

theorem ticket_single_use:
  assumes "AuthSteam mem_ops h hash steam env (Some ticket) s db = (OK resp, s1, db1)" and "plain (a_uuid env 1)"
    and "\<forall>i. a_kv env i \<le> T" and "T \<le> a_kv env2 0" and "a_kv env2 0 < a_kv env 0 + ticketTTL"
    and "hash ticket2 = hash ticket" and "ticket2 \<noteq> []"
  shows "\<exists>s2. AuthSteam mem_ops h2 hash steam2 env2 (Some ticket2) s1 db1 = (Reject 409 ''TICKET_USED'', s2, db1) \<and>
    (\<forall>t k. a_kv env2 0 \<le> t \<longrightarrow> mem_view s2 t k = mem_view s1 t k)"
  using assms(1)
proof (rule AuthSteam_OK)
  fix tk steamID s0
  assume tk: "Some ticket = Some tk" and claim: "claimTicket mem_ops (a_kv env 0) (hash tk) s = (Inr True, s0)"
    and login: "login mem_ops h env (\<lambda>i. a_kv env (1 + i)) True steamID s0 db = (Inr resp, s1, db1)"
  let ?k = "ticket_key (hash ticket)" and ?t2 = "a_kv env2 0"
  have T: "a_kv env i \<le> T" for i using assms(3) by blast
  have "mem_view s0 ?t2 ?k = Some ''1''"
    using mem.setnx_live [OF claim [unfolded claimTicket_def]] T [of 0] assms(4,5) tk by simp
  then have "mem_view s1 ?t2 ?k = Some ''1''"
    using mem.login_keeps_tickets [OF T assms(2) login assms(4)] by simp
  then have live: "mem_view s1 ?t2 ?k \<noteq> None" by simp
  obtain s2 where s2: "kv_setnx mem_ops ?t2 ?k ''1'' ticketTTL s1 = (Inr (mem_view s1 ?t2 ?k = None), s2)"
    "keeps mem_view ?t2 {} s1 s2"
    by (rule mem.setnx_run [of ?t2 ?k "''1''" ticketTTL s1]) (use live in blast)
  then have "claimTicket mem_ops ?t2 (hash ticket2) s1 = (Inr False, s2)" using live assms(6) by (simp add: claimTicket_def)
  then show ?thesis using assms(7) s2(2) by (simp add: AuthSteam_def keeps_def)
qed

theorem ticket_single_use_witness:
  "\<exists>s db. fst (demo_login 2000 ''2'' s db) = Reject 409 ''TICKET_USED''"
proof -
  obtain s db where d: "demo_login 1000 ''1'' NewMemStore empty_db = (OK \<lparr>ar_JWT = ''J1'', ar_RefreshToken = ''R1'', ar_ExpiresAt = of_unix 87400\<rparr>, s, db)"
    by (rule demo_login_ok)
  have "plain (a_uuid (demo_auth_env 1000 ''1'') 1)" by (simp add: plain_def demo_auth_env_def)
  then have "\<exists>s2. demo_login 2000 ''2'' s db = (Reject 409 ''TICKET_USED'', s2, db) \<and>
      (\<forall>t k. a_kv (demo_auth_env 2000 ''2'') 0 \<le> t \<longrightarrow> mem_view s2 t k = mem_view s t k)"
    unfolding demo_login_def
    by (rule ticket_single_use [OF d [unfolded demo_login_def], where T = "of_unix 1000"])
      (simp_all add: demo_auth_env_def of_unix_def ttl_defs)
  then obtain s2 where "demo_login 2000 ''2'' s db = (Reject 409 ''TICKET_USED'', s2, db)" by blast
  then show ?thesis by (intro exI [of _ s] exI [of _ db]) simp
qed

text \<open>
  C31. A Steam login that is refused costs nothing: whatever went wrong and wherever, every state row
  that exists keeps its balance, its rate and its accrual and cooldown anchors, every slot and the
  inventory are as before (rows may have been created), and unless the ticket was already used
  before, it can be used again.
\<close>

theorem rejected_login_costs_nothing:
  assumes "AuthSteam mem_ops h hash steam env (Some ticket) s db = (Reject status code, s1, db1)"
  shows "accrual_kept db db1 \<and>
    (ticket \<noteq> [] \<and> code \<noteq> ''TICKET_USED'' \<longrightarrow> (\<forall>t. mem_view s1 t (ticket_key (hash ticket)) = None))"
proof (cases "ticket = []")
  case True
  then show ?thesis using assms accrual_kept_refl by (auto simp: AuthSteam_def)
next
  case False
  obtain b s0 where c: "claimTicket mem_ops (a_kv env 0) (hash ticket) s = (Inr b, s0)"
    using mem.setnx_total [of "a_kv env 0" "ticket_key (hash ticket)" "''1''" ticketTTL s]
    unfolding claimTicket_def by (metis prod.collapse)
  have free: "mem_view (releaseTicket mem_ops x u) t (ticket_key x) = None" for x u t
    using mem.del_view [of "[ticket_key x]" u t "ticket_key x"] by (simp add: releaseTicket_def)
  show ?thesis
  proof (cases b)
    case True
    show ?thesis
    proof (cases "steam ticket")
      case (Inl e)
      then have "db1 = db" "s1 = releaseTicket mem_ops (hash ticket) s0"
        using assms False c True unfolding AuthSteam_def by auto
      then show ?thesis using free accrual_kept_refl by simp
    next
      case (Inr steamID)
      obtain r s2 db2 where l: "login mem_ops h env (\<lambda>i. a_kv env (1 + i)) True steamID s0 db = (r, s2, db2)"
        using prod_cases3 by blast
      then obtain e where "r = Inl e" using assms False c True Inr unfolding AuthSteam_def by (cases r) auto
      moreover then have "db1 = db2" "s1 = releaseTicket mem_ops (hash ticket) s2"
        using assms False c True Inr l unfolding AuthSteam_def by auto
      ultimately show ?thesis using free login_Inl l by simp
    qed
  qed (use assms False c accrual_kept_refl in \<open>auto simp: AuthSteam_def\<close>)
qed

theorem rejected_login_costs_nothing_witness:
  "\<exists>s. AuthSteam mem_ops demo_auth (\<lambda>s. s) mock_AuthenticateTicket (demo_auth_env 1000 ''1'') (Some ''invalid_ticket'') NewMemStore demo_db =
     (Reject 401 ''INVALID_TICKET'', s, demo_db) \<and> mem_view s (of_unix 1000) (ticket_key ''invalid_ticket'') = None"
proof -
  let ?r = "AuthSteam mem_ops demo_auth (\<lambda>s. s) mock_AuthenticateTicket (demo_auth_env 1000 ''1'') (Some ''invalid_ticket'') NewMemStore demo_db"
  obtain s0 where "claimTicket mem_ops (a_kv (demo_auth_env 1000 ''1'') 0) ''invalid_ticket'' NewMemStore = (Inr True, s0)"
    by (simp add: claimTicket_def MemStore_SetNX_def getEntry_def NewMemStore_def)
  then obtain s where r: "?r = (Reject 401 ''INVALID_TICKET'', s, demo_db)"
    by (simp add: AuthSteam_def mock_AuthenticateTicket_def is_invalid_ticket_def split: prod.splits)
  from rejected_login_costs_nothing [OF r] r show ?thesis by auto
qed

section \<open>The refresh route\<close>

context kv_reliable
begin

text \<open>The critical section: it answers OK only when no cooldown runs and the stored token is the given one.\<close>

lemma refresh_locked_OK:
  assumes T: "\<And>i. a_kv env i \<le> T" and mono: "mono (a_kv env)" and jti: "plain (a_uuid env 0)"
    and run: "refresh_locked ops h env pid tok s = (OK resp, s')"
  shows "view s (a_kv env 3) (refresh_key pid) = Some tok" and "view s (a_kv env 2) (refresh_cooldown_key pid) = None"
    and "ar_RefreshToken resp = a_uuid env 1"
    and "T \<le> t \<Longrightarrow> t < a_kv env 9 + refreshTTL \<Longrightarrow> view s' t (refresh_key pid) = Some (a_uuid env 1)"
    and "tok \<noteq> a_uuid env 1 \<Longrightarrow> T \<le> t \<Longrightarrow> t < a_kv env 10 + refreshTTL \<Longrightarrow> view s' t (lookup_key (a_uuid env 1)) = Some pid"
    and "view s' t (lookup_key tok) = None"
    and "T \<le> t \<Longrightarrow> t < a_kv env 6 + sessionTTL \<Longrightarrow> view s' t (session_key (a_uuid env 0)) = Some ''1''"
    and "T \<le> t \<Longrightarrow> t < a_kv env 7 + sessionTTL \<Longrightarrow> view s' t (current_key pid) = Some (a_uuid env 0)"
    and "view s (a_kv env 5) (current_key pid) = Some old \<Longrightarrow> plain old \<Longrightarrow> old \<noteq> [] \<Longrightarrow> old \<noteq> a_uuid env 0 \<Longrightarrow>
      T \<le> t \<Longrightarrow> view s' t (session_key old) = None"
proof -
  let ?new = "a_uuid env 1" and ?jti = "a_uuid env 0" and ?eclk = "\<lambda>i. a_kv env (4 + i)" and ?rclk = "\<lambda>i. a_kv env (9 + i)"
  have le: "a_kv env i \<le> a_kv env j" if "i \<le> j" for i j using mono that by (rule monoD)
  obtain s1 where s1: "kv_get ops (a_kv env 2) (refresh_cooldown_key pid) s =
      (case view s (a_kv env 2) (refresh_cooldown_key pid) of None \<Rightarrow> Inl NotFound | Some v \<Rightarrow> Inr v, s1)" "keeps view (a_kv env 2) {} s s1"
    by (rule get_run [where t = "a_kv env 2" and k = "refresh_cooldown_key pid" and s = s]) (rule that; assumption)
  obtain s2 where s2: "kv_get ops (a_kv env 3) (refresh_key pid) s1 =
      (case view s1 (a_kv env 3) (refresh_key pid) of None \<Rightarrow> Inl NotFound | Some v \<Rightarrow> Inr v, s2)" "keeps view (a_kv env 3) {} s1 s2"
    by (rule get_run [where t = "a_kv env 3" and k = "refresh_key pid" and s = s1]) (rule that; assumption)
  obtain e s3 where e: "enforceSingleSession ops ?eclk pid ?jti s2 = (e, s3)" by fastforce
  have ET: "\<And>i. ?eclk i \<le> T" using T by simp
  note E = enforceSingleSession_run [OF ET jti e] and touch = enforceSingleSession_touches [OF ET jti e]
  obtain s4 where s4: "setRefreshCooldown ops (a_kv env 8) pid s3 = (Inr (), s4)" "keeps view (a_kv env 8) {refresh_cooldown_key pid} s3 s4"
    unfolding setRefreshCooldown_def by (rule set_run [of "a_kv env 8" "refresh_cooldown_key pid" "''1''" refreshCooldownTTL s3]) blast
  have RT: "\<And>i. ?rclk i \<le> T" using T by simp
  obtain s5 where s5: "storeRefreshToken ops ?rclk pid ?new s4 = (Inr (), s5)" "keeps view T {refresh_key pid, lookup_key ?new} s4 s5"
    "\<And>t. T \<le> t \<Longrightarrow> t < ?rclk 0 + refreshTTL \<Longrightarrow> view s5 t (refresh_key pid) = Some ?new"
    "\<And>t. T \<le> t \<Longrightarrow> t < ?rclk 1 + refreshTTL \<Longrightarrow> view s5 t (lookup_key ?new) = Some pid"
    by (rule storeRefreshToken_run [OF RT, where pid = pid and tok = ?new and s = s4]) (rule that; assumption)
  have cool: "isRefreshCoolingDown ops (a_kv env 2) pid s = (Inr (view s (a_kv env 2) (refresh_cooldown_key pid) \<noteq> None), s1)"
    unfolding isRefreshCoolingDown_def s1(1) by (cases "view s (a_kv env 2) (refresh_cooldown_key pid)") simp_all
  show c: "view s (a_kv env 2) (refresh_cooldown_key pid) = None"
    using run unfolding refresh_locked_def cool by (auto split: if_splits)
  have stored: "getStoredRefreshToken ops (a_kv env 3) pid s1 =
      (case view s1 (a_kv env 3) (refresh_key pid) of None \<Rightarrow> Inl NotFound | Some v \<Rightarrow> Inr v, s2)"
    unfolding getStoredRefreshToken_def by (rule s2(1))
  have tok1: "view s1 (a_kv env 3) (refresh_key pid) = Some tok"
    using run unfolding refresh_locked_def cool prod.case sum.case stored c
    by (cases "view s1 (a_kv env 3) (refresh_key pid)") (auto split: if_splits)
  then show "view s (a_kv env 3) (refresh_key pid) = Some tok" using keepsD [OF s1(2) le] by simp
  obtain jwt expAt where jwt: "NewToken (auth_sign h) (a_now env 0) pid ?jti = Some (jwt, expAt)"
    using run unfolding refresh_locked_def cool prod.case sum.case stored c tok1 by (auto split: option.splits)
  have eOK: "e = Inr ()"
    using run unfolding refresh_locked_def cool prod.case sum.case stored c tok1 by (cases e) (auto simp: jwt e session_answer_def split: session_error.splits)
  have fin: "resp = \<lparr>ar_JWT = jwt, ar_RefreshToken = ?new, ar_ExpiresAt = expAt\<rparr>" "s' = snd (kv_del ops [lookup_key tok] s5)"
    using run unfolding refresh_locked_def cool prod.case sum.case stored c tok1 option.case jwt e eOK s4(1) snd_conv Let_def s5(1) invalidateRefreshLookup_def
    by simp_all
  show "ar_RefreshToken resp = ?new" using fin(1) by simp
  have last: "view s' t k = (if k = lookup_key tok then None else view s5 t k)" for t k using fin(2) del_view by simp
  have mid: "view s5 t k = view s3 t k" if "T \<le> t" "k \<noteq> refresh_key pid" "k \<noteq> lookup_key ?new" "k \<noteq> refresh_cooldown_key pid" for t k
    using keepsD [OF s5(2) that(1)] keepsD [OF s4(2)] T [of 8] that by simp
  show "view s' t (lookup_key tok) = None" using last by simp
  show "view s' t (refresh_key pid) = Some ?new" if "T \<le> t" "t < a_kv env 9 + refreshTTL"
    using last s5(3) [OF that(1)] that(2) by (simp add: key_simps)
  show "view s' t (lookup_key ?new) = Some pid" if "tok \<noteq> ?new" "T \<le> t" "t < a_kv env 10 + refreshTTL"
    using last s5(4) [OF that(2)] that by (simp add: key_simps)
  show "view s' t (session_key ?jti) = Some ''1''" if "T \<le> t" "t < a_kv env 6 + sessionTTL"
    using last mid E(4) [OF eOK that(1)] that jti by (simp add: key_simps)
  show "view s' t (current_key pid) = Some ?jti" if "T \<le> t" "t < a_kv env 7 + sessionTTL"
    using last mid E(5) [OF eOK that(1)] that by (simp add: key_simps)
  show "view s' t (session_key old) = None" if old: "view s (a_kv env 5) (current_key pid) = Some old" "plain old" "old \<noteq> []"
    "old \<noteq> ?jti" "T \<le> t"
  proof -
    have "view s2 (a_kv env 5) (current_key pid) = Some old"
      using old(1) keepsD [OF s1(2) le] keepsD [OF s2(2) le] by simp
    then show ?thesis
      using E(7) [OF eOK _ _ old(2,3,4,5)] last mid [OF old(5)] le [of 4 5] by (simp add: key_simps)
  qed
qed

lemma AuthRefresh_OK:
  assumes T: "\<And>i. a_kv env i \<le> T" and mono: "mono (a_kv env)" and jti: "plain (a_uuid env 0)"
    and run: "AuthRefresh ops h env (Some tok) s = (OK resp, s')"
  obtains pid s2 s3 where "view s (a_kv env 0) (lookup_key tok) = Some pid" "tok \<noteq> []"
    and "keeps view T {refresh_lock_key pid} s s2" "keeps view (a_kv env 1) {refresh_lock_key pid} s s2"
    and "refresh_locked ops h env pid tok s2 = (OK resp, s3)" "s' = releaseRefreshLock ops pid s3"
proof -
  have le: "a_kv env i \<le> a_kv env j" if "i \<le> j" for i j using mono that by (rule monoD)
  obtain s1 where s1: "kv_get ops (a_kv env 0) (lookup_key tok) s =
      (case view s (a_kv env 0) (lookup_key tok) of None \<Rightarrow> Inl NotFound | Some v \<Rightarrow> Inr v, s1)" "keeps view (a_kv env 0) {} s s1"
    by (rule get_run [where t = "a_kv env 0" and k = "lookup_key tok" and s = s]) (rule that; assumption)
  have ne: "tok \<noteq> []" using run unfolding AuthRefresh_def by (auto split: if_splits)
  have look: "lookupRefreshToken ops (a_kv env 0) tok s =
      (case view s (a_kv env 0) (lookup_key tok) of None \<Rightarrow> Inl NotFound | Some v \<Rightarrow> Inr v, s1)"
    unfolding lookupRefreshToken_def by (rule s1(1))
  obtain pid where pid: "view s (a_kv env 0) (lookup_key tok) = Some pid"
    using run ne unfolding AuthRefresh_def option.case look by (cases "view s (a_kv env 0) (lookup_key tok)") auto
  obtain s2 where s2: "kv_setnx ops (a_kv env 1) (refresh_lock_key pid) ''1'' refreshLockTTL s1 =
      (Inr (view s1 (a_kv env 1) (refresh_lock_key pid) = None), s2)" "keeps view (a_kv env 1) {refresh_lock_key pid} s1 s2"
    by (rule setnx_run [of "a_kv env 1" "refresh_lock_key pid" "''1''" refreshLockTTL s1]) blast
  have acq: "acquireRefreshLock ops (a_kv env 1) pid s1 = (Inr (view s1 (a_kv env 1) (refresh_lock_key pid) = None), s2)"
    unfolding acquireRefreshLock_def by (rule s2(1))
  obtain a s3 where l: "refresh_locked ops h env pid tok s2 = (a, s3)" by fastforce
  have k1: "keeps view (a_kv env 1) {refresh_lock_key pid} s s2"
    by (rule keeps_trans [OF s1(2) s2(2) le order_refl]) simp_all
  have "a = OK resp \<and> s' = releaseRefreshLock ops pid s3"
    using run ne unfolding AuthRefresh_def option.case look pid prod.case sum.case acq by (auto simp: l split: if_splits)
  then show thesis using that [OF pid ne keeps_mono [OF k1 T] k1] l by simp
qed

end

lemma releaseRefreshLock_view: "mem_view (releaseRefreshLock mem_ops pid s) t k = (if k = refresh_lock_key pid then None else mem_view s t k)"
  using mem.del_view [of "[refresh_lock_key pid]" s t k] by (simp add: releaseRefreshLock_def)

lemma AuthRefresh_unknown:
  assumes "mem_view s (a_kv env 0) (lookup_key tok) = None" and "tok \<noteq> []"
  shows "\<exists>s'. AuthRefresh mem_ops h env (Some tok) s = (Reject 401 ''INVALID_REFRESH_TOKEN'', s')"
proof -
  obtain s1 where "kv_get mem_ops (a_kv env 0) (lookup_key tok) s = (Inl NotFound, s1)"
    using mem.get_run [where t = "a_kv env 0" and k = "lookup_key tok" and s = s] assms(1) by auto
  then show ?thesis using assms(2) by (simp add: AuthRefresh_def lookupRefreshToken_def)
qed

text \<open>
  C7. A refresh rotates the token: it is granted only to the token that is stored for its player;
  afterwards the new token is the stored one and leads to the player, the new session is live and
  the one it replaces is gone, and the old token is refused as unknown, whenever it is presented
  again.
\<close>

theorem refresh_rotates_token:
  assumes "AuthRefresh mem_ops h env (Some tok) s = (OK resp, s1)" and "mono (a_kv env)" and "\<forall>i. a_kv env i \<le> T"
    and "plain (a_uuid env 0)" and "a_uuid env 1 \<noteq> tok" and "T < a_kv env 0 + sessionTTL"
  shows "\<exists>pid. mem_view s (a_kv env 0) (lookup_key tok) = Some pid \<and> mem_view s (a_kv env 3) (refresh_key pid) = Some tok \<and>
    mem_view s1 T (refresh_key pid) = Some (ar_RefreshToken resp) \<and>
    mem_view s1 T (lookup_key (ar_RefreshToken resp)) = Some pid \<and>
    mem_view s1 T (session_key (a_uuid env 0)) \<noteq> None \<and> mem_view s1 T (current_key pid) = Some (a_uuid env 0) \<and>
    (\<forall>old. mem_view s (a_kv env 5) (current_key pid) = Some old \<and> plain old \<and> old \<noteq> [] \<and> old \<noteq> a_uuid env 0 \<longrightarrow>
       mem_view s1 T (session_key old) = None) \<and>
    (\<forall>h2 env2. \<exists>s2. AuthRefresh mem_ops h2 env2 (Some tok) s1 = (Reject 401 ''INVALID_REFRESH_TOKEN'', s2))"
proof -
  have T: "a_kv env i \<le> T" for i using assms(3) by blast
  have le: "a_kv env i \<le> a_kv env j" if "i \<le> j" for i j using assms(2) that by (rule monoD)
  obtain pid s2 s3 where pid: "mem_view s (a_kv env 0) (lookup_key tok) = Some pid" "tok \<noteq> []"
    and k: "keeps mem_view T {refresh_lock_key pid} s s2" "keeps mem_view (a_kv env 1) {refresh_lock_key pid} s s2"
    and run: "refresh_locked mem_ops h env pid tok s2 = (OK resp, s3)" "s1 = releaseRefreshLock mem_ops pid s3"
    by (rule mem.AuthRefresh_OK [OF T assms(2,4,1)]) (rule that; assumption)
  note R = mem.refresh_locked_OK [OF T assms(2,4) run(1)]
  have long: "T < a_kv env i + sessionTTL" "T < a_kv env i + refreshTTL" for i
    using assms(6) le [of 0 i] by (simp_all add: ttl_defs)
  have early: "mem_view s2 (a_kv env i) q = mem_view s (a_kv env i) q" if "1 \<le> i" "q \<noteq> refresh_lock_key pid" for i q
    using keepsD [OF k(2) le [OF that(1)]] that(2) by simp
  have "mem_view s1 t (lookup_key tok) = None" for t using R(6) by (simp add: run(2) releaseRefreshLock_view)
  then have again: "\<exists>s2. AuthRefresh mem_ops h2 env2 (Some tok) s1 = (Reject 401 ''INVALID_REFRESH_TOKEN'', s2)" for h2 env2
    by (rule AuthRefresh_unknown) (rule pid(2))
  show ?thesis
  proof (intro exI [of _ pid] conjI allI impI)
    show "mem_view s (a_kv env 3) (refresh_key pid) = Some tok" using R(1) early [of 3] by (simp add: key_simps)
    show "mem_view s1 T (refresh_key pid) = Some (ar_RefreshToken resp)"
      using R(3,4) long by (simp add: run(2) releaseRefreshLock_view key_simps)
    show "mem_view s1 T (lookup_key (ar_RefreshToken resp)) = Some pid"
      using R(3,5) long assms(5) by (simp add: run(2) releaseRefreshLock_view key_simps)
    show "mem_view s1 T (session_key (a_uuid env 0)) \<noteq> None"
      using R(7) long by (simp add: run(2) releaseRefreshLock_view key_simps)
    show "mem_view s1 T (current_key pid) = Some (a_uuid env 0)"
      using R(8) long by (simp add: run(2) releaseRefreshLock_view key_simps)
    show "mem_view s1 T (session_key old) = None"
      if "mem_view s (a_kv env 5) (current_key pid) = Some old \<and> plain old \<and> old \<noteq> [] \<and> old \<noteq> a_uuid env 0" for old
      using R(9) that early [of 5] by (simp add: run(2) releaseRefreshLock_view key_simps)
  qed (use pid again in auto)
qed

definition demo_refresh :: "int \<Rightarrow> string \<Rightarrow> mem_store \<Rightarrow> auth_response answer \<times> mem_store" where
  "demo_refresh t tok = AuthRefresh mem_ops demo_auth (demo_auth_env t ''2'') (Some tok)"

definition demo_token_store :: mem_store where
  "demo_token_store = snd (MemStore_Set 0 (lookup_key ''R1'') ''P1'' refreshTTL
     (snd (MemStore_Set 0 (refresh_key ''P1'') ''R1'' refreshTTL NewMemStore)))"

lemma demo_refresh_ok:
  obtains s where "demo_refresh 2000 ''R1'' demo_token_store = (OK \<lparr>ar_JWT = ''P2'', ar_RefreshToken = ''J2'', ar_ExpiresAt = of_unix 88400\<rparr>, s)"
proof -
  have "fst (demo_refresh 2000 ''R1'' demo_token_store) = OK \<lparr>ar_JWT = ''P2'', ar_RefreshToken = ''J2'', ar_ExpiresAt = of_unix 88400\<rparr>"
    by code_simp
  then show thesis using that by (cases "demo_refresh 2000 ''R1'' demo_token_store") auto
qed

theorem refresh_rotates_token_witness:
  "\<exists>resp s1 s2. demo_refresh 2000 ''R1'' demo_token_store = (OK resp, s1) \<and>
     demo_refresh 2001 ''R1'' s1 = (Reject 401 ''INVALID_REFRESH_TOKEN'', s2)"
proof -
  obtain s1 where d: "demo_refresh 2000 ''R1'' demo_token_store = (OK \<lparr>ar_JWT = ''P2'', ar_RefreshToken = ''J2'', ar_ExpiresAt = of_unix 88400\<rparr>, s1)"
    by (rule demo_refresh_ok)
  let ?env = "demo_auth_env 2000 ''2''"
  have "mono (a_kv ?env)" "\<forall>i. a_kv ?env i \<le> of_unix 2000" "plain (a_uuid ?env 0)" "a_uuid ?env 1 \<noteq> ''R1''"
    "of_unix 2000 < a_kv ?env 0 + sessionTTL"
    by (simp_all add: demo_auth_env_def mono_def plain_def of_unix_def ttl_defs)
  from refresh_rotates_token [OF d [unfolded demo_refresh_def] this]
  obtain s2 where "AuthRefresh mem_ops demo_auth (demo_auth_env 2001 ''2'') (Some ''R1'') s1 = (Reject 401 ''INVALID_REFRESH_TOKEN'', s2)"
    by blast
  with d show ?thesis unfolding demo_refresh_def by blast
qed

text \<open>
  C32. A login evicts: after a confirmed Steam login the new session is the live and current one, the
  session that was current before is dead, and every other refresh token of the player is refused
  from then on, as long as the new one lives.
\<close>

theorem login_evicts_previous_session:
  assumes "AuthSteam mem_ops h hash steam env body s db = (OK resp, s1, db1)" and "mono (a_kv env)" and "\<forall>i. a_kv env i \<le> T"
    and "plain (a_uuid env 1)" and "T < a_kv env 0 + sessionTTL"
  shows "\<exists>pid. NewToken (auth_sign h) (a_now env 1) pid (a_uuid env 1) = Some (ar_JWT resp, ar_ExpiresAt resp) \<and>
    mem_view s1 T (session_key (a_uuid env 1)) \<noteq> None \<and> mem_view s1 T (current_key pid) = Some (a_uuid env 1) \<and>
    (\<forall>old. mem_view s (a_kv env 2) (current_key pid) = Some old \<and> plain old \<and> old \<noteq> [] \<and> old \<noteq> a_uuid env 1 \<longrightarrow>
       mem_view s1 T (session_key old) = None) \<and>
    (\<forall>h2 env2 T2 tok resp2 s2. mono (a_kv env2) \<and> (\<forall>i. a_kv env2 i \<le> T2) \<and> T \<le> a_kv env2 0 \<and> T2 < a_kv env 0 + refreshTTL \<and>
       plain (a_uuid env2 0) \<and> mem_view s1 (a_kv env2 0) (lookup_key tok) = Some pid \<and> tok \<noteq> ar_RefreshToken resp \<longrightarrow>
       AuthRefresh mem_ops h2 env2 (Some tok) s1 \<noteq> (OK resp2, s2))"
  using assms(1)
proof (rule AuthSteam_OK)
  fix ticket steamID s0
  assume claim: "claimTicket mem_ops (a_kv env 0) (hash ticket) s = (Inr True, s0)"
    and l: "login mem_ops h env (\<lambda>i. a_kv env (1 + i)) True steamID s0 db = (Inr resp, s1, db1)"
  let ?clk = "\<lambda>i. a_kv env (1 + i)"
  have le: "a_kv env i \<le> a_kv env j" if "i \<le> j" for i j using assms(2) that by (rule monoD)
  have T: "?clk i \<le> T" for i using assms(3) by blast
  obtain pid db0 where o: "open_session mem_ops ?clk pid (a_uuid env 1) (a_uuid env 2) s0 = (Inr (), s1)"
    and tok: "ar_RefreshToken resp = a_uuid env 2"
    and jwt: "NewToken (auth_sign h) (a_now env 1) pid (a_uuid env 1) = Some (ar_JWT resp, ar_ExpiresAt resp)"
    by (rule login_Inr [OF l]) (rule that; assumption)
  note O = mem.open_session_run [OF T assms(4) o]
  have long: "T < ?clk i + sessionTTL" "T < ?clk i + refreshTTL" "a_kv env 0 + refreshTTL \<le> ?clk i + refreshTTL" for i
    using assms(5) le [of 0 "1 + i"] by (simp_all add: ttl_defs)
  have kept: "mem_view s0 (a_kv env 2) (current_key pid) = mem_view s (a_kv env 2) (current_key pid)"
  proof -
    have "current_key pid \<noteq> ticket_key (hash ticket)" by (simp add: key_simps)
    then show ?thesis
      using mem.setnx_frame [OF claim [unfolded claimTicket_def] le [of 0 2]] by simp
  qed
  have refused: "AuthRefresh mem_ops h2 env2 (Some tok2) s1 \<noteq> (OK resp2, s2)"
    if m: "mono (a_kv env2)" and T2: "\<forall>i. a_kv env2 i \<le> T2" "T \<le> a_kv env2 0" "T2 < a_kv env 0 + refreshTTL"
      and u: "plain (a_uuid env2 0)" "mem_view s1 (a_kv env2 0) (lookup_key tok2) = Some pid" "tok2 \<noteq> ar_RefreshToken resp"
    for h2 env2 T2 tok2 resp2 s2
  proof
    assume run: "AuthRefresh mem_ops h2 env2 (Some tok2) s1 = (OK resp2, s2)"
    have b: "a_kv env2 i \<le> T2" for i using T2(1) by blast
    have le2: "a_kv env2 i \<le> a_kv env2 j" if "i \<le> j" for i j using m that by (rule monoD)
    obtain q s3 s4 where q: "mem_view s1 (a_kv env2 0) (lookup_key tok2) = Some q"
      and k: "keeps mem_view (a_kv env2 1) {refresh_lock_key q} s1 s3"
      and r: "refresh_locked mem_ops h2 env2 q tok2 s3 = (OK resp2, s4)"
      by (rule mem.AuthRefresh_OK [OF b m u(1) run]) (rule that; assumption)
    have "q = pid" using q u(2) by simp
    then have "mem_view s3 (a_kv env2 3) (refresh_key pid) = Some tok2"
      using mem.refresh_locked_OK(1) [OF b m u(1) r] by simp
    moreover have "mem_view s3 (a_kv env2 3) (refresh_key pid) = mem_view s1 (a_kv env2 3) (refresh_key pid)"
      using keepsD [OF k le2] by (simp add: key_simps)
    moreover have "mem_view s1 (a_kv env2 3) (refresh_key pid) = Some (a_uuid env 2)"
      using O(4) T2(2,3) b [of 3] le2 [of 0 3] long(3) [of 4] by simp
    ultimately show False using tok u(3) by simp
  qed
  have "mem_view s1 T (session_key old) = None"
    if "mem_view s (a_kv env 2) (current_key pid) = Some old" "plain old" "old \<noteq> []" "old \<noteq> a_uuid env 1" for old
    using O(6) [OF refl _ _ that(2,3,4) order_refl] kept that(1) le [of 1 2] by (simp add: numeral_2_eq_2)
  then show ?thesis
    using jwt O(2) [OF refl order_refl long(1)] O(3) [OF refl order_refl long(1)] refused by (intro exI [of _ pid]) auto
qed

theorem login_evicts_previous_session_witness:
  "\<exists>resp s1 db1 s2 db2. demo_login 1000 ''1'' NewMemStore empty_db = (OK resp, s1, db1) \<and>
     AuthSteam mem_ops demo_auth (\<lambda>s. s) (\<lambda>_. Inr ''steam-7'') (demo_auth_env 2000 ''2'') (Some ''t'') s1 db1 = (OK \<lparr>ar_JWT = ''J2'',
       ar_RefreshToken = ''R2'', ar_ExpiresAt = of_unix 88400\<rparr>, s2, db2) \<and>
     (\<exists>pid. mem_view s2 (of_unix 2000) (current_key pid) = Some ''J2'')"
proof -
  let ?run = "\<lambda>x. case x of (a, s1, db1) \<Rightarrow>
    AuthSteam mem_ops demo_auth (\<lambda>s. s) (\<lambda>_. Inr ''steam-7'') (demo_auth_env 2000 ''2'') (Some ''t'') s1 db1"
  let ?a = "OK \<lparr>ar_JWT = ''J2'', ar_RefreshToken = ''R2'', ar_ExpiresAt = of_unix 88400\<rparr>"
  obtain s1 db1 where d: "demo_login 1000 ''1'' NewMemStore empty_db = (OK \<lparr>ar_JWT = ''J1'', ar_RefreshToken = ''R1'', ar_ExpiresAt = of_unix 87400\<rparr>, s1, db1)"
    by (rule demo_login_ok)
  have "fst (?run (demo_login 1000 ''1'' NewMemStore empty_db)) = ?a" by code_simp
  with d obtain s2 db2 where r: "AuthSteam mem_ops demo_auth (\<lambda>s. s) (\<lambda>_. Inr ''steam-7'') (demo_auth_env 2000 ''2'') (Some ''t'') s1 db1 = (?a, s2, db2)"
    by (metis (no_types, lifting) case_prod_conv prod.collapse)
  let ?env = "demo_auth_env 2000 ''2''"
  have "mono (a_kv ?env)" "\<forall>i. a_kv ?env i \<le> of_unix 2000" "plain (a_uuid ?env 1)" "of_unix 2000 < a_kv ?env 0 + sessionTTL"
    by (simp_all add: demo_auth_env_def mono_def plain_def of_unix_def ttl_defs)
  from login_evicts_previous_session [OF r this]
  obtain pid where "mem_view s2 (of_unix 2000) (current_key pid) = Some (a_uuid ?env 1)" by blast
  with d r show ?thesis by (auto simp: demo_auth_env_def)
qed

end
