(* ===== verification/SessionRace.thy ===== *)
theory SessionRace
  imports Session
begin

text \<open>
  Concurrent logins on the session store: \<open>enforceSingleSession\<close> as a process whose every call on the
  store is one step, any number of logins (or refreshes) of any players interleaved, logouts between
  them, and time passing. The invariant has one assertion per program point; it shows that no two
  delivered sessions of a player are live together, as long as no process stays in its critical
  section longer than the time to live of its lock.
\<close>

section \<open>The steps\<close>

text \<open>The program point of a login, named by its \<open>jti\<close>, with the moment it took the lock.\<close>

datatype login_pc =
  Waiting | Locked int | Looked int "string kv_result" | Dropped int | Registered int | Pointed int | Delivered | Refused

fun since :: "login_pc \<Rightarrow> int option" where
  "since (Locked t0) = Some t0"
| "since (Looked t0 _) = Some t0"
| "since (Dropped t0) = Some t0"
| "since (Registered t0) = Some t0"
| "since (Pointed t0) = Some t0"
| "since _ = None"

definition in_time :: "int \<Rightarrow> int \<Rightarrow> bool" where
  "in_time t0 t \<longleftrightarrow> t0 \<le> t \<and> t < t0 + sessionLockTTL"

text \<open>A state is the store, the time and the program points; \<open>owner\<close> is the player of a \<open>jti\<close>.\<close>

type_synonym 's race = "'s \<times> int \<times> (string \<Rightarrow> login_pc)"

inductive race_step :: "'s kv_ops \<Rightarrow> (string \<Rightarrow> string) \<Rightarrow> 's race \<Rightarrow> 's race \<Rightarrow> bool" for ops owner where
  tick: "t \<le> t' \<Longrightarrow> race_step ops owner (s, t, p) (s, t', p)"
| lock: "p j = Waiting \<Longrightarrow> plain j \<Longrightarrow> j \<noteq> [] \<Longrightarrow>
    kv_setnx ops t (lock_key (owner j)) ''1'' sessionLockTTL s = (Inr True, s') \<Longrightarrow>
    race_step ops owner (s, t, p) (s', t, p(j := Locked t))"
| busy: "p j = Waiting \<Longrightarrow> kv_setnx ops t (lock_key (owner j)) ''1'' sessionLockTTL s = (Inr False, s') \<Longrightarrow>
    race_step ops owner (s, t, p) (s', t, p(j := Refused))"
| look: "p j = Locked t0 \<Longrightarrow> in_time t0 t \<Longrightarrow> kv_get ops t (current_key (owner j)) s = (old, s') \<Longrightarrow>
    race_step ops owner (s, t, p) (s', t, p(j := Looked t0 old))"
| drop: "p j = Looked t0 old \<Longrightarrow> in_time t0 t \<Longrightarrow>
    race_step ops owner (s, t, p) (drop_session ops old s, t, p(j := Dropped t0))"
| register: "p j = Dropped t0 \<Longrightarrow> in_time t0 t \<Longrightarrow> kv_set ops t (session_key j) ''1'' sessionTTL s = (Inr (), s') \<Longrightarrow>
    race_step ops owner (s, t, p) (s', t, p(j := Registered t0))"
| point: "p j = Registered t0 \<Longrightarrow> in_time t0 t \<Longrightarrow> kv_set ops t (current_key (owner j)) j sessionTTL s = (Inr (), s') \<Longrightarrow>
    race_step ops owner (s, t, p) (s', t, p(j := Pointed t0))"
| unlock: "p j = Pointed t0 \<Longrightarrow> in_time t0 t \<Longrightarrow> kv_del ops [lock_key (owner j)] s = (Inr (), s') \<Longrightarrow>
    race_step ops owner (s, t, p) (s', t, p(j := Delivered))"
| logout: "p j = Delivered \<Longrightarrow> race_step ops owner (s, t, p) (logoutSession ops t (owner j) j s, t, p)"

inductive race_reach :: "'s kv_ops \<Rightarrow> (string \<Rightarrow> string) \<Rightarrow> 's race \<Rightarrow> 's race \<Rightarrow> bool" for ops owner where
  here [intro]: "race_reach ops owner r r"
| more: "race_reach ops owner r q \<Longrightarrow> race_step ops owner q q' \<Longrightarrow> race_reach ops owner r q'"

lemma race_reach_trans: "race_reach ops owner a b \<Longrightarrow> race_reach ops owner b c \<Longrightarrow> race_reach ops owner a c"
  by (rotate_tac, induction rule: race_reach.induct) (auto intro: race_reach.more)

section \<open>The invariant\<close>

text \<open>A delivered session that is or will be live is the one its player's pointer shows.\<close>

definition pointed_out :: "('s \<Rightarrow> int \<Rightarrow> string \<Rightarrow> string option) \<Rightarrow> (string \<Rightarrow> string) \<Rightarrow> 's race \<Rightarrow> bool" where
  "pointed_out view owner = (\<lambda>(s, t, p). \<forall>k u. p k = Delivered \<longrightarrow> t \<le> u \<longrightarrow> view s u (session_key k) \<noteq> None \<longrightarrow>
     view s u (current_key (owner k)) = Some k)"

definition all_dead :: "('s \<Rightarrow> int \<Rightarrow> string \<Rightarrow> string option) \<Rightarrow> (string \<Rightarrow> string) \<Rightarrow> 's race \<Rightarrow> string \<Rightarrow> bool" where
  "all_dead view owner = (\<lambda>(s, t, p) o'. \<forall>k u. p k = Delivered \<longrightarrow> owner k = o' \<longrightarrow> t \<le> u \<longrightarrow> view s u (session_key k) = None)"

text \<open>The assertion at the program point of a process that is in time.\<close>

definition at_point :: "('s \<Rightarrow> int \<Rightarrow> string \<Rightarrow> string option) \<Rightarrow> (string \<Rightarrow> string) \<Rightarrow> 's race \<Rightarrow> string \<Rightarrow> bool" where
  "at_point view owner = (\<lambda>(s, t, p) j.
     (case p j of
        Looked t0 old \<Rightarrow> (\<forall>x. old = Inr x \<longrightarrow> plain x) \<and>
          (\<forall>k u. p k = Delivered \<longrightarrow> owner k = owner j \<longrightarrow> t \<le> u \<longrightarrow> view s u (session_key k) \<noteq> None \<longrightarrow> old = Inr k)
      | Dropped t0 \<Rightarrow> all_dead view owner (s, t, p) (owner j)
      | Registered t0 \<Rightarrow> all_dead view owner (s, t, p) (owner j) \<and>
          (\<forall>u. t \<le> u \<longrightarrow> view s u (session_key j) \<noteq> None \<longrightarrow> u \<le> t + sessionTTL)
      | Pointed t0 \<Rightarrow> all_dead view owner (s, t, p) (owner j) \<and>
          (\<forall>u. t \<le> u \<longrightarrow> view s u (session_key j) \<noteq> None \<longrightarrow> view s u (current_key (owner j)) = Some j)
      | _ \<Rightarrow> True))"

definition in_section :: "int \<Rightarrow> login_pc \<Rightarrow> bool" where
  "in_section t c \<longleftrightarrow> (\<exists>t0. since c = Some t0 \<and> t < t0 + sessionLockTTL)"

definition lock_held :: "('s \<Rightarrow> int \<Rightarrow> string \<Rightarrow> string option) \<Rightarrow> (string \<Rightarrow> string) \<Rightarrow> 's race \<Rightarrow> string \<Rightarrow> bool" where
  "lock_held view owner = (\<lambda>(s, t, p) j. \<forall>t0 u. since (p j) = Some t0 \<longrightarrow> t \<le> u \<longrightarrow> u < t0 + sessionLockTTL \<longrightarrow>
     view s u (lock_key (owner j)) \<noteq> None)"

definition race_ok :: "('s \<Rightarrow> int \<Rightarrow> string \<Rightarrow> string option) \<Rightarrow> (string \<Rightarrow> string) \<Rightarrow> 's race \<Rightarrow> bool" where
  "race_ok view owner = (\<lambda>(s, t, p).
     (\<forall>j. p j \<noteq> Waiting \<and> p j \<noteq> Refused \<longrightarrow> plain j \<and> j \<noteq> []) \<and>
     (\<forall>o' u x. t \<le> u \<longrightarrow> view s u (current_key o') = Some x \<longrightarrow> plain x) \<and>
     pointed_out view owner (s, t, p) \<and>
     (\<forall>j. in_section t (p j) \<longrightarrow> at_point view owner (s, t, p) j \<and> lock_held view owner (s, t, p) j) \<and>
     (\<forall>j k. in_section t (p j) \<longrightarrow> in_section t (p k) \<longrightarrow> owner j = owner k \<longrightarrow> j = k))"

lemmas race_defs = pointed_out_def all_dead_def at_point_def lock_held_def

lemma race_okD:
  assumes "race_ok view owner (s, t, p)"
  shows "p j \<noteq> Waiting \<Longrightarrow> p j \<noteq> Refused \<Longrightarrow> plain j \<and> j \<noteq> []"
    and "t \<le> u \<Longrightarrow> view s u (current_key o') = Some x \<Longrightarrow> plain x"
    and "p k = Delivered \<Longrightarrow> t \<le> u \<Longrightarrow> view s u (session_key k) \<noteq> None \<Longrightarrow> view s u (current_key (owner k)) = Some k"
    and "in_section t (p j) \<Longrightarrow> at_point view owner (s, t, p) j"
    and "in_section t (p j) \<Longrightarrow> lock_held view owner (s, t, p) j"
    and "in_section t (p j) \<Longrightarrow> in_section t (p k) \<Longrightarrow> owner j = owner k \<Longrightarrow> j = k"
  using assms unfolding race_ok_def pointed_out_def prod.case by blast+

lemma race_okI:
  assumes "\<And>j. p j \<noteq> Waiting \<Longrightarrow> p j \<noteq> Refused \<Longrightarrow> plain j \<and> j \<noteq> []"
    and "\<And>o' u x. t \<le> u \<Longrightarrow> view s u (current_key o') = Some x \<Longrightarrow> plain x"
    and "\<And>k u. p k = Delivered \<Longrightarrow> t \<le> u \<Longrightarrow> view s u (session_key k) \<noteq> None \<Longrightarrow> view s u (current_key (owner k)) = Some k"
    and "\<And>j. in_section t (p j) \<Longrightarrow> at_point view owner (s, t, p) j"
    and "\<And>j. in_section t (p j) \<Longrightarrow> lock_held view owner (s, t, p) j"
    and "\<And>j k. in_section t (p j) \<Longrightarrow> in_section t (p k) \<Longrightarrow> owner j = owner k \<Longrightarrow> j = k"
  shows "race_ok view owner (s, t, p)"
  using assms unfolding race_ok_def pointed_out_def prod.case by blast

lemma in_section_mono: "in_section t' c \<Longrightarrow> t \<le> t' \<Longrightarrow> in_section t c"
  unfolding in_section_def by auto

lemma in_section_in_time: "since c = Some t0 \<Longrightarrow> in_time t0 t \<Longrightarrow> in_section t c"
  by (simp add: in_section_def in_time_def)

lemma in_section_not_delivered: "in_section t c \<Longrightarrow> c \<noteq> Delivered \<and> c \<noteq> Waiting \<and> c \<noteq> Refused"
  by (auto simp: in_section_def)

lemma race_ok_start:
  assumes "\<And>o' u x. t \<le> u \<Longrightarrow> view s u (current_key o') = Some x \<Longrightarrow> plain x"
  shows "race_ok view owner (s, t, \<lambda>_. Waiting)"
  by (rule race_okI) (simp_all add: in_section_def assms)

text \<open>Time passes.\<close>

lemma race_ok_tick:
  assumes ok: "race_ok view owner (s, t, p)" and "t \<le> t'"
  shows "race_ok view owner (s, t', p)"
proof (rule race_okI)
  show "at_point view owner (s, t', p) j" if "in_section t' (p j)" for j
    using race_okD(4) [OF ok in_section_mono [OF that assms(2)]] assms(2)
    by (cases "p j") (auto simp: at_point_def all_dead_def dest!: order_trans [OF assms(2)])
  show "lock_held view owner (s, t', p) j" if "in_section t' (p j)" for j
    using race_okD(5) [OF ok in_section_mono [OF that assms(2)]] assms(2) unfolding lock_held_def prod.case
    by (meson order_trans)
  show "plain j \<and> j \<noteq> []" if "p j \<noteq> Waiting" "p j \<noteq> Refused" for j
    using race_okD(1) [OF ok that] .
  show "plain x" if "t' \<le> u" "view s u (current_key o') = Some x" for o' u x
    using race_okD(2) [OF ok order_trans [OF assms(2) that(1)] that(2)] .
  show "view s u (current_key (owner k)) = Some k"
    if "p k = Delivered" "t' \<le> u" "view s u (session_key k) \<noteq> None" for k u
    using race_okD(3) [OF ok that(1) order_trans [OF assms(2) that(2)] that(3)] .
  show "j = k" if "in_section t' (p j)" "in_section t' (p k)" "owner j = owner k" for j k
    using race_okD(6) [OF ok in_section_mono [OF that(1) assms(2)] in_section_mono [OF that(2) assms(2)] that(3)] .
qed

text \<open>
  A call of process \<open>j\<close> leaves the other processes' assertions intact when sessions of others only
  die, and pointers and locks of other players stay.
\<close>

lemma race_ok_move:
  assumes ok: "race_ok view owner (s, t, p)"
    and die: "\<And>k u. k \<noteq> j \<Longrightarrow> plain k \<Longrightarrow> t \<le> u \<Longrightarrow> view s' u (session_key k) \<noteq> None \<Longrightarrow> view s u (session_key k) \<noteq> None"
    and cur: "\<And>o' u. o' \<noteq> owner j \<Longrightarrow> t \<le> u \<Longrightarrow> view s' u (current_key o') = view s u (current_key o')"
    and lck: "\<And>o' u. o' \<noteq> owner j \<Longrightarrow> t \<le> u \<Longrightarrow> view s' u (lock_key o') = view s u (lock_key o')"
    and alone: "\<And>k. k \<noteq> j \<Longrightarrow> owner k = owner j \<Longrightarrow> \<not> in_section t (p k)"
    and pl: "c \<noteq> Waiting \<Longrightarrow> c \<noteq> Refused \<Longrightarrow> plain j \<and> j \<noteq> []"
    and curpl: "\<And>u x. t \<le> u \<Longrightarrow> view s' u (current_key (owner j)) = Some x \<Longrightarrow> plain x"
    and own: "\<And>k u. (p(j := c)) k = Delivered \<Longrightarrow> owner k = owner j \<Longrightarrow> t \<le> u \<Longrightarrow> view s' u (session_key k) \<noteq> None \<Longrightarrow>
      view s' u (current_key (owner j)) = Some k"
    and point: "in_section t c \<Longrightarrow> at_point view owner (s', t, p(j := c)) j"
    and held: "in_section t c \<Longrightarrow> lock_held view owner (s', t, p(j := c)) j"
  shows "race_ok view owner (s', t, p(j := c))"
proof (rule race_okI)
  let ?p = "p(j := c)"
  show "plain k \<and> k \<noteq> []" if "?p k \<noteq> Waiting" "?p k \<noteq> Refused" for k
    using that pl race_okD(1) [OF ok, of k] by (cases "k = j") simp_all
  show "plain x" if "t \<le> u" "view s' u (current_key o') = Some x" for o' u x
    using that curpl cur [of o' u] race_okD(2) [OF ok, of u o' x] by (cases "o' = owner j") simp_all
  show "view s' u (current_key (owner k)) = Some k"
    if d: "?p k = Delivered" "t \<le> u" "view s' u (session_key k) \<noteq> None" for k u
  proof (cases "owner k = owner j")
    case True
    with own [OF d(1) True d(2,3)] show ?thesis by simp
  next
    case False
    then have k: "k \<noteq> j" "p k = Delivered" using d(1) by (auto split: if_splits)
    then have "plain k" using race_okD(1) [OF ok, of k] by simp
    with die [OF k(1) this d(2,3)] race_okD(3) [OF ok k(2) d(2)] cur [OF False d(2)] show ?thesis by simp
  qed
  have other: "owner k \<noteq> owner j \<and> p k = ?p k \<and> k \<noteq> j \<and> plain k" if "in_section t (?p k)" "k \<noteq> j" for k
  proof -
    have s: "in_section t (p k)" using that by simp
    then have "p k \<noteq> Waiting" "p k \<noteq> Refused" using in_section_not_delivered by blast+
    then have "plain k" using race_okD(1) [OF ok] by blast
    moreover have "owner k \<noteq> owner j" using alone [OF that(2)] s by blast
    ultimately show ?thesis using that(2) by simp
  qed
  show "at_point view owner (s', t, ?p) k" if sec: "in_section t (?p k)" for k
  proof (cases "k = j")
    case True
    then show ?thesis using point sec by simp
  next
    case False
    note o = other [OF sec False]
    have dead: "view s' u (session_key i) \<noteq> None \<Longrightarrow> view s u (session_key i) \<noteq> None \<and> p i = Delivered"
      if "?p i = Delivered" "owner i = owner k" "t \<le> u" for i u
    proof -
      assume l: "view s' u (session_key i) \<noteq> None"
      have i: "i \<noteq> j" "p i = Delivered" using that o by (auto split: if_splits)
      then have "plain i" using race_okD(1) [OF ok, of i] by simp
      with die [OF i(1) this that(3) l] i show ?thesis by simp
    qed
    have pk: "?p k = p k" using o by simp
    have sk: "in_section t (p k)" using sec pk by simp
    have before: "at_point view owner (s, t, p) k" by (rule race_okD(4) [OF ok sk])
    have curk: "view s' u (current_key (owner k)) = view s u (current_key (owner k))" if "t \<le> u" for u
      using cur o that by simp
    have diek: "view s' u (session_key k) \<noteq> None \<Longrightarrow> view s u (session_key k) \<noteq> None" if "t \<le> u" for u
      using die o that by simp
    have dd: "all_dead view owner (s', t, ?p) (owner k)" if "all_dead view owner (s, t, p) (owner k)"
      unfolding all_dead_def prod.case
    proof (intro allI impI)
      fix i u
      assume a: "?p i = Delivered" "owner i = owner k" "t \<le> u"
      show "view s' u (session_key i) = None"
      proof (rule ccontr)
        assume l: "view s' u (session_key i) \<noteq> None"
        from dead [OF a l] have d: "view s u (session_key i) \<noteq> None" "p i = Delivered" by simp_all
        from that d(2) a(2,3) have "view s u (session_key i) = None" by (simp add: all_dead_def)
        with d(1) show False by simp
      qed
    qed
    show ?thesis
    proof (cases "p k")
      case (Looked t0 old)
      then have b: "(\<forall>x. old = Inr x \<longrightarrow> plain x) \<and> (\<forall>i u. p i = Delivered \<longrightarrow> owner i = owner k \<longrightarrow> t \<le> u \<longrightarrow>
          view s u (session_key i) \<noteq> None \<longrightarrow> old = Inr i)" using before by (simp add: at_point_def)
      have "old = Inr i" if a: "?p i = Delivered" "owner i = owner k" "t \<le> u" "view s' u (session_key i) \<noteq> None" for i u
        using dead [OF a(1-4)] b a by blast
      then show ?thesis using b pk unfolding at_point_def prod.case pk Looked login_pc.case by blast
    next
      case (Dropped t0)
      then show ?thesis using before dd unfolding at_point_def prod.case pk Dropped login_pc.case by blast
    next
      case (Registered t0)
      then show ?thesis using before dd diek unfolding at_point_def prod.case pk Registered login_pc.case by blast
    next
      case (Pointed t0)
      then have b: "all_dead view owner (s, t, p) (owner k)"
        "\<And>u. t \<le> u \<Longrightarrow> view s u (session_key k) \<noteq> None \<Longrightarrow> view s u (current_key (owner k)) = Some k"
        using before by (simp_all add: at_point_def)
      have "view s' u (current_key (owner k)) = Some k" if "t \<le> u" "view s' u (session_key k) \<noteq> None" for u
        using b(2) [OF that(1) diek [OF that]] curk [OF that(1)] by simp
      then show ?thesis using dd [OF b(1)] unfolding at_point_def prod.case pk Pointed login_pc.case by blast
    qed (simp_all add: at_point_def pk del: fun_upd_apply)
  qed
  show "lock_held view owner (s', t, ?p) k" if sec: "in_section t (?p k)" for k
  proof (cases "k = j")
    case False
    note o = other [OF sec False]
    have pk: "?p k = p k" using o by simp
    have sk: "in_section t (p k)" using sec pk by simp
    show ?thesis using race_okD(5) [OF ok sk] lck [of "owner k"] o unfolding lock_held_def prod.case pk by metis
  qed (use held sec in simp)
  show "i = k" if "in_section t (?p i)" "in_section t (?p k)" "owner i = owner k" for i k
    using that alone [of i] alone [of k] race_okD(6) [OF ok, of i k] by (auto split: if_splits)
qed

lemma race_ok_busy:
  assumes ok: "race_ok view owner (s, t, p)" and w: "p j = Waiting"
    and same: "\<And>u x. t \<le> u \<Longrightarrow> view s' u x = view s u x"
  shows "race_ok view owner (s', t, p(j := Refused))"
proof (rule race_okI)
  let ?p = "p(j := Refused)"
  have del: "?p k = Delivered \<longleftrightarrow> p k = Delivered" for k using w by simp
  have sec: "p k = ?p k \<and> in_section t (p k)" if "in_section t (?p k)" for k
    using that by (cases "k = j") (simp_all add: in_section_def)
  show "plain k \<and> k \<noteq> []" if "?p k \<noteq> Waiting" "?p k \<noteq> Refused" for k
    using that race_okD(1) [OF ok, of k] by (cases "k = j") simp_all
  show "plain x" if "t \<le> u" "view s' u (current_key o') = Some x" for o' u x
    using race_okD(2) [OF ok that(1)] that same by simp
  show "view s' u (current_key (owner k)) = Some k" if "?p k = Delivered" "t \<le> u" "view s' u (session_key k) \<noteq> None" for k u
    using race_okD(3) [OF ok, of k u] that del same by simp
  show "at_point view owner (s', t, ?p) k" if "in_section t (?p k)" for k
  proof -
    have pk: "?p k = p k" using sec [OF that] by simp
    have "at_point view owner (s, t, p) k" using race_okD(4) [OF ok] sec [OF that] by blast
    then show ?thesis
      using same unfolding at_point_def all_dead_def prod.case del pk by (cases "p k") (simp_all del: fun_upd_apply)
  qed
  show "lock_held view owner (s', t, ?p) k" if "in_section t (?p k)" for k
  proof -
    have pk: "?p k = p k" using sec [OF that] by simp
    have "lock_held view owner (s, t, p) k" using race_okD(5) [OF ok] sec [OF that] by blast
    then show ?thesis using same unfolding lock_held_def prod.case pk by simp
  qed
  show "i = k" if "in_section t (?p i)" "in_section t (?p k)" "owner i = owner k" for i k
    using race_okD(6) [OF ok, of i k] sec that by blast
qed

lemma lock_held_move:
  assumes "lock_held view owner (s, t, p) j" and "since (p j) = Some t0" and "since c = Some t0"
    and "\<And>u. t \<le> u \<Longrightarrow> view s' u (lock_key (owner j)) = view s u (lock_key (owner j))"
  shows "lock_held view owner (s', t, p(j := c)) j"
  using assms unfolding lock_held_def by simp

context kv_exact
begin

text \<open>A call inside the critical section of process \<open>j\<close>.\<close>

lemma race_ok_inside:
  assumes ok: "race_ok view owner (s, t, p)" and c0: "since (p j) = Some t0" "in_time t0 t" and c: "since c = Some t0 \<or> c = Delivered"
    and die: "\<And>k u. k \<noteq> j \<Longrightarrow> plain k \<Longrightarrow> t \<le> u \<Longrightarrow> view s' u (session_key k) \<noteq> None \<Longrightarrow> view s u (session_key k) \<noteq> None"
    and cur: "\<And>o' u. o' \<noteq> owner j \<Longrightarrow> t \<le> u \<Longrightarrow> view s' u (current_key o') = view s u (current_key o')"
    and lck: "\<And>o' u. o' \<noteq> owner j \<or> c \<noteq> Delivered \<Longrightarrow> t \<le> u \<Longrightarrow> view s' u (lock_key o') = view s u (lock_key o')"
    and curpl: "\<And>u x. t \<le> u \<Longrightarrow> view s' u (current_key (owner j)) = Some x \<Longrightarrow> plain x"
    and own: "\<And>k u. (p(j := c)) k = Delivered \<Longrightarrow> owner k = owner j \<Longrightarrow> t \<le> u \<Longrightarrow> view s' u (session_key k) \<noteq> None \<Longrightarrow>
      view s' u (current_key (owner j)) = Some k"
    and point: "at_point view owner (s', t, p(j := c)) j"
  shows "race_ok view owner (s', t, p(j := c))"
proof (rule race_ok_move [OF ok die cur])
  have sec: "in_section t (p j)" using c0 by (rule in_section_in_time)
  show "\<not> in_section t (p k)" if "k \<noteq> j" "owner k = owner j" for k
  proof
    assume "in_section t (p k)"
    from race_okD(6) [OF ok this sec that(2)] that(1) show False by simp
  qed
  show "plain j \<and> j \<noteq> []" using race_okD(1) [OF ok, of j] in_section_not_delivered [OF sec] by simp
  show "lock_held view owner (s', t, p(j := c)) j" if "in_section t c"
  proof (rule lock_held_move [OF race_okD(5) [OF ok sec] c0(1)])
    have nd: "c \<noteq> Delivered" using in_section_not_delivered [OF that] by simp
    with c show "since c = Some t0" by simp
    show "view s' u (lock_key (owner j)) = view s u (lock_key (owner j))" if "t \<le> u" for u
      using lck [of "owner j" u] nd that by simp
  qed
  show "view s' u (lock_key o') = view s u (lock_key o')" if "o' \<noteq> owner j" "t \<le> u" for o' u
    using lck that by simp
  show "plain x" if "t \<le> u" "view s' u (current_key (owner j)) = Some x" for u x by (rule curpl [OF that])
  show "view s' u (current_key (owner j)) = Some k"
    if "(p(j := c)) k = Delivered" "owner k = owner j" "t \<le> u" "view s' u (session_key k) \<noteq> None" for k u by (rule own [OF that])
  show "at_point view owner (s', t, p(j := c)) j" by (rule point)
qed assumption+

lemma logoutSession_view:
  assumes "jti \<noteq> []" and "t \<le> u"
  shows "view (logoutSession ops t pid jti s) u x =
    (if x = session_key jti \<or> view s t (current_key pid) = Some jti \<and> (x = current_key pid \<or> x = refresh_key pid) then None
     else view s u x)"
proof -
  obtain s1 where s1: "kv_get ops t (current_key pid) s =
      (case view s t (current_key pid) of None \<Rightarrow> Inl NotFound | Some v \<Rightarrow> Inr v, s1)" "keeps view t {} s s1"
    by (rule get_run [where t = t and k = "current_key pid" and s = s]) (rule that; assumption)
  have "view s1 u x = view s u x" using keepsD [OF s1(2) assms(2)] by simp
  then show ?thesis
    unfolding logoutSession_def s1(1) using assms(1) by (cases "view s t (current_key pid)") (auto simp: del_view)
qed

lemma race_ok_logout:
  assumes ok: "race_ok view owner (s, t, p)" and d: "p j = Delivered"
  shows "race_ok view owner (logoutSession ops t (owner j) j s, t, p)"
proof -
  let ?s = "logoutSession ops t (owner j) j s"
  have j: "plain j" "j \<noteq> []" using race_okD(1) [OF ok, of j] d by simp_all
  note V = logoutSession_view [OF j(2)]
  have less: "view ?s u x \<noteq> None \<Longrightarrow> view s u x \<noteq> None" if "t \<le> u" for u x
    using V [OF that] by (auto split: if_splits)
  have locks: "view ?s u (lock_key q) = view s u (lock_key q)" if "t \<le> u" for u q
    using V [OF that] j(1) by (simp add: key_simps)
  have other: "view ?s u (current_key (owner k)) = Some k"
    if "t \<le> u" "k \<noteq> j" "view s u (current_key (owner k)) = Some k" for u k
  proof -
    have "view s t (current_key (owner k)) = Some k" using view_fades [OF that(1,3)] .
    then have "owner k = owner j \<Longrightarrow> view s t (current_key (owner j)) \<noteq> Some j" using that(2) by auto
    then show ?thesis using V [OF that(1)] that(3) j(1) by (auto simp: key_simps)
  qed
  show ?thesis
  proof (rule race_okI)
    show "plain k \<and> k \<noteq> []" if "p k \<noteq> Waiting" "p k \<noteq> Refused" for k using race_okD(1) [OF ok that] .
    show "plain x" if "t \<le> u" "view ?s u (current_key o') = Some x" for o' u x
      using race_okD(2) [OF ok that(1)] that(2) V [OF that(1)] by (simp split: if_splits)
    show "view ?s u (current_key (owner k)) = Some k" if "p k = Delivered" "t \<le> u" "view ?s u (session_key k) \<noteq> None" for k u
    proof (rule other [OF that(2)])
      show "k \<noteq> j" using that(3) V [OF that(2)] by auto
      show "view s u (current_key (owner k)) = Some k" using race_okD(3) [OF ok that(1,2) less [OF that(2,3)]] .
    qed
    show "at_point view owner (?s, t, p) k" if sec: "in_section t (p k)" for k
    proof -
      have k: "k \<noteq> j" using in_section_not_delivered [OF sec] d by auto
      have dead: "all_dead view owner (?s, t, p) q" if "all_dead view owner (s, t, p) q" for q
        using that less unfolding all_dead_def prod.case by blast
      have before: "at_point view owner (s, t, p) k" using race_okD(4) [OF ok sec] .
      show ?thesis
      proof (cases "p k")
        case (Looked t0 old)
        with before less show ?thesis unfolding at_point_def prod.case Looked login_pc.case by blast
      next
        case (Dropped t0)
        with before dead show ?thesis unfolding at_point_def prod.case Dropped login_pc.case by blast
      next
        case (Registered t0)
        with before dead less show ?thesis unfolding at_point_def prod.case Registered login_pc.case by blast
      next
        case (Pointed t0)
        with before dead less other k show ?thesis unfolding at_point_def prod.case Pointed login_pc.case by blast
      qed (simp_all add: at_point_def)
    qed
    show "lock_held view owner (?s, t, p) k" if "in_section t (p k)" for k
      using race_okD(5) [OF ok that] locks by (simp add: lock_held_def)
    show "i = k" if "in_section t (p i)" "in_section t (p k)" "owner i = owner k" for i k
      using race_okD(6) [OF ok that] .
  qed
qed

lemma race_ok_step:
  assumes "race_step ops owner r r'" and "race_ok view owner r"
  shows "race_ok view owner r'"
  using assms
proof (induction rule: race_step.induct)
  case (tick t t' s p)
  show ?case by (rule race_ok_tick [OF tick.prems tick.hyps])
next
  case (lock p j t s s')
  note ok = lock.prems and won = setnx_won [OF lock.hyps(4)] and live = setnx_live [OF lock.hyps(4)]
  have frame: "view s' u x = view s u x" if "t \<le> u" "x \<noteq> lock_key (owner j)" for u x
    using setnx_frame [OF lock.hyps(4) that] .
  show ?case
  proof (rule race_ok_move [OF ok])
    show "\<not> in_section t (p k)" if "k \<noteq> j" "owner k = owner j" for k
    proof
      assume s: "in_section t (p k)"
      from s obtain t0 where "since (p k) = Some t0" "t < t0 + sessionLockTTL" by (auto simp: in_section_def)
      with race_okD(5) [OF ok s] have "view s t (lock_key (owner k)) \<noteq> None" by (simp add: lock_held_def)
      with that(2) won show False by simp
    qed
    show "view s' u (current_key (owner j)) = Some k"
      if "(p(j := Locked t)) k = Delivered" "owner k = owner j" "t \<le> u" "view s' u (session_key k) \<noteq> None" for k u
    proof -
      have k: "p k = Delivered" using that(1) by (simp split: if_splits)
      then have "plain k" using race_okD(1) [OF ok, of k] by simp
      with race_okD(3) [OF ok k that(3)] that frame show ?thesis by (simp add: key_simps)
    qed
    show "lock_held view owner (s', t, p(j := Locked t)) j"
      using live by (simp add: lock_held_def)
  qed (use lock.hyps frame race_okD(2) [OF ok] in \<open>simp_all add: key_simps at_point_def\<close>)
next
  case (busy p j t s s')
  have "view s' u x = view s u x" if "t \<le> u" for u x
    using setnx_kept [OF busy.hyps(2) that] setnx_frame [OF busy.hyps(2) that] by (cases "x = lock_key (owner j)") simp_all
  then show ?case by (rule race_ok_busy [OF busy.prems busy.hyps(1)])
next
  case (look p j t0 t s old s')
  note ok = look.prems
  have frame: "view s' u x = view s u x" if "t \<le> u" for u x using get_frame [OF look.hyps(3) that] .
  have old: "old = (case view s t (current_key (owner j)) of None \<Rightarrow> Inl NotFound | Some v \<Rightarrow> Inr v)"
    using get_is_view [OF look.hyps(3)] .
  have del: "p k = Delivered" if "(p(j := Looked t0 old)) k = Delivered" for k using that by (simp split: if_splits)
  have cur: "view s u (current_key (owner k)) = Some k" if "p k = Delivered" "t \<le> u" "view s u (session_key k) \<noteq> None" for k u
    using race_okD(3) [OF ok that] .
  show ?case
  proof (rule race_ok_inside [OF ok, where ?t0.0 = t0])
    have "old = Inr k"
      if "(p(j := Looked t0 old)) k = Delivered" "owner k = owner j" "t \<le> u" "view s' u (session_key k) \<noteq> None" for k u
      using view_fades [OF that(3) cur [OF del [OF that(1)] that(3)]] that(2,4) old frame [OF that(3)] by simp
    moreover have "plain x" if "old = Inr x" for x
      using that old race_okD(2) [OF ok order_refl] by (auto split: option.splits)
    ultimately show "at_point view owner (s', t, p(j := Looked t0 old)) j"
      unfolding at_point_def prod.case fun_upd_same login_pc.case by blast
    show "view s' u (current_key (owner j)) = Some k"
      if "(p(j := Looked t0 old)) k = Delivered" "owner k = owner j" "t \<le> u" "view s' u (session_key k) \<noteq> None" for k u
      using cur [OF del [OF that(1)] that(3)] that(2-4) frame by simp
  qed (use look.hyps frame race_okD(2) [OF ok] in simp_all)
next
  case (drop p j t0 old t s)
  note ok = drop.prems
  let ?s = "drop_session ops old s"
  have sec: "in_section t (p j)" using drop.hyps by (intro in_section_in_time) simp_all
  have at: "\<And>x. old = Inr x \<Longrightarrow> plain x"
    "\<And>k u. p k = Delivered \<Longrightarrow> owner k = owner j \<Longrightarrow> t \<le> u \<Longrightarrow> view s u (session_key k) \<noteq> None \<Longrightarrow> old = Inr k"
    using race_okD(4) [OF ok sec] drop.hyps(1) by (simp_all add: at_point_def)
  have dv: "view ?s u x = (if old \<noteq> Inl NotFound \<and> old \<noteq> Inl KvFail \<and> old \<noteq> Inr [] \<and> x = session_key (projr old) then None else view s u x)"
    for u x by (rule drop_session_view)
  have less: "view ?s u x \<noteq> None \<Longrightarrow> view s u x \<noteq> None" for u x unfolding dv by (simp split: if_splits)
  have pl: "old = Inr x \<Longrightarrow> session_key x \<noteq> current_key q \<and> session_key x \<noteq> lock_key q" for x q
    using at(1) by (simp add: key_simps)
  have keep: "view ?s u (current_key o') = view s u (current_key o')" "view ?s u (lock_key o') = view s u (lock_key o')" for u o'
    unfolding dv using pl by (cases old; metis sum.sel(2) old.sum.exhaust kv_error.exhaust)+
  have del: "p k = Delivered" if "(p(j := Dropped t0)) k = Delivered" for k using that by (simp split: if_splits)
  have dead: "view ?s u (session_key k) = None" if "p k = Delivered" "owner k = owner j" "t \<le> u" for k u
  proof (rule ccontr)
    assume l: "view ?s u (session_key k) \<noteq> None"
    then have "old = Inr k" using at(2) [OF that less] by blast
    moreover have "k \<noteq> []" using race_okD(1) [OF ok, of k] that by simp
    ultimately show False using l by (simp add: drop_session_view)
  qed
  show ?case
  proof (rule race_ok_inside [OF ok, where ?t0.0 = t0])
    show "at_point view owner (?s, t, p(j := Dropped t0)) j"
      unfolding at_point_def all_dead_def prod.case fun_upd_same login_pc.case using del dead by blast
    show "view ?s u (current_key (owner j)) = Some k"
      if "(p(j := Dropped t0)) k = Delivered" "owner k = owner j" "t \<le> u" "view ?s u (session_key k) \<noteq> None" for k u
      using dead [OF del [OF that(1)] that(2,3)] that(4) by simp
  qed (use drop.hyps less keep race_okD(2) [OF ok] in \<open>simp_all del: not_None_eq\<close>)
next
  case (register p j t0 t s s')
  note ok = register.prems
  have sec: "in_section t (p j)" using register.hyps by (intro in_section_in_time) simp_all
  have j: "plain j" using race_okD(1) [OF ok, of j] register.hyps(1) by simp
  have frame: "view s' u x = view s u x" if "t \<le> u" "x \<noteq> session_key j" for u x
    using set_frame [OF register.hyps(3) that] .
  have del: "p k = Delivered \<and> k \<noteq> j" if "(p(j := Registered t0)) k = Delivered" for k using that by (simp split: if_splits)
  have dead: "view s' u (session_key k) = None" if "p k = Delivered" "k \<noteq> j" "owner k = owner j" "t \<le> u" for k u
    using race_okD(4) [OF ok sec] register.hyps(1) frame that by (simp add: at_point_def all_dead_def key_simps)
  have last: "u \<le> t + sessionTTL" if "t \<le> u" "view s' u (session_key j) \<noteq> None" for u
    using set_deadline [OF register.hyps(3) _ that(1)] that(2) by (simp add: ttl_defs split: if_splits)
  show ?case
  proof (rule race_ok_inside [OF ok, where ?t0.0 = t0])
    show "at_point view owner (s', t, p(j := Registered t0)) j"
      unfolding at_point_def all_dead_def prod.case fun_upd_same login_pc.case using del dead last by blast
    show "view s' u (current_key (owner j)) = Some k"
      if "(p(j := Registered t0)) k = Delivered" "owner k = owner j" "t \<le> u" "view s' u (session_key k) \<noteq> None" for k u
      using dead [of k u] del [OF that(1)] that by simp
  qed (use register.hyps frame j race_okD(2) [OF ok] in \<open>simp_all add: key_simps\<close>)
next
  case (point p j t0 t s s')
  note ok = point.prems
  have sec: "in_section t (p j)" using point.hyps by (intro in_section_in_time) simp_all
  have j: "plain j" using race_okD(1) [OF ok, of j] point.hyps(1) by simp
  have frame: "view s' u x = view s u x" if "t \<le> u" "x \<noteq> current_key (owner j)" for u x
    using set_frame [OF point.hyps(3) that] .
  have new: "view s' u (current_key (owner j)) = (if t + sessionTTL < u then None else Some j)" if "t \<le> u" for u
    using set_deadline [OF point.hyps(3) _ that] by (simp add: ttl_defs)
  have del: "p k = Delivered \<and> plain k" if "(p(j := Pointed t0)) k = Delivered" for k
    using that race_okD(1) [OF ok, of k] by (simp split: if_splits)
  have at: "all_dead view owner (s, t, p) (owner j)" "\<And>u. t \<le> u \<Longrightarrow> view s u (session_key j) \<noteq> None \<Longrightarrow> u \<le> t + sessionTTL"
    using race_okD(4) [OF ok sec] point.hyps(1) by (simp_all add: at_point_def)
  have dead: "view s' u (session_key k) = None" if "p k = Delivered" "plain k" "owner k = owner j" "t \<le> u" for k u
    using at(1) frame that by (simp add: all_dead_def key_simps)
  have live: "view s' u (current_key (owner j)) = Some j" if "t \<le> u" "view s' u (session_key j) \<noteq> None" for u
    using at(2) [OF that(1)] new [OF that(1)] frame [OF that(1), of "session_key j"] that(2) j by (simp add: key_simps)
  show ?case
  proof (rule race_ok_inside [OF ok, where ?t0.0 = t0])
    show "at_point view owner (s', t, p(j := Pointed t0)) j"
      unfolding at_point_def all_dead_def prod.case fun_upd_same login_pc.case using del dead live by blast
    show "view s' u (current_key (owner j)) = Some k"
      if "(p(j := Pointed t0)) k = Delivered" "owner k = owner j" "t \<le> u" "view s' u (session_key k) \<noteq> None" for k u
      using dead [of k u] del [OF that(1)] that by simp
    show "plain x" if "t \<le> u" "view s' u (current_key (owner j)) = Some x" for u x
      using new [OF that(1)] that(2) j by (simp split: if_splits)
  qed (use point.hyps frame in \<open>simp_all add: key_simps\<close>)
next
  case (unlock p j t0 t s s')
  note ok = unlock.prems
  have sec: "in_section t (p j)" using unlock.hyps by (intro in_section_in_time) simp_all
  have frame: "view s' u x = (if x = lock_key (owner j) then None else view s u x)" for u x
    using del_gone [OF unlock.hyps(3)] del_frame [OF unlock.hyps(3)] by simp
  have at: "all_dead view owner (s, t, p) (owner j)"
    "\<And>u. t \<le> u \<Longrightarrow> view s u (session_key j) \<noteq> None \<Longrightarrow> view s u (current_key (owner j)) = Some j"
    using race_okD(4) [OF ok sec] unlock.hyps(1) by (simp_all add: at_point_def)
  show ?case
  proof (rule race_ok_inside [OF ok, where ?t0.0 = t0])
    show "view s' u (current_key (owner j)) = Some k"
      if "(p(j := Delivered)) k = Delivered" "owner k = owner j" "t \<le> u" "view s' u (session_key k) \<noteq> None" for k u
    proof (cases "k = j")
      case True
      with at(2) [OF that(3)] that(4) show ?thesis by (simp add: frame key_simps split: if_splits)
    next
      case False
      then have "view s u (session_key k) = None" using at(1) that by (simp add: all_dead_def)
      then show ?thesis using that(4) by (simp add: frame split: if_splits)
    qed
    show "at_point view owner (s', t, p(j := Delivered)) j" by (simp add: at_point_def)
  qed (use unlock.hyps race_okD(2) [OF ok] in \<open>auto simp: frame key_simps split: if_splits\<close>)
next
  case (logout p j t s)
  show ?case by (rule race_ok_logout [OF logout.prems logout.hyps])
qed

lemma race_ok_reach:
  assumes "race_reach ops owner r r'" and "race_ok view owner r"
  shows "race_ok view owner r'"
  using assms by (induction rule: race_reach.induct) (auto intro: race_ok_step)

text \<open>
  A process that runs alone takes exactly the steps of \<open>enforceSingleSession\<close>: the relation is the
  function, call by call.
\<close>

lemma race_run_alone:
  assumes e: "enforceSingleSession ops clk (owner j) j s = (Inr (), s')" and w: "p j = Waiting"
    and j: "plain j" "j \<noteq> []" and m: "mono clk" and short: "clk 3 < clk 0 + sessionLockTTL"
  shows "race_reach ops owner (s, clk 0, p) (s', clk 3, p(j := Delivered))"
proof -
  have le: "clk i \<le> clk k" if "i \<le> k" for i k using m that by (rule monoD)
  have time: "in_time (clk 0) (clk i)" if "i \<le> 3" for i
    using le [of 0 i] le [OF that] short by (simp add: in_time_def)
  obtain b s1 where s1: "kv_setnx ops (clk 0) (lock_key (owner j)) ''1'' sessionLockTTL s = (Inr b, s1)"
    using setnx_total [of "clk 0" "lock_key (owner j)" "''1''" sessionLockTTL s] by (metis prod.collapse)
  have b: "b" using e unfolding enforceSingleSession_def s1 by (cases b) simp_all
  obtain old s2 where s2: "kv_get ops (clk 1) (current_key (owner j)) s1 = (old, s2)" by fastforce
  let ?s3 = "drop_session ops old s2"
  obtain s4 where s4: "kv_set ops (clk 2) (session_key j) ''1'' sessionTTL ?s3 = (Inr (), s4)"
    using set_total [of "clk 2" "session_key j" "''1''" sessionTTL ?s3] by (metis prod.collapse)
  obtain s5 where s5: "kv_set ops (clk 3) (current_key (owner j)) j sessionTTL s4 = (Inr (), s5)"
    using set_total [of "clk 3" "current_key (owner j)" j sessionTTL s4] by (metis prod.collapse)
  obtain s6 where s6: "kv_del ops [lock_key (owner j)] s5 = (Inr (), s6)"
    using del_total [of "[lock_key (owner j)]" s5] by (metis prod.collapse)
  have rep: "replace_session ops clk (owner j) j s1 = (Inr (), s5)"
    unfolding replace_session_def s2 prod.case s4 sum.case s5 ..
  have s': "s' = s6" using e b unfolding enforceSingleSession_def s1 prod.case sum.case rep s6 by simp
  let ?r = "race_reach ops owner (s, clk 0, p)"
  have tick: "?r (x, clk k, q)" if "?r (x, clk i, q)" "i \<le> k" for x i k q
    using that(1) by (rule race_reach.more [OF _ race_step.tick]) (rule le [OF that(2)])
  have "?r (s1, clk 0, p(j := Locked (clk 0)))"
    by (rule race_reach.more [OF race_reach.here race_step.lock]) (use w j s1 b in simp_all)
  then have r: "?r (s1, clk 1, p(j := Locked (clk 0)))" by (rule tick) simp
  have "?r (s2, clk 1, p(j := Looked (clk 0) old))"
    using race_reach.more [OF r race_step.look [where j = j and owner = owner and p = "p(j := Locked (clk 0))" and ?t0.0 = "clk 0", OF _ time [of 1] s2]] by simp
  note r = this
  have "?r (?s3, clk 1, p(j := Dropped (clk 0)))"
    using race_reach.more [OF r race_step.drop [where j = j and owner = owner and p = "p(j := Looked (clk 0) old)", OF _ time [of 1]]] by simp
  then have r: "?r (?s3, clk 2, p(j := Dropped (clk 0)))" by (rule tick) simp
  have "?r (s4, clk 2, p(j := Registered (clk 0)))"
    using race_reach.more [OF r race_step.register [where j = j and owner = owner and p = "p(j := Dropped (clk 0))" and ?t0.0 = "clk 0", OF _ time [of 2] s4]] by simp
  then have r: "?r (s4, clk 3, p(j := Registered (clk 0)))" by (rule tick) simp
  have "?r (s5, clk 3, p(j := Pointed (clk 0)))"
    using race_reach.more [OF r race_step.point [where j = j and owner = owner and p = "p(j := Registered (clk 0))" and ?t0.0 = "clk 0", OF _ time [of 3] s5]] by simp
  note r = this
  have "?r (s6, clk 3, p(j := Delivered))"
    using race_reach.more [OF r race_step.unlock [where j = j and owner = owner and p = "p(j := Pointed (clk 0))" and ?t0.0 = "clk 0", OF _ time [of 3] s6]] by simp
  then show ?thesis by (simp add: s')
qed

end

section \<open>Properties\<close>


definition demo_session_clock :: "int \<Rightarrow> clock" where
  "demo_session_clock t = (\<lambda>i. t + int (min i 3))"

lemma demo_enforce:
  assumes "mem_view s t (lock_key pid) = None" and "plain j"
  obtains s' where "enforceSingleSession mem_ops (demo_session_clock t) pid j s = (Inr (), s')"
    "mem_view s' (t + 3) (session_key j) \<noteq> None" "\<And>u. mem_view s' u (lock_key pid) = None"
proof -
  let ?c = "demo_session_clock t"
  have T: "?c i \<le> t + 3" for i by (simp add: demo_session_clock_def)
  obtain r s' where r: "enforceSingleSession mem_ops ?c pid j s = (r, s')" by fastforce
  note E = mem.enforceSingleSession_run [OF T assms(2) r]
  have "r = Inr ()" using E(1) assms(1) by (simp add: demo_session_clock_def)
  moreover have "t + 3 < ?c 2 + sessionTTL" by (simp add: demo_session_clock_def ttl_defs)
  ultimately show thesis using that [of s'] r E(4) [of "t + 3"] E(6) by simp
qed


section \<open>A logout whose two calls are apart\<close>

text \<open>
  The relation above takes a logout as one step. The code takes no lock for it: its \<open>Get\<close> and its
  \<open>Del\<close> are two calls, and a login between them has its pointer deleted, so that the next login
  does not find the session it should drop.
\<close>

definition logout_look :: "'s kv_ops \<Rightarrow> int \<Rightarrow> string \<Rightarrow> 's \<Rightarrow> string \<times> 's" where
  "logout_look ops t pid s = (case kv_get ops t (current_key pid) s of (r, s') \<Rightarrow> (case r of Inl _ \<Rightarrow> [] | Inr j \<Rightarrow> j, s'))"

definition logout_drop :: "'s kv_ops \<Rightarrow> string \<Rightarrow> string \<Rightarrow> string \<Rightarrow> 's \<Rightarrow> 's" where
  "logout_drop ops pid jti stored s =
     snd (kv_del ops (if stored = jti then [session_key jti, current_key pid, refresh_key pid] else [session_key jti]) s)"

lemma logoutSession_calls:
  "logoutSession ops t pid jti s = (case logout_look ops t pid s of (stored, s') \<Rightarrow> logout_drop ops pid jti stored s')"
  by (simp add: logoutSession_def logout_look_def logout_drop_def Let_def split: prod.split sum.split)

text \<open>
  Session \<open>a\<close> logs out while \<open>b\<close> logs in; then \<open>c\<close> logs in. All three logins succeed, and \<open>b\<close> and
  \<open>c\<close> are live together.
\<close>

definition logout_race :: "bool list \<times> bool list" where
  "logout_race =
     (let P = ''P''; login = (\<lambda>t j. enforceSingleSession mem_ops (demo_session_clock t) P j);
          (ra, s1) = login 0 ''a'' NewMemStore;
          (stored, s2) = logout_look mem_ops 10 P s1;
          (rb, s3) = login 20 ''b'' s2;
          s4 = logout_drop mem_ops P ''a'' stored s3;
          (rc, s5) = login 30 ''c'' s4
      in (map (\<lambda>r. r = Inr ()) [ra, rb, rc], map (\<lambda>j. fst (kv_get mem_ops 40 (session_key j) s5) = Inr ''1'') [''a'', ''b'', ''c'']))"

theorem logout_race_two_sessions: "logout_race = ([True, True, True], [False, True, True])"
  by code_simp

end
