(* ===== verification/Achievement.thy ===== *)
theory Achievement
  imports KvStore DbInvariant
begin

text \<open>
  Achievements (\<open>internal/achievement\<close>): the conditions, the Steam client, the unlock and list handlers,
  and the retry worker with its queue in the key-value store and its rows in the data base. Parameters:
  the HTTP client of the Steam web API, the faults of the statements, the generated identifiers.
\<close>

section \<open>Conditions\<close>

datatype check_error = ErrConditionNotMet | CheckFailed

definition AchFirstPull :: string where "AchFirstPull = ''ACH_FIRST_PULL''"
definition AchRareUnlock :: string where "AchRareUnlock = ''ACH_RARE_UNLOCK''"
definition AchLegendary :: string where "AchLegendary = ''ACH_LEGENDARY''"
definition AchStreak7 :: string where "AchStreak7 = ''ACH_STREAK_7''"
definition AchStreak30 :: string where "AchStreak30 = ''ACH_STREAK_30''"
definition AchCollector :: string where "AchCollector = ''ACH_COLLECTOR''"

lemmas ach_ids = AchFirstPull_def AchRareUnlock_def AchLegendary_def AchStreak7_def AchStreak30_def AchCollector_def

type_synonym condition = "bool \<Rightarrow> database \<Rightarrow> string \<Rightarrow> sql_error + bool"

definition checkFirstPull :: condition where
  "checkFirstPull fault db pid = attempt fault (Inr (length (filter (\<lambda>r. gl_player r = pid) (gacha_logs db)) \<ge> 1))"

definition checkRareUnlock :: condition where
  "checkRareUnlock fault db pid = attempt fault (Inr (length (filter (\<lambda>r. inv_player r = pid \<and>
     rarity r \<in> {''rare'', ''unique'', ''legendary''}) (inventories db)) \<ge> 1))"

definition checkLegendary :: condition where
  "checkLegendary fault db pid = attempt fault (Inr (length (filter (\<lambda>r. inv_player r = pid \<and>
     rarity r = ''legendary'') (inventories db)) \<ge> 1))"

definition checkStreakDays :: "int \<Rightarrow> condition" where
  "checkStreakDays threshold fault db pid =
     (case attempt fault (one_row (state_of db pid)) of
        Inl ErrNoRows \<Rightarrow> Inr False
      | Inl DbError \<Rightarrow> Inl DbError
      | Inr r \<Rightarrow> Inr (streak_days r \<ge> threshold))"

definition checkStreak7 :: condition where "checkStreak7 = checkStreakDays 7"
definition checkStreak30 :: condition where "checkStreak30 = checkStreakDays 30"

definition checkCollector :: condition where
  "checkCollector fault db pid = attempt fault (Inr (length (filter (\<lambda>r. inv_player r = pid) (inventories db)) \<ge> 10))"

definition registry :: "string \<Rightarrow> condition option" where
  "registry = map_of [(AchFirstPull, checkFirstPull), (AchRareUnlock, checkRareUnlock), (AchLegendary, checkLegendary),
     (AchStreak7, checkStreak7), (AchStreak30, checkStreak30), (AchCollector, checkCollector)]"

definition Check :: "bool \<Rightarrow> database \<Rightarrow> string \<Rightarrow> string \<Rightarrow> check_error + unit" where
  "Check fault db pid ach =
     (case registry ach of
        None \<Rightarrow> Inl ErrConditionNotMet
      | Some cond \<Rightarrow>
          (case cond fault db pid of
             Inl _ \<Rightarrow> Inl CheckFailed
           | Inr met \<Rightarrow> if met then Inr () else Inl ErrConditionNotMet))"

section \<open>The Steam client\<close>

text \<open>
  \<open>post\<close> is the HTTP client on the form of the request: the text of its error, or the status of the
  answer. The result is the text of the error, if there is one.
\<close>

type_synonym steam_form = "(string \<times> string) list"

definition SetAchievement :: "(steam_form \<Rightarrow> string + int) \<Rightarrow> string \<Rightarrow> string \<Rightarrow> string \<Rightarrow> string \<Rightarrow> string option" where
  "SetAchievement post apiKey appID steamID ach =
     (case post [(''key'', apiKey), (''steamid'', steamID), (''appid'', appID), (''count'', ''1''),
                 (''name[0]'', ach), (''value[0]'', ''1'')] of
        Inl err \<Rightarrow> Some (''steam achievement api: '' @ err)
      | Inr status \<Rightarrow> if status \<noteq> 200 then Some (''steam achievement api: status '' @ show_int status) else None)"

definition mock_SetAchievement :: "string \<Rightarrow> string \<Rightarrow> string option" where
  "mock_SetAchievement steamID ach = None"

definition NewSteamAchievementClientForEnv ::
  "(steam_form \<Rightarrow> string + int) \<Rightarrow> string \<Rightarrow> string \<Rightarrow> string \<Rightarrow> string \<Rightarrow> string \<Rightarrow> string option" where
  "NewSteamAchievementClientForEnv post appEnv apiKey appID =
     (if appEnv = ''development'' then mock_SetAchievement else SetAchievement post apiKey appID)"

section \<open>Unlocking\<close>

definition allAchievements :: "string list" where
  "allAchievements = [AchFirstPull, AchRareUnlock, AchLegendary, AchStreak7, AchStreak30, AchCollector]"

record achievement_item =
  ai_AchievementID :: string
  ai_Unlocked :: bool
  ai_UnlockedAt :: "int option"
  ai_SteamSynced :: bool

record unlock_response =
  ur_Ok :: bool
  ur_AlreadyUnlocked :: bool
  ur_UnlockedAt :: "int option"
  ur_SteamSynced :: bool

text \<open>
  The surroundings of one request: its clock, SQLite's clock, the faults of its statements, the text of
  the error of the second Steam statement, the identifier of a retry row.
\<close>

record unlock_env =
  u_now :: int
  u_sqlnow :: int
  u_fault :: faults
  u_error :: string
  u_uuid :: string

definition ach_of :: "database \<Rightarrow> string \<Rightarrow> string \<Rightarrow> ach_row option" where
  "ach_of db pid ach = find (\<lambda>r. ach_player r = pid \<and> achievement_id r = ach) (player_achievements db)"

definition already :: "ach_row \<Rightarrow> unlock_response" where
  "already r = \<lparr>ur_Ok = True, ur_AlreadyUnlocked = True, ur_UnlockedAt = Some (of_unix (unlocked_at r)),
     ur_SteamSynced = steam_synced r\<rparr>"

definition steam_id_of :: "bool \<Rightarrow> database \<Rightarrow> string \<Rightarrow> sql_error + string" where
  "steam_id_of fault db pid =
     attempt fault (one_row (map_option steam_id (find (\<lambda>p. p_id p = pid) (players db))))"

text \<open>The statements before the INSERT: an answer, or the Steam identity to unlock for.\<close>

definition unlock_check :: "unlock_env \<Rightarrow> string \<Rightarrow> string \<Rightarrow> database \<Rightarrow> unlock_response answer + string" where
  "unlock_check env pid ach db =
     (case attempt (u_fault env 0) (one_row (ach_of db pid ach)) of
        Inr r \<Rightarrow> Inl (OK (already r))
      | Inl DbError \<Rightarrow> Inl internal_error
      | Inl ErrNoRows \<Rightarrow>
          (case Check (u_fault env 1) db pid ach of
             Inl ErrConditionNotMet \<Rightarrow> Inl (Reject 400 ''CONDITION_NOT_MET'')
           | Inl CheckFailed \<Rightarrow> Inl internal_error
           | Inr _ \<Rightarrow>
               (case steam_id_of (u_fault env 2) db pid of
                  Inl _ \<Rightarrow> Inl internal_error
                | Inr steamID \<Rightarrow> Inr steamID)))"

text \<open>\<open>INSERT ... ON CONFLICT (player_id, achievement_id) DO NOTHING\<close> with its number of rows.\<close>

definition insert_ach :: "bool \<Rightarrow> int \<Rightarrow> string \<Rightarrow> string \<Rightarrow> database \<Rightarrow> sql_error + (nat \<times> database)" where
  "insert_ach fault now pid ach db =
     (if fault then Inl DbError
      else if ach_of db pid ach \<noteq> None then Inr (0, db)
      else if \<not> has_player db pid then Inl DbError
      else Inr (1, db\<lparr>player_achievements := player_achievements db @
             [\<lparr>ach_player = pid, achievement_id = ach, unlocked_at = unix now, steam_synced = False\<rparr>]\<rparr>))"

text \<open>\<open>UPDATE player_achievements SET steam_synced = 1\<close>.\<close>

definition mark_synced :: "string \<Rightarrow> string \<Rightarrow> database \<Rightarrow> database" where
  "mark_synced pid ach db = db\<lparr>player_achievements := sql_update (\<lambda>r. ach_player r = pid \<and> achievement_id r = ach)
     (\<lambda>r. r\<lparr>steam_synced := True\<rparr>) (player_achievements db)\<rparr>"

definition retryQueue :: string where
  "retryQueue = ''ach:retry''"

definition retry_item :: "string \<Rightarrow> string \<Rightarrow> string" where
  "retry_item pid ach = pid @ '':'' @ ach"

text \<open>The row of a failed synchronisation; a failing INSERT is only logged.\<close>

definition insert_retry :: "bool \<Rightarrow> int \<Rightarrow> string \<Rightarrow> string \<Rightarrow> string \<Rightarrow> string \<Rightarrow> database \<Rightarrow> database" where
  "insert_retry fault sqlnow newid pid ach err db =
     (if fault \<or> list_ex (\<lambda>r. rq_id r = newid) (achievement_retry_queue db) \<or> \<not> has_player db pid then db
      else db\<lparr>achievement_retry_queue := achievement_retry_queue db @
             [\<lparr>rq_id = newid, rq_player = pid, rq_achievement = ach, retry_count = 0, last_error = Some err,
               next_retry_at = sqlnow, resolved_at = None\<rparr>]\<rparr>)"

definition enqueueRetry ::
  "'s kv_ops \<Rightarrow> unlock_env \<Rightarrow> string \<Rightarrow> string \<Rightarrow> string \<Rightarrow> 's \<Rightarrow> database \<Rightarrow> 's \<times> database" where
  "enqueueRetry ops env pid ach err s db =
     (snd (kv_lpush ops retryQueue (retry_item pid ach) s),
      insert_retry (u_fault env 6) (u_sqlnow env) (u_uuid env) pid ach err db)"

text \<open>From the INSERT on: the conflict with a concurrent request, then Steam.\<close>

definition unlock_commit ::
  "'s kv_ops \<Rightarrow> (string \<Rightarrow> string \<Rightarrow> string option) \<Rightarrow> unlock_env \<Rightarrow> string \<Rightarrow> string \<Rightarrow> string \<Rightarrow> 's \<Rightarrow> database \<Rightarrow>
   unlock_response answer \<times> 's \<times> database" where
  "unlock_commit ops steam env pid ach steamID s db =
     (let now = truncate_second (u_now env) in
      case insert_ach (u_fault env 3) now pid ach db of
        Inl _ \<Rightarrow> (internal_error, s, db)
      | Inr (affected, db1) \<Rightarrow>
          if affected = 0 then
            (case attempt (u_fault env 4) (one_row (ach_of db1 pid ach)) of
               Inl _ \<Rightarrow> (internal_error, s, db1)
             | Inr r \<Rightarrow> (OK (already r), s, db1))
          else
            (let respond = (\<lambda>synced. OK \<lparr>ur_Ok = True, ur_AlreadyUnlocked = False, ur_UnlockedAt = Some now,
                                          ur_SteamSynced = synced\<rparr>) in
             case steam steamID ach of
               Some err \<Rightarrow> (respond False, enqueueRetry ops env pid ach err s db1)
             | None \<Rightarrow>
                 if u_fault env 5 then (respond False, enqueueRetry ops env pid ach (u_error env) s db1)
                 else (respond True, s, mark_synced pid ach db1)))"

definition Unlock ::
  "'s kv_ops \<Rightarrow> (string \<Rightarrow> string \<Rightarrow> string option) \<Rightarrow> unlock_env \<Rightarrow> string \<Rightarrow> string option \<Rightarrow> 's \<Rightarrow> database \<Rightarrow>
   unlock_response answer \<times> 's \<times> database" where
  "Unlock ops steam env pid body s db =
     (case body of
        None \<Rightarrow> (Reject 400 ''INVALID_REQUEST'', s, db)
      | Some ach \<Rightarrow>
          if ach = [] then (Reject 400 ''INVALID_REQUEST'', s, db)
          else (case unlock_check env pid ach db of
                  Inl a \<Rightarrow> (a, s, db)
                | Inr steamID \<Rightarrow> unlock_commit ops steam env pid ach steamID s db))"

text \<open>\<open>List\<close>: the Go map of the unlocked ones is \<open>unlocked\<close>, one entry per canonical identifier is sent.\<close>

definition listed :: "ach_row \<Rightarrow> achievement_item" where
  "listed r = \<lparr>ai_AchievementID = achievement_id r, ai_Unlocked = True,
     ai_UnlockedAt = Some (of_unix (unlocked_at r)), ai_SteamSynced = steam_synced r\<rparr>"

definition List_achievements :: "faults \<Rightarrow> string \<Rightarrow> database \<Rightarrow> achievement_item list answer" where
  "List_achievements ft pid db =
     (if ft 0 \<or> ft 1 then internal_error
      else
        let unlocked = fold (\<lambda>r m. m(achievement_id r \<mapsto> listed r))
              (filter (\<lambda>r. ach_player r = pid) (player_achievements db)) Map.empty
        in OK (map (\<lambda>x. case unlocked x of
                 Some item \<Rightarrow> item
               | None \<Rightarrow> \<lparr>ai_AchievementID = x, ai_Unlocked = False, ai_UnlockedAt = None, ai_SteamSynced = False\<rparr>)
             allAchievements))"

section \<open>The retry worker\<close>

definition DefaultMaxRetries :: int where "DefaultMaxRetries = 10"

record worker =
  w_tickInterval :: int
  w_maxRetries :: int

definition NewWorker :: worker where
  "NewWorker = \<lparr>w_tickInterval = 60 * second, w_maxRetries = DefaultMaxRetries\<rparr>"

text \<open>
  The surroundings of a batch: for its \<open>i\<close>-th item the faults of the statements, the clock of the
  worker, SQLite's clock, and Steam.
\<close>

record batch_env =
  b_fault :: "nat \<Rightarrow> faults"
  b_now :: clock
  b_sqlnow :: "nat \<Rightarrow> int"
  b_steam :: "nat \<Rightarrow> string \<Rightarrow> string \<Rightarrow> string option"

text \<open>\<open>strings.SplitN(item, ":", 2)\<close>, when it has two parts.\<close>

definition split_item :: "string \<Rightarrow> (string \<times> string) option" where
  "split_item item =
     (case dropWhile (\<lambda>c. c \<noteq> CHR '':'') item of
        [] \<Rightarrow> None
      | _ # rest \<Rightarrow> Some (takeWhile (\<lambda>c. c \<noteq> CHR '':'') item, rest))"

text \<open>\<open>UPDATE ... SET retry_count = retry_count + 1 ... RETURNING retry_count\<close>.\<close>

definition bump_retry ::
  "bool \<Rightarrow> string \<Rightarrow> int \<Rightarrow> int \<Rightarrow> string \<Rightarrow> string \<Rightarrow> database \<Rightarrow> sql_error + (int \<times> database)" where
  "bump_retry fault err next maxRetries pid ach db =
     (let P = (\<lambda>r. rq_player r = pid \<and> rq_achievement r = ach \<and> resolved_at r = None \<and> retry_count r < maxRetries);
          f = (\<lambda>r. r\<lparr>retry_count := retry_count r + 1, last_error := Some err, next_retry_at := unix next\<rparr>)
      in attempt fault (bindE (one_row (find P (achievement_retry_queue db))) (\<lambda>r.
           Inr (retry_count (f r), db\<lparr>achievement_retry_queue := sql_update P f (achievement_retry_queue db)\<rparr>))))"

definition resolve_retry :: "int \<Rightarrow> string \<Rightarrow> string \<Rightarrow> database \<Rightarrow> database" where
  "resolve_retry sqlnow pid ach db = db\<lparr>achievement_retry_queue :=
     sql_update (\<lambda>r. rq_player r = pid \<and> rq_achievement r = ach \<and> resolved_at r = None)
       (\<lambda>r. r\<lparr>resolved_at := Some sqlnow\<rparr>) (achievement_retry_queue db)\<rparr>"

definition processOne :: "worker \<Rightarrow> batch_env \<Rightarrow> nat \<Rightarrow> string \<Rightarrow> database \<Rightarrow> bool \<times> database" where
  "processOne w env i item db =
     (case split_item item of
        None \<Rightarrow> (False, db)
      | Some (pid, ach) \<Rightarrow>
          (case steam_id_of (b_fault env i 0) db pid of
             Inl ErrNoRows \<Rightarrow> (False, db)
           | Inl DbError \<Rightarrow> (True, db)
           | Inr steamID \<Rightarrow>
               (case b_steam env i steamID ach of
                  Some err \<Rightarrow>
                    (case bump_retry (b_fault env i 1) err (b_now env i + w_tickInterval w) (w_maxRetries w) pid ach db of
                       Inl ErrNoRows \<Rightarrow> (False, db)
                     | Inl DbError \<Rightarrow> (True, db)
                     | Inr (newCount, db1) \<Rightarrow> (newCount < w_maxRetries w, db1))
                | None \<Rightarrow>
                    let db1 = (if b_fault env i 2 then db else mark_synced pid ach db);
                        db2 = (if b_fault env i 3 then db1 else resolve_retry (b_sqlnow env i) pid ach db1)
                    in (False, db2))))"

text \<open>
  The loop of a batch has no bound of its own: it pops until the store says that the queue is empty, or
  fails. A result is a loop that ends.
\<close>

partial_function (option) batch_loop ::
  "'s kv_ops \<Rightarrow> worker \<Rightarrow> batch_env \<Rightarrow> nat \<Rightarrow> string list \<Rightarrow> 's \<Rightarrow> database \<Rightarrow> (string list \<times> 's \<times> database) option" where
  "batch_loop ops w env i toRequeue s db =
     (case kv_rpop ops retryQueue s of
        (Inl _, s1) \<Rightarrow> Some (toRequeue, s1, db)
      | (Inr item, s1) \<Rightarrow>
          (case processOne w env i item db of
             (requeue, db1) \<Rightarrow>
               batch_loop ops w env (Suc i) (if requeue then toRequeue @ [item] else toRequeue) s1 db1))"

definition processBatch :: "'s kv_ops \<Rightarrow> worker \<Rightarrow> batch_env \<Rightarrow> 's \<Rightarrow> database \<Rightarrow> ('s \<times> database) option" where
  "processBatch ops w env s db =
     map_option (\<lambda>(toRequeue, s1, db1).
         (fold (\<lambda>item s. snd (kv_rpush ops retryQueue item s)) (rev toRequeue) s1, db1))
       (batch_loop ops w env 0 [] s db)"

section \<open>Rebuilding the queue at boot\<close>

datatype reload_error = ReloadQuery | ReloadKv

definition pending :: "int \<Rightarrow> retry_row \<Rightarrow> bool" where
  "pending maxRetries r \<longleftrightarrow> resolved_at r = None \<and> retry_count r < maxRetries"

text \<open>The rows in the order of \<open>next_retry_at\<close>, those of one second as they are stored.\<close>

definition pending_items :: "int \<Rightarrow> database \<Rightarrow> string list" where
  "pending_items maxRetries db = map (\<lambda>r. retry_item (rq_player r) (rq_achievement r))
     (sort_key next_retry_at (filter (pending maxRetries) (achievement_retry_queue db)))"

partial_function (option) drain :: "'s kv_ops \<Rightarrow> 's \<Rightarrow> ((reload_error + unit) \<times> 's) option" where
  "drain ops s =
     (case kv_rpop ops retryQueue s of
        (Inl NotFound, s1) \<Rightarrow> Some (Inr (), s1)
      | (Inl KvFail, s1) \<Rightarrow> Some (Inl ReloadKv, s1)
      | (Inr _, s1) \<Rightarrow> drain ops s1)"

fun push_items :: "'s kv_ops \<Rightarrow> string list \<Rightarrow> 's \<Rightarrow> (reload_error + unit) \<times> 's" where
  "push_items ops [] s = (Inr (), s)"
| "push_items ops (item # items) s =
     (case kv_lpush ops retryQueue item s of
        (Inl _, s1) \<Rightarrow> (Inl ReloadKv, s1)
      | (Inr _, s1) \<Rightarrow> push_items ops items s1)"

definition ReloadPendingRetries ::
  "'s kv_ops \<Rightarrow> faults \<Rightarrow> int \<Rightarrow> database \<Rightarrow> 's \<Rightarrow> ((reload_error + nat) \<times> 's) option" where
  "ReloadPendingRetries ops ft maxRetries db s =
     (if ft 0 \<or> ft 1 then Some (Inl ReloadQuery, s)
      else
        let items = pending_items maxRetries db
        in map_option (\<lambda>r. bindS r (\<lambda>_ s1. bindS (push_items ops items s1) (\<lambda>_ s2. (Inr (length items), s2))))
             (drain ops s))"

end
