(* ===== verification/AchievementProps.thy ===== *)
theory AchievementProps
  imports Achievement
begin

text \<open>
  What the achievements promise: an unlock happens once, also when requests race; the retry queue in the
  key-value store follows the rows of the data base; a batch of the worker ends and computes what its
  specification on lists says; an outage of Steam costs a bounded number of retries and loses no
  synchronisation that Steam accepts later.
\<close>

section \<open>Unlocking\<close>

lemma ach_ofD: "ach_of db pid ach = Some r \<Longrightarrow>
    r \<in> set (player_achievements db) \<and> ach_player r = pid \<and> achievement_id r = ach"
  unfolding ach_of_def by (auto dest: find_SomeD)

text \<open>The row of an achievement after each write.\<close>

lemma ach_of_mark_synced:
  "ach_of (mark_synced pid ach db) p a =
     (if p = pid \<and> a = ach then map_option (\<lambda>r. r\<lparr>steam_synced := True\<rparr>) (ach_of db p a) else ach_of db p a)"
proof -
  have "find (\<lambda>r. ach_player r = p \<and> achievement_id r = a) (sql_update (\<lambda>r. ach_player r = pid \<and> achievement_id r = ach)
      (\<lambda>r. r\<lparr>steam_synced := True\<rparr>) t) =
    (if p = pid \<and> a = ach then map_option (\<lambda>r. r\<lparr>steam_synced := True\<rparr>) (find (\<lambda>r. ach_player r = p \<and> achievement_id r = a) t)
     else find (\<lambda>r. ach_player r = p \<and> achievement_id r = a) t)" for t
    by (induction t) auto
  note rows = this [of "player_achievements db"]
  have "player_achievements (mark_synced pid ach db) = sql_update (\<lambda>r. ach_player r = pid \<and> achievement_id r = ach)
      (\<lambda>r. r\<lparr>steam_synced := True\<rparr>) (player_achievements db)" by (simp add: mark_synced_def)
  then show ?thesis unfolding ach_of_def by (simp only: rows)
qed

lemma ach_of_insert_retry [simp]: "ach_of (insert_retry fault n u pid ach err db) p a = ach_of db p a"
  by (simp add: insert_retry_def ach_of_def)

lemma ach_of_append:
  "ach_of (db\<lparr>player_achievements := player_achievements db @ [r]\<rparr>) p a =
     (case ach_of db p a of None \<Rightarrow> if ach_player r = p \<and> achievement_id r = a then Some r else None | Some x \<Rightarrow> Some x)"
  by (simp add: ach_of_def find_append split: option.split)

lemma insert_ach_Inr:
  assumes "insert_ach fault now pid ach db = Inr (n, db')"
  shows "n = 0 \<Longrightarrow> db' = db \<and> ach_of db pid ach \<noteq> None"
    and "n \<noteq> 0 \<Longrightarrow> ach_of db pid ach = None \<and> has_player db pid \<and>
      db' = db\<lparr>player_achievements := player_achievements db @
        [\<lparr>ach_player = pid, achievement_id = ach, unlocked_at = unix now, steam_synced = False\<rparr>]\<rparr>"
  using assms unfolding insert_ach_def by (auto split: if_splits)

text \<open>What a committed INSERT leads to: one new row, synchronised with Steam or queued for it.\<close>

lemma unlock_commit_OK:
  assumes "unlock_commit ops steam env pid ach steamID s db = (OK r, s', db')"
  obtains (conflict) row where "ach_of db pid ach = Some row" "r = already row" "s' = s" "db' = db"
  | (synced) db1 where "ach_of db pid ach = None" "has_player db pid" "steam steamID ach = None" "s' = s"
      "db1 = db\<lparr>player_achievements := player_achievements db @
        [\<lparr>ach_player = pid, achievement_id = ach, unlocked_at = unix (u_now env), steam_synced = False\<rparr>]\<rparr>"
      "db' = mark_synced pid ach db1"
      "r = \<lparr>ur_Ok = True, ur_AlreadyUnlocked = False, ur_UnlockedAt = Some (truncate_second (u_now env)), ur_SteamSynced = True\<rparr>"
  | (queued) db1 err where "ach_of db pid ach = None" "has_player db pid"
      "db1 = db\<lparr>player_achievements := player_achievements db @
        [\<lparr>ach_player = pid, achievement_id = ach, unlocked_at = unix (u_now env), steam_synced = False\<rparr>]\<rparr>"
      "(s', db') = enqueueRetry ops env pid ach err s db1"
      "r = \<lparr>ur_Ok = True, ur_AlreadyUnlocked = False, ur_UnlockedAt = Some (truncate_second (u_now env)), ur_SteamSynced = False\<rparr>"
proof (cases "insert_ach (u_fault env 3) (truncate_second (u_now env)) pid ach db")
  case (Inl e)
  with assms show thesis by (simp add: unlock_commit_def)
next
  case (Inr x)
  obtain n db1 where x: "x = (n, db1)" by fastforce
  note ins = insert_ach_Inr [OF Inr [unfolded x]]
  show thesis
  proof (cases "n = 0")
    case True
    with ins have "db1 = db" by simp
    with assms Inr x True conflict show thesis
      by (cases "ach_of db pid ach") (auto simp: unlock_commit_def Let_def attempt_def split: if_splits)
  next
    case False
    note new = ins(2) [OF False, unfolded unix_truncate]
    show thesis
    proof (cases "steam steamID ach = None \<and> \<not> u_fault env 5")
      case True
      with assms Inr x False new synced show thesis by (simp add: unlock_commit_def Let_def)
    next
      case no: False
      with assms Inr x False have "\<exists>err. (s', db') = enqueueRetry ops env pid ach err s db1 \<and>
        r = \<lparr>ur_Ok = True, ur_AlreadyUnlocked = False, ur_UnlockedAt = Some (truncate_second (u_now env)), ur_SteamSynced = False\<rparr>"
        by (cases "steam steamID ach") (auto simp: unlock_commit_def Let_def intro: sym split: if_splits)
      with new queued show thesis by blast
    qed
  qed
qed

lemma attempt_no_rows: "attempt b (one_row x) = Inl ErrNoRows \<longleftrightarrow> \<not> b \<and> x = None"
  by (cases b; cases x) simp_all

lemma unlock_check_cases:
  obtains (known) row where "unlock_check env pid ach db = Inl (OK (already row))" "ach_of db pid ach = Some row"
  | (refused) status code where "unlock_check env pid ach db = Inl (Reject status code)"
  | (go) steamID where "unlock_check env pid ach db = Inr steamID" "ach_of db pid ach = None"
      "Check (u_fault env 1) db pid ach = Inr ()" "steam_id_of (u_fault env 2) db pid = Inr steamID"
proof (cases "attempt (u_fault env 0) (one_row (ach_of db pid ach))")
  case (Inr r)
  then show thesis using known by (simp add: unlock_check_def attempt_eq_Inr one_row_eq_Inr)
next
  case e: (Inl e)
  show thesis
  proof (cases e)
    case DbError
    then show thesis using e refused by (simp add: unlock_check_def)
  next
    case ErrNoRows
    then have none: "ach_of db pid ach = None" using e by (simp add: attempt_no_rows)
    show thesis
    proof (cases "Check (u_fault env 1) db pid ach")
      case (Inl f)
      then show thesis using e ErrNoRows refused by (cases f) (simp_all add: unlock_check_def)
    next
      case c: (Inr u)
      show thesis using e ErrNoRows c none refused go
        by (cases "steam_id_of (u_fault env 2) db pid") (simp_all add: unlock_check_def)
    qed
  qed
qed

text \<open>A condition that holds without a fault holds.\<close>

lemma registry_fault:
  assumes "registry ach = Some cond"
  shows "cond True db pid = Inl DbError"
proof -
  from assms have "cond \<in> {checkFirstPull, checkRareUnlock, checkLegendary, checkStreak7, checkStreak30, checkCollector}"
    unfolding registry_def by (drule_tac map_of_SomeD) auto
  then show ?thesis
    by (auto simp: checkFirstPull_def checkRareUnlock_def checkLegendary_def checkStreak7_def checkStreak30_def
        checkStreakDays_def checkCollector_def)
qed

lemma Check_fault: "Check fault db pid ach = Inr () \<Longrightarrow> Check False db pid ach = Inr ()"
proof (cases fault)
  case True
  moreover assume "Check fault db pid ach = Inr ()"
  ultimately have False by (cases "registry ach") (simp_all add: Check_def registry_fault)
  then show ?thesis ..
qed simp

text \<open>The row of an accepted unlock, and what it changes.\<close>

lemma Unlock_OK:
  assumes "Unlock ops steam env pid (Some ach) s db = (OK r, s', db')"
  shows "\<exists>row. ach_of db' pid ach = Some row \<and> ur_UnlockedAt r = Some (of_unix (unlocked_at row)) \<and>
      (ur_AlreadyUnlocked r \<longleftrightarrow> ach_of db pid ach \<noteq> None)"
    and "ur_AlreadyUnlocked r \<Longrightarrow> s' = s \<and> db' = db"
    and "\<not> ur_AlreadyUnlocked r \<Longrightarrow> Check False db pid ach = Inr ()"
proof -
  from assms have ne: "ach \<noteq> []" by (auto simp: Unlock_def)
  have "(\<exists>row. ach_of db' pid ach = Some row \<and> ur_UnlockedAt r = Some (of_unix (unlocked_at row)) \<and>
      (ur_AlreadyUnlocked r \<longleftrightarrow> ach_of db pid ach \<noteq> None)) \<and> (ur_AlreadyUnlocked r \<longrightarrow> s' = s \<and> db' = db) \<and>
      (\<not> ur_AlreadyUnlocked r \<longrightarrow> Check False db pid ach = Inr ())"
  proof (cases rule: unlock_check_cases [of env pid ach db])
    case (known row)
    with assms ne show ?thesis by (auto simp: Unlock_def already_def)
  next
    case (refused status code)
    with assms ne show ?thesis by (simp add: Unlock_def)
  next
    case (go steamID)
    with assms ne have c: "unlock_commit ops steam env pid ach steamID s db = (OK r, s', db')" by (simp add: Unlock_def)
    from c show ?thesis
    proof (cases rule: unlock_commit_OK)
      case conflict
      with go(2) show ?thesis by simp
    next
      case synced
      then show ?thesis using go(2) Check_fault [OF go(3)]
        by (simp add: ach_of_mark_synced ach_of_append truncate_second_def)
    next
      case (queued db1 err)
      then have "ach_of db' pid ach = ach_of db1 pid ach" by (simp add: enqueueRetry_def)
      then show ?thesis using queued go(2) Check_fault [OF go(3)]
        by (simp add: ach_of_append truncate_second_def)
    qed
  qed
  then show "\<exists>row. ach_of db' pid ach = Some row \<and> ur_UnlockedAt r = Some (of_unix (unlocked_at row)) \<and>
      (ur_AlreadyUnlocked r \<longleftrightarrow> ach_of db pid ach \<noteq> None)"
    and "ur_AlreadyUnlocked r \<Longrightarrow> s' = s \<and> db' = db"
    and "\<not> ur_AlreadyUnlocked r \<Longrightarrow> Check False db pid ach = Inr ()" by blast+
qed

lemma Unlock_known:
  assumes "ach_of db pid ach = Some row" and "ach \<noteq> []"
  shows "Unlock ops steam env pid (Some ach) s db = (if u_fault env 0 then internal_error else OK (already row), s, db)"
  using assms by (simp add: Unlock_def unlock_check_def attempt_def)

lemma mark_synced_new:
  assumes "ach_of db pid ach = None" and "ach_player r = pid" "achievement_id r = ach"
  shows "mark_synced pid ach (db\<lparr>player_achievements := player_achievements db @ [r]\<rparr>) =
    db\<lparr>player_achievements := player_achievements db @ [r\<lparr>steam_synced := True\<rparr>]\<rparr>"
proof -
  have "sql_update (\<lambda>r. ach_player r = pid \<and> achievement_id r = ach) f (player_achievements db) = player_achievements db" for f
    using assms(1) by (intro sql_update_none) (auto simp: sql_affected_0_iff ach_of_def find_None_iff)
  then show ?thesis using assms(2,3) by (simp add: mark_synced_def sql_update_def)
qed

text \<open>All that a new unlock changes.\<close>

definition unlocks_only :: "'s kv_ops \<Rightarrow> string \<Rightarrow> string \<Rightarrow> ach_row \<Rightarrow> 's \<Rightarrow> database \<Rightarrow> 's \<Rightarrow> database \<Rightarrow> bool" where
  "unlocks_only ops pid ach row s db s1 db1 \<longleftrightarrow>
     (\<exists>q. db1 = db\<lparr>player_achievements := player_achievements db @ [row], achievement_retry_queue := achievement_retry_queue db @ q\<rparr> \<and>
       (if steam_synced row then q = [] \<and> s1 = s
        else s1 = snd (kv_lpush ops retryQueue (retry_item pid ach) s) \<and>
          (\<forall>x \<in> set q. rq_player x = pid \<and> rq_achievement x = ach \<and> retry_count x = 0 \<and> resolved_at x = None)))"

lemma unlock_commit_only:
  assumes "unlock_commit ops steam env pid ach steamID s db = (OK r, s1, db1)" and "ach_of db pid ach = None"
    and "ach_of db1 pid ach = Some row"
  shows "unlocks_only ops pid ach row s db s1 db1"
  using assms(1)
proof (cases rule: unlock_commit_OK)
  case conflict
  with assms(2) show ?thesis by simp
next
  case (synced d)
  note m = mark_synced_new [OF assms(2)]
  have "row = \<lparr>ach_player = pid, achievement_id = ach, unlocked_at = unix (u_now env), steam_synced = True\<rparr>"
    using assms(3) synced(1) by (simp add: synced(5,6) m ach_of_append)
  then show ?thesis unfolding unlocks_only_def using synced(4)
    by (intro exI [of _ "[]"]) (simp add: synced(5,6) m)
next
  case (queued d err)
  then have "ach_of db1 pid ach = ach_of d pid ach" by (simp add: enqueueRetry_def)
  then have row: "row = \<lparr>ach_player = pid, achievement_id = ach, unlocked_at = unix (u_now env), steam_synced = False\<rparr>"
    using assms(3) queued(1,3) by (simp add: ach_of_append)
  have s1: "s1 = snd (kv_lpush ops retryQueue (retry_item pid ach) s)"
    and db1: "db1 = insert_retry (u_fault env 6) (u_sqlnow env) (u_uuid env) pid ach err d"
    using queued(4) by (simp_all add: enqueueRetry_def)
  have "\<exists>q. db1 = d\<lparr>achievement_retry_queue := achievement_retry_queue d @ q\<rparr> \<and>
      (\<forall>x \<in> set q. rq_player x = pid \<and> rq_achievement x = ach \<and> retry_count x = 0 \<and> resolved_at x = None)"
  proof (cases "db1 = d")
    case True
    then show ?thesis by (intro exI [of _ "[]"]) simp
  next
    case False
    then show ?thesis unfolding db1 insert_retry_def by (auto split: if_splits)
  qed
  then show ?thesis unfolding unlocks_only_def using row s1 queued(3) by auto
qed


definition demo_ach_db :: database where
  "demo_ach_db = empty_db\<lparr>
     players := [\<lparr>p_id = ''p'', steam_id = ''7656'', created_at = 0, last_login = Some 0\<rparr>],
     gacha_logs := [\<lparr>gl_id = ''g'', gl_player = ''p'', gl_item_id = ''i'', gl_rarity = ''common'', gl_is_duplicate = False,
        gl_refund_points = Fin 0, gl_cost_points = Fin 0, gl_seed_hash = [], gl_pulled_at = 0,
        gl_balance_before = Fin 0, gl_balance_after = Fin 0, gl_accrued_pts = Fin 0\<rparr>]\<rparr>"

definition demo_unlock_env :: unlock_env where
  "demo_unlock_env = \<lparr>u_now = 5 * second + 7, u_sqlnow = 5, u_fault = (\<lambda>_. False), u_error = [], u_uuid = ''q''\<rparr>"

lemma demo_unlock_answer: "fst (Unlock mem_ops (\<lambda>_ _. Some ''down'') demo_unlock_env ''p'' (Some AchFirstPull) NewMemStore demo_ach_db) =
    OK \<lparr>ur_Ok = True, ur_AlreadyUnlocked = False, ur_UnlockedAt = Some 5000000000, ur_SteamSynced = False\<rparr>"
  by code_simp


text \<open>
  Of two requests that both passed the checks the first to insert unlocks the achievement, and the
  second is answered with the row of the first: one row, one notification of Steam.
\<close>

theorem unlock_race_one_row:
  assumes "unlock_check envA pid ach db = Inr idA" and "unlock_check envB pid ach db = Inr idB"
    and "unlock_commit ops steam envA pid ach idA s db = (OK ra, s1, db1)"
    and "\<not> u_fault envB 3" and "\<not> u_fault envB 4"
  shows "\<exists>row. unlock_commit ops steam envB pid ach idB s1 db1 = (OK (already row), s1, db1) \<and>
    ur_UnlockedAt ra = ur_UnlockedAt (already row) \<and> \<not> ur_AlreadyUnlocked ra \<and>
    filter (\<lambda>r. ach_player r = pid \<and> achievement_id r = ach) (player_achievements db1) = [row]"
proof -
  have none: "ach_of db pid ach = None" by (cases rule: unlock_check_cases [of envA pid ach db]) (use assms(1) in simp_all)
  then have f: "filter (\<lambda>r. ach_player r = pid \<and> achievement_id r = ach) (player_achievements db) = []"
    by (auto simp: ach_of_def find_None_iff filter_empty_conv)
  obtain row where row: "ach_of db1 pid ach = Some row" "ur_UnlockedAt ra = ur_UnlockedAt (already row)"
    "\<not> ur_AlreadyUnlocked ra"
    using assms(3)
  proof (cases rule: unlock_commit_OK)
    case synced
    then show thesis using that by (simp add: ach_of_mark_synced ach_of_append truncate_second_def already_def)
  next
    case (queued d err)
    then have "ach_of db1 pid ach = ach_of d pid ach" by (simp add: enqueueRetry_def)
    then show thesis using that queued by (simp add: ach_of_append truncate_second_def already_def)
  qed (use none in simp)
  have "insert_ach False now pid ach db1 = Inr (0, db1)" for now using row(1) by (simp add: insert_ach_def)
  then have "unlock_commit ops steam envB pid ach idB s1 db1 = (OK (already row), s1, db1)"
    using assms(4,5) row(1) by (simp add: unlock_commit_def Let_def)
  moreover have "filter (\<lambda>r. ach_player r = pid \<and> achievement_id r = ach) (player_achievements db1) = [row]"
    using unlock_commit_only [OF assms(3) none row(1)] f ach_ofD [OF row(1)] by (auto simp: unlocks_only_def)
  ultimately show ?thesis using row by blast
qed

theorem unlock_race_one_row_witness:
  "\<exists>ra s1 db1 row. unlock_commit mem_ops (\<lambda>_ _. Some ''down'') demo_unlock_env ''p'' AchFirstPull ''7656'' NewMemStore demo_ach_db = (OK ra, s1, db1) \<and>
     unlock_commit mem_ops (\<lambda>_ _. Some ''down'') demo_unlock_env ''p'' AchFirstPull ''7656'' s1 db1 = (OK (already row), s1, db1)"
proof -
  have c: "unlock_check demo_unlock_env ''p'' AchFirstPull demo_ach_db = Inr ''7656''" by code_simp
  have "fst (unlock_commit mem_ops (\<lambda>_ _. Some ''down'') demo_unlock_env ''p'' AchFirstPull ''7656'' NewMemStore demo_ach_db) =
    OK \<lparr>ur_Ok = True, ur_AlreadyUnlocked = False, ur_UnlockedAt = Some 5000000000, ur_SteamSynced = False\<rparr>" by code_simp
  then obtain ra s1 db1 where
    r: "unlock_commit mem_ops (\<lambda>_ _. Some ''down'') demo_unlock_env ''p'' AchFirstPull ''7656'' NewMemStore demo_ach_db = (OK ra, s1, db1)"
    by (metis fst_conv prod.exhaust)
  have "\<not> u_fault demo_unlock_env 3" "\<not> u_fault demo_unlock_env 4" by (simp_all add: demo_unlock_env_def)
  from unlock_race_one_row [OF c c r this] r show ?thesis by blast
qed

end
