(* ===== verification/RetryProps.thy ===== *)
theory RetryProps
  imports Achievement "HOL-Library.Multiset"
begin

text \<open>
  The retry worker of the achievements. Its specification is the function \<open>batch_items\<close> on the list of
  the queued items in the order in which they are popped; a batch of the worker on any queue that keeps
  the contract ends and computes it. On the specification: what Steam accepts is synchronised and
  resolved, and what it refuses is given up after the greatest number of retries.
\<close>

section \<open>Items\<close>

lemma split_retry_item:
  assumes "CHR '':'' \<notin> set pid"
  shows "split_item (retry_item pid ach) = Some (pid, ach)"
proof -
  have "\<forall>x \<in> set pid. x \<noteq> CHR '':''" using assms by auto
  then show ?thesis by (simp add: split_item_def retry_item_def dropWhile_append takeWhile_append)
qed

lemma split_item_Some: "split_item item = Some (pid, ach) \<Longrightarrow> item = retry_item pid ach \<and> CHR '':'' \<notin> set pid"
proof -
  assume s: "split_item item = Some (pid, ach)"
  obtain c rest where d: "dropWhile (\<lambda>c. c \<noteq> CHR '':'') item = c # rest"
    using s by (cases "dropWhile (\<lambda>c. c \<noteq> CHR '':'') item") (simp_all add: split_item_def)
  then have "c = CHR '':''" using hd_dropWhile [of "\<lambda>c. c \<noteq> CHR '':''" item] by simp
  moreover have "item = takeWhile (\<lambda>c. c \<noteq> CHR '':'') item @ c # rest" using d takeWhile_dropWhile_id by metis
  moreover have "CHR '':'' \<notin> set (takeWhile (\<lambda>c. c \<noteq> CHR '':'') item)" by (auto dest: set_takeWhileD)
  ultimately show ?thesis using s d by (auto simp: split_item_def retry_item_def)
qed

section \<open>The specification of a batch\<close>

fun batch_items :: "worker \<Rightarrow> batch_env \<Rightarrow> nat \<Rightarrow> string list \<Rightarrow> database \<Rightarrow> string list \<times> database" where
  "batch_items w env i [] db = ([], db)"
| "batch_items w env i (item # items) db =
     (case processOne w env i item db of
        (requeue, db1) \<Rightarrow>
          (case batch_items w env (Suc i) items db1 of
             (failed, db2) \<Rightarrow> (if requeue then item # failed else failed, db2)))"

lemma batch_items_sub: "set (fst (batch_items w env i items db)) \<subseteq> set items"
proof (induction items arbitrary: i db)
  case (Cons item items)
  obtain b db1 where "processOne w env i item db = (b, db1)" by fastforce
  moreover obtain failed db2 where "batch_items w env (Suc i) items db1 = (failed, db2)" by fastforce
  ultimately show ?case using Cons.IH [of "Suc i" db1] by auto
qed simp

text \<open>What every processed item keeps, a batch keeps.\<close>

lemma batch_items_preserve:
  assumes "\<And>i item db. item \<in> set items \<Longrightarrow> P db \<Longrightarrow> P (snd (processOne w env i item db))" and "P db"
  shows "P (snd (batch_items w env i items db))"
  using assms
proof (induction items arbitrary: i db)
  case (Cons item items)
  obtain b db1 where p: "processOne w env i item db = (b, db1)" by fastforce
  have "P db1" using Cons.prems(1) [of item db i] Cons.prems(2) p by simp
  then have "P (snd (batch_items w env (Suc i) items db1))" using Cons.prems(1) by (intro Cons.IH) simp_all
  then show ?case using p by (cases "batch_items w env (Suc i) items db1") simp
qed simp

section \<open>The loops end\<close>

context kv_queue
begin

text \<open>Each pop that returns an item makes the queue shorter, so the loops of the worker end.\<close>

lemma rpop_shorter: "kv_rpop ops k s = (Inr item, s') \<Longrightarrow> length (queue s' k) < length (queue s k)"
  using rpop_last [of k s item s'] by simp

lemma batch_loop_ends: "\<exists>r. batch_loop ops w env i acc s db = Some r"
proof (induction "length (queue s retryQueue)" arbitrary: s i acc db rule: less_induct)
  case less
  obtain r s1 where p: "kv_rpop ops retryQueue s = (r, s1)" by fastforce
  show ?case
  proof (cases r)
    case (Inl e)
    then show ?thesis using p by (subst batch_loop.simps) simp
  next
    case (Inr item)
    obtain b db1 where o: "processOne w env i item db = (b, db1)" by fastforce
    have "length (queue s1 retryQueue) < length (queue s retryQueue)" using p Inr by (simp add: rpop_shorter)
    from less [OF this] show ?thesis using p Inr o by (subst batch_loop.simps) simp
  qed
qed

lemma drain_ends: "\<exists>r. drain ops s = Some r"
proof (induction "length (queue s retryQueue)" arbitrary: s rule: less_induct)
  case less
  obtain r s1 where p: "kv_rpop ops retryQueue s = (r, s1)" by fastforce
  show ?case
  proof (cases r)
    case (Inl e)
    then show ?thesis using p by (subst drain.simps) (cases e; simp)
  next
    case (Inr item)
    have "length (queue s1 retryQueue) < length (queue s retryQueue)" using p Inr by (simp add: rpop_shorter)
    from less [OF this] show ?thesis using p Inr by (subst drain.simps) simp
  qed
qed

end

section \<open>A batch computes its specification\<close>

context kv_queue_reliable
begin

lemma batch_loop_items:
  assumes "rev (queue s retryQueue) = items"
  shows "\<exists>s'. batch_loop ops w env i acc s db =
      Some (acc @ fst (batch_items w env i items db), s', snd (batch_items w env i items db)) \<and>
    queue s' = (queue s)(retryQueue := [])"
  using assms
proof (induction items arbitrary: i acc s db)
  case Nil
  show ?case
  proof (cases rule: rpop_cases [of retryQueue s])
    case (empty s')
    then show ?thesis using Nil by (subst batch_loop.simps) (simp add: fun_upd_idem)
  qed (use Nil in simp)
next
  case (Cons item items)
  then have q: "queue s retryQueue = rev items @ [item]" by (metis rev.simps(2) rev_rev_ident)
  show ?case
  proof (cases rule: rpop_cases [of retryQueue s])
    case (item s1)
    obtain b db1 where o: "processOne w env i item db = (b, db1)" by fastforce
    have "rev (queue s1 retryQueue) = items" using item q by simp
    from Cons.IH [OF this] obtain s' where s':
      "batch_loop ops w env (Suc i) (if b then acc @ [item] else acc) s1 db1 =
        Some ((if b then acc @ [item] else acc) @ fst (batch_items w env (Suc i) items db1), s', snd (batch_items w env (Suc i) items db1))"
      "queue s' = (queue s1)(retryQueue := [])" by blast
    show ?thesis using item q s' o
      by (subst batch_loop.simps) (cases "batch_items w env (Suc i) items db1"; simp)
  qed (use q in simp)
qed

lemma fold_rpush:
  "queue (fold (\<lambda>item s. snd (kv_rpush ops k item s)) items s) = (queue s)(k := queue s k @ items)"
  by (induction items arbitrary: s) (simp_all add: rpush_effect)

lemma processBatch_items:
  assumes "rev (queue s retryQueue) = items"
  shows "\<exists>s'. processBatch ops w env s db = Some (s', snd (batch_items w env 0 items db)) \<and>
    queue s' = (queue s)(retryQueue := rev (fst (batch_items w env 0 items db)))"
proof -
  obtain s1 where s1: "batch_loop ops w env 0 [] s db =
      Some ([] @ fst (batch_items w env 0 items db), s1, snd (batch_items w env 0 items db))"
    "queue s1 = (queue s)(retryQueue := [])" using batch_loop_items [OF assms] by blast
  then show ?thesis by (simp add: processBatch_def fold_rpush)
qed

lemma drain_empties: "\<exists>s'. drain ops s = Some (Inr (), s') \<and> queue s' = (queue s)(retryQueue := [])"
proof (induction "length (queue s retryQueue)" arbitrary: s rule: less_induct)
  case less
  show ?case
  proof (cases rule: rpop_cases [of retryQueue s])
    case (empty s')
    then show ?thesis by (subst drain.simps) (simp add: fun_upd_idem)
  next
    case (item s1)
    then have "length (queue s1 retryQueue) < length (queue s retryQueue)" by simp
    from less [OF this] show ?thesis using item by (subst drain.simps) simp
  qed
qed

lemma push_items_queue:
  "\<exists>s'. push_items ops items s = (Inr (), s') \<and> queue s' = (queue s)(retryQueue := rev items @ queue s retryQueue)"
proof (induction items arbitrary: s)
  case (Cons item items)
  obtain s1 where s1: "kv_lpush ops retryQueue item s = (Inr (), s1)"
    using lpush_total [of retryQueue item s] by (metis prod.collapse)
  obtain s2 where s2: "push_items ops items s1 = (Inr (), s2)"
    "queue s2 = (queue s1)(retryQueue := rev items @ queue s1 retryQueue)" using Cons by blast
  show ?case using s1 s2 lpush_queue [OF s1] by (simp add: fun_eq_iff)
qed simp

text \<open>After the boot the queue holds exactly the pending rows, whatever was left in it.\<close>

lemma ReloadPendingRetries_queue:
  assumes "\<not> ft 0" "\<not> ft 1"
  shows "\<exists>s'. ReloadPendingRetries ops ft maxRetries db s = Some (Inr (length (pending_items maxRetries db)), s') \<and>
    queue s' = (queue s)(retryQueue := rev (pending_items maxRetries db))"
proof -
  obtain s1 where s1: "drain ops s = Some (Inr (), s1)" "queue s1 = (queue s)(retryQueue := [])"
    using drain_empties by blast
  obtain s2 where s2: "push_items ops (pending_items maxRetries db) s1 = (Inr (), s2)"
    "queue s2 = (queue s1)(retryQueue := rev (pending_items maxRetries db) @ queue s1 retryQueue)"
    using push_items_queue by blast
  show ?thesis using assms s1 s2 by (simp add: ReloadPendingRetries_def Let_def)
qed

end

section \<open>Batch after batch\<close>

text \<open>The ticks of \<open>run\<close>: one batch after the other, each with its own surroundings.\<close>

primrec run_batches :: "'s kv_ops \<Rightarrow> worker \<Rightarrow> batch_env list \<Rightarrow> 's \<Rightarrow> database \<Rightarrow> ('s \<times> database) option" where
  "run_batches ops w [] s db = Some (s, db)"
| "run_batches ops w (env # envs) s db =
     (case processBatch ops w env s db of None \<Rightarrow> None | Some (s1, db1) \<Rightarrow> run_batches ops w envs s1 db1)"

fun items_batches :: "worker \<Rightarrow> batch_env list \<Rightarrow> string list \<Rightarrow> database \<Rightarrow> string list \<times> database" where
  "items_batches w [] items db = (items, db)"
| "items_batches w (env # envs) items db =
     (case batch_items w env 0 items db of (failed, db1) \<Rightarrow> items_batches w envs failed db1)"

context kv_queue_reliable
begin

lemma run_batches_items:
  assumes "rev (queue s retryQueue) = items"
  shows "\<exists>s'. run_batches ops w envs s db = Some (s', snd (items_batches w envs items db)) \<and>
    rev (queue s' retryQueue) = fst (items_batches w envs items db)"
  using assms
proof (induction envs arbitrary: s items db)
  case (Cons env envs)
  obtain failed db1 where b: "batch_items w env 0 items db = (failed, db1)" by fastforce
  obtain s1 where s1: "processBatch ops w env s db = Some (s1, db1)" "rev (queue s1 retryQueue) = failed"
    using processBatch_items [OF Cons.prems, of w env db] b by auto
  show ?case using Cons.IH [OF s1(2), of db1] s1(1) b by simp
qed simp

end

section \<open>An outage of Steam\<close>

definition refuses :: "batch_env \<Rightarrow> bool" where
  "refuses env \<longleftrightarrow> (\<forall>i a b. b_steam env i a b \<noteq> None) \<and> (\<forall>i. \<not> b_fault env i 0 \<and> \<not> b_fault env i 1)"

text \<open>What happens to the rows: their counts go up, within the maximum, and nothing else changes.\<close>

definition advances :: "int \<Rightarrow> database \<Rightarrow> database \<Rightarrow> bool" where
  "advances m db db' \<longleftrightarrow> (\<exists>g. db' = db\<lparr>achievement_retry_queue := map g (achievement_retry_queue db)\<rparr> \<and>
     (\<forall>r. rq_id (g r) = rq_id r \<and> rq_player (g r) = rq_player r \<and> rq_achievement (g r) = rq_achievement r \<and> resolved_at (g r) = resolved_at r \<and>
       retry_count r \<le> retry_count (g r) \<and> (retry_count r \<le> m \<longrightarrow> retry_count (g r) \<le> m)))"

lemma advances_refl: "advances m db db"
  unfolding advances_def by (intro exI [of _ "\<lambda>r. r"]) simp

lemma advances_trans:
  assumes "advances m a b" and "advances m b c"
  shows "advances m a c"
proof -
  obtain f where f: "b = a\<lparr>achievement_retry_queue := map f (achievement_retry_queue a)\<rparr>"
    "\<forall>r. rq_id (f r) = rq_id r \<and> rq_player (f r) = rq_player r \<and> rq_achievement (f r) = rq_achievement r \<and> resolved_at (f r) = resolved_at r \<and>
       retry_count r \<le> retry_count (f r) \<and> (retry_count r \<le> m \<longrightarrow> retry_count (f r) \<le> m)"
    using assms(1) by (auto simp: advances_def)
  obtain g where g: "c = b\<lparr>achievement_retry_queue := map g (achievement_retry_queue b)\<rparr>"
    "\<forall>r. rq_id (g r) = rq_id r \<and> rq_player (g r) = rq_player r \<and> rq_achievement (g r) = rq_achievement r \<and> resolved_at (g r) = resolved_at r \<and>
       retry_count r \<le> retry_count (g r) \<and> (retry_count r \<le> m \<longrightarrow> retry_count (g r) \<le> m)"
    using assms(2) by (auto simp: advances_def)
  have le: "retry_count r \<le> retry_count (g (f r))" for r using f(2) g(2) order_trans by blast
  show ?thesis unfolding advances_def
    by (rule exI [of _ "\<lambda>r. g (f r)"]) (use f g le in \<open>simp add: comp_def\<close>)
qed

definition tried :: "int \<Rightarrow> string \<Rightarrow> database \<Rightarrow> bool" where
  "tried k item db \<longleftrightarrow> (\<forall>pid ach r. split_item item = Some (pid, ach) \<longrightarrow> r \<in> set (achievement_retry_queue db) \<longrightarrow>
     rq_player r = pid \<longrightarrow> rq_achievement r = ach \<longrightarrow> resolved_at r = None \<longrightarrow> k \<le> retry_count r)"

lemma tried_iff:
  assumes "split_item item = Some (pid, ach)"
  shows "tried k item db \<longleftrightarrow> (\<forall>r \<in> set (achievement_retry_queue db).
     rq_player r = pid \<longrightarrow> rq_achievement r = ach \<longrightarrow> resolved_at r = None \<longrightarrow> k \<le> retry_count r)"
  using assms by (auto simp: tried_def)

lemma tried_advances: "tried k item db \<Longrightarrow> advances m db db' \<Longrightarrow> tried k item db'"
  unfolding tried_def advances_def by (fastforce intro: order_trans)

lemma bump_retry_Inr:
  assumes "bump_retry fault err next m pid ach db = Inr (n, db')"
  shows "advances m db db'"
    and "\<And>k. \<lbrakk>k < m; \<And>r. r \<in> set (achievement_retry_queue db) \<Longrightarrow> rq_player r = pid \<Longrightarrow> rq_achievement r = ach \<Longrightarrow>
        resolved_at r = None \<Longrightarrow> k \<le> retry_count r\<rbrakk> \<Longrightarrow>
      k + 1 \<le> n \<and> (\<forall>r \<in> set (achievement_retry_queue db'). rq_player r = pid \<longrightarrow> rq_achievement r = ach \<longrightarrow>
        resolved_at r = None \<longrightarrow> k + 1 \<le> retry_count r)"
proof -
  define P where "P = (\<lambda>r :: retry_row. rq_player r = pid \<and> rq_achievement r = ach \<and> resolved_at r = None \<and> retry_count r < m)"
  define f where "f = (\<lambda>r :: retry_row. r\<lparr>retry_count := retry_count r + 1, last_error := Some err, next_retry_at := unix next\<rparr>)"
  obtain x where x: "find P (achievement_retry_queue db) = Some x" and n: "n = retry_count (f x)"
    and db': "db' = db\<lparr>achievement_retry_queue := map (\<lambda>r. if P r then f r else r) (achievement_retry_queue db)\<rparr>"
    using assms by (auto simp: bump_retry_def Let_def run_simps sql_update_def P_def f_def)
  show "advances m db db'" unfolding advances_def
    by (rule exI [of _ "\<lambda>r. if P r then f r else r"]) (simp add: db' f_def P_def)
  fix k assume k: "k < m" and low: "\<And>r. r \<in> set (achievement_retry_queue db) \<Longrightarrow> rq_player r = pid \<Longrightarrow>
      rq_achievement r = ach \<Longrightarrow> resolved_at r = None \<Longrightarrow> k \<le> retry_count r"
  have "x \<in> set (achievement_retry_queue db) \<and> P x" using x by (rule find_SomeD)
  then have "k + 1 \<le> n" using low [of x] by (simp add: n f_def P_def)
  moreover have "k + 1 \<le> retry_count r" if r: "r \<in> set (achievement_retry_queue db')" "rq_player r = pid"
    "rq_achievement r = ach" "resolved_at r = None" for r
  proof -
    obtain y where y: "y \<in> set (achievement_retry_queue db)" "r = (if P y then f y else y)" using r(1) by (auto simp: db')
    show ?thesis
    proof (cases "P y")
      case True
      with y low [of y] show ?thesis by (simp add: P_def f_def)
    next
      case False
      then have "r = y" using y(2) by simp
      with False r k show ?thesis by (auto simp: P_def)
    qed
  qed
  ultimately show "k + 1 \<le> n \<and> (\<forall>r \<in> set (achievement_retry_queue db'). rq_player r = pid \<longrightarrow> rq_achievement r = ach \<longrightarrow>
        resolved_at r = None \<longrightarrow> k + 1 \<le> retry_count r)" by blast
qed

lemma processOne_refused:
  assumes "refuses env" and p: "processOne w env i item db = (b, db')"
  shows "advances (w_maxRetries w) db db'"
    and "b \<Longrightarrow> k < w_maxRetries w \<Longrightarrow> tried k item db \<Longrightarrow> k + 1 < w_maxRetries w \<and> tried (k + 1) item db'"
proof -
  let ?m = "w_maxRetries w"
  have "advances ?m db db' \<and> (b \<longrightarrow> (\<forall>k. k < ?m \<longrightarrow> tried k item db \<longrightarrow> k + 1 < ?m \<and> tried (k + 1) item db'))"
  proof (cases "split_item item")
    case None
    with p show ?thesis by (simp add: processOne_def advances_refl)
  next
    case (Some x)
    obtain pid ach where x: "x = (pid, ach)" by fastforce
    note tried = tried_iff [OF Some [unfolded x]]
    have f: "b_fault env i 0 = False" "b_fault env i 1 = False" using assms(1) by (simp_all add: refuses_def)
    show ?thesis
    proof (cases "steam_id_of False db pid")
      case (Inl e)
      then have "e = ErrNoRows" by (auto simp: steam_id_of_def one_row_def split: option.splits)
      with Some x p Inl f show ?thesis by (simp add: processOne_def advances_refl)
    next
      case (Inr sid)
      obtain err where err: "b_steam env i sid ach = Some err" using assms(1) unfolding refuses_def by blast
      let ?r = "bump_retry False err (b_now env i + w_tickInterval w) ?m pid ach db"
      show ?thesis
      proof (cases ?r)
        case (Inl e)
        then have "e = ErrNoRows" by (auto simp: bump_retry_def Let_def run_simps one_row_def split: option.splits)
        with Some x p Inl Inr f err show ?thesis by (simp add: processOne_def advances_refl)
      next
        case r: (Inr y)
        obtain n db1 where y: "y = (n, db1)" by fastforce
        have b: "b = (n < ?m)" and d: "db' = db1"
          using p Some x Inr f err r y by (simp_all add: processOne_def)
        note bump = bump_retry_Inr [OF r [unfolded y]]
        have "k + 1 < ?m \<and> tried (k + 1) item db'" if "b" "k < ?m" "tried k item db" for k
        proof -
          have low: "k \<le> retry_count r" if "r \<in> set (achievement_retry_queue db)" "rq_player r = pid"
            "rq_achievement r = ach" "resolved_at r = None" for r
            using that \<open>tried k item db\<close> unfolding tried by blast
          note up = bump(2) [OF that(2) low]
          have "k + 1 < ?m" using up that(1) unfolding b by linarith
          moreover have "tried (k + 1) item db'" unfolding tried d by (rule conjunct2 [OF up])
          ultimately show ?thesis ..
        qed
        moreover have "advances ?m db db'" using bump(1) d by simp
        ultimately show ?thesis by simp
      qed
    qed
  qed
  then show "advances ?m db db'"
    and "b \<Longrightarrow> k < ?m \<Longrightarrow> tried k item db \<Longrightarrow> k + 1 < ?m \<and> tried (k + 1) item db'" by blast+
qed

lemma batch_items_refused:
  assumes "refuses env" and "batch_items w env i items db = (failed, db')"
  shows "advances (w_maxRetries w) db db'"
    and "k < w_maxRetries w \<Longrightarrow> \<forall>item \<in> set items. tried k item db \<Longrightarrow>
      (\<forall>item \<in> set failed. tried (k + 1) item db') \<and> (failed \<noteq> [] \<longrightarrow> k + 1 < w_maxRetries w)"
proof -
  let ?m = "w_maxRetries w"
  have "advances ?m db db' \<and> (k < ?m \<longrightarrow> (\<forall>item \<in> set items. tried k item db) \<longrightarrow>
      (\<forall>item \<in> set failed. tried (k + 1) item db') \<and> (failed \<noteq> [] \<longrightarrow> k + 1 < ?m))"
    using assms(2)
  proof (induction items arbitrary: i db failed)
    case Nil
    then show ?case by (simp add: advances_refl)
  next
    case (Cons item items)
    obtain b db1 where o: "processOne w env i item db = (b, db1)" by fastforce
    obtain fs where fs: "batch_items w env (Suc i) items db1 = (fs, db')" "failed = (if b then item # fs else fs)"
      using Cons.prems o by (auto split: prod.splits)
    note one = processOne_refused [OF assms(1) o] and ih = Cons.IH [OF fs(1)]
    have adv: "advances ?m db1 db'" using ih by blast
    have "(\<forall>x \<in> set failed. tried (k + 1) x db') \<and> (failed \<noteq> [] \<longrightarrow> k + 1 < ?m)"
      if k: "k < ?m" and all: "\<forall>x \<in> set (item # items). tried k x db"
    proof -
      have "\<forall>x \<in> set items. tried k x db1" using all tried_advances [OF _ one(1)] by simp
      then have rest: "(\<forall>x \<in> set fs. tried (k + 1) x db') \<and> (fs \<noteq> [] \<longrightarrow> k + 1 < ?m)" using ih k by blast
      show ?thesis
      proof (cases b)
        case True
        from one(2) [OF True k] all have "k + 1 < ?m" "tried (k + 1) item db1" by simp_all
        with rest fs(2) True tried_advances [OF _ adv] show ?thesis by simp
      qed (use rest fs(2) in simp)
    qed
    then show ?case using advances_trans [OF one(1) adv] by blast
  qed
  then show "advances ?m db db'"
    and "k < ?m \<Longrightarrow> \<forall>item \<in> set items. tried k item db \<Longrightarrow>
      (\<forall>item \<in> set failed. tried (k + 1) item db') \<and> (failed \<noteq> [] \<longrightarrow> k + 1 < ?m)" by blast+
qed

lemma items_batches_refused:
  assumes "\<forall>env \<in> set envs. refuses env" and "items \<noteq> [] \<longrightarrow> k < w_maxRetries w" and "\<forall>item \<in> set items. tried k item db"
    and "items_batches w envs items db = (failed, db')"
  shows "advances (w_maxRetries w) db db' \<and> (w_maxRetries w \<le> k + int (length envs) \<longrightarrow> failed = [])"
  using assms
proof (induction envs arbitrary: items db k)
  case Nil
  then show ?case by (auto simp: advances_refl)
next
  case (Cons env envs)
  obtain fs db1 where b: "batch_items w env 0 items db = (fs, db1)" by fastforce
  have env: "refuses env" using Cons.prems(1) by simp
  note batch = batch_items_refused [OF env b]
  have fs: "fs \<noteq> [] \<longrightarrow> k + 1 < w_maxRetries w" "\<forall>item \<in> set fs. tried (k + 1) item db1"
  proof -
    have "fs = []" if "items = []" using b that by simp
    then show "fs \<noteq> [] \<longrightarrow> k + 1 < w_maxRetries w" "\<forall>item \<in> set fs. tried (k + 1) item db1"
      using batch(2) [of k] Cons.prems(2,3) by (cases "items = []"; auto)+
  qed
  have "items_batches w envs fs db1 = (failed, db')" using Cons.prems(4) b by simp
  from Cons.IH [OF _ fs this] Cons.prems(1)
  have "advances (w_maxRetries w) db1 db' \<and> (w_maxRetries w \<le> k + 1 + int (length envs) \<longrightarrow> failed = [])" by simp
  then show ?case using advances_trans [OF batch(1)] by (simp add: algebra_simps)
qed

section \<open>Recovery\<close>

definition accepts :: "batch_env \<Rightarrow> bool" where
  "accepts env \<longleftrightarrow> (\<forall>i a b. b_steam env i a b = None) \<and> (\<forall>i k. \<not> b_fault env i k)"

definition settled :: "string \<Rightarrow> string \<Rightarrow> database \<Rightarrow> bool" where
  "settled pid ach db \<longleftrightarrow>
     (\<forall>r \<in> set (achievement_retry_queue db). rq_player r = pid \<longrightarrow> rq_achievement r = ach \<longrightarrow> resolved_at r \<noteq> None) \<and>
     (\<forall>r \<in> set (player_achievements db). ach_player r = pid \<longrightarrow> achievement_id r = ach \<longrightarrow> steam_synced r)"

lemma steam_id_of_player: "has_player db pid \<Longrightarrow> \<exists>sid. steam_id_of False db pid = Inr sid"
  by (cases "find (\<lambda>p. p_id p = pid) (players db)")
    (auto simp: steam_id_of_def has_player_def list_ex_iff find_None_iff)

lemma has_player_sync [simp]:
  "has_player (mark_synced pid ach db) p = has_player db p"
  "has_player (resolve_retry n pid ach db) p = has_player db p"
  by (simp_all add: has_player_def mark_synced_def resolve_retry_def)

lemma processOne_accepted:
  assumes "accepts env" and "has_player db pid" and "CHR '':'' \<notin> set pid"
  shows "processOne w env i (retry_item pid ach) db = (False, resolve_retry (b_sqlnow env i) pid ach (mark_synced pid ach db))"
  using assms steam_id_of_player [OF assms(2)] by (auto simp: processOne_def split_retry_item accepts_def Let_def)

lemma synced_rows:
  "achievement_retry_queue (resolve_retry n pid ach (mark_synced pid ach db)) =
     sql_update (\<lambda>r. rq_player r = pid \<and> rq_achievement r = ach \<and> resolved_at r = None) (\<lambda>r. r\<lparr>resolved_at := Some n\<rparr>) (achievement_retry_queue db)"
  "player_achievements (resolve_retry n pid ach (mark_synced pid ach db)) =
     sql_update (\<lambda>r. ach_player r = pid \<and> achievement_id r = ach) (\<lambda>r. r\<lparr>steam_synced := True\<rparr>) (player_achievements db)"
  by (simp_all add: resolve_retry_def mark_synced_def)

lemma settledI:
  assumes "\<And>r. r \<in> set (achievement_retry_queue db) \<Longrightarrow> rq_player r = pid \<Longrightarrow> rq_achievement r = ach \<Longrightarrow> resolved_at r \<noteq> None"
    and "\<And>r. r \<in> set (player_achievements db) \<Longrightarrow> ach_player r = pid \<Longrightarrow> achievement_id r = ach \<Longrightarrow> steam_synced r"
  shows "settled pid ach db"
  using assms by (simp add: settled_def)

lemma settled_synced:
  assumes "p = pid \<and> a = ach \<or> settled p a db"
  shows "settled p a (resolve_retry n pid ach (mark_synced pid ach db))"
proof (rule settledI)
  fix r assume r: "r \<in> set (achievement_retry_queue (resolve_retry n pid ach (mark_synced pid ach db)))" "rq_player r = p" "rq_achievement r = a"
  then obtain y where y: "y \<in> set (achievement_retry_queue db)"
    "r = (if rq_player y = pid \<and> rq_achievement y = ach \<and> resolved_at y = None then y\<lparr>resolved_at := Some n\<rparr> else y)"
    by (auto simp: synced_rows sql_update_def)
  have k: "rq_player r = rq_player y" "rq_achievement r = rq_achievement y" using y(2) by simp_all
  show "resolved_at r \<noteq> None"
  proof (cases "p = pid \<and> a = ach")
    case True
    then show ?thesis using y(2) k r(2,3) by simp
  next
    case False
    then have "settled p a db" using assms by blast
    then have "resolved_at y \<noteq> None" using y(1) k r(2,3) by (simp add: settled_def)
    then show ?thesis using y(2) by simp
  qed
next
  fix r assume r: "r \<in> set (player_achievements (resolve_retry n pid ach (mark_synced pid ach db)))" "ach_player r = p" "achievement_id r = a"
  then obtain y where y: "y \<in> set (player_achievements db)"
    "r = (if ach_player y = pid \<and> achievement_id y = ach then y\<lparr>steam_synced := True\<rparr> else y)"
    by (auto simp: synced_rows sql_update_def)
  have k: "ach_player r = ach_player y" "achievement_id r = achievement_id y" using y(2) by simp_all
  show "steam_synced r"
  proof (cases "p = pid \<and> a = ach")
    case True
    then show ?thesis using y(2) k r(2,3) by simp
  next
    case False
    then have "settled p a db" using assms by blast
    then have "steam_synced y" using y(1) k r(2,3) by (simp add: settled_def)
    then show ?thesis using y(2) by simp
  qed
qed

lemma batch_items_accepted:
  assumes "accepts env" and "\<forall>(pid, ach) \<in> set keys. has_player db pid \<and> CHR '':'' \<notin> set pid"
  shows "fst (batch_items w env i (map (\<lambda>(pid, ach). retry_item pid ach) keys) db) = []"
    and "(pid, ach) \<in> set keys \<or> settled pid ach db \<Longrightarrow>
      settled pid ach (snd (batch_items w env i (map (\<lambda>(pid, ach). retry_item pid ach) keys) db))"
proof -
  have "fst (batch_items w env i (map (\<lambda>(pid, ach). retry_item pid ach) keys) db) = [] \<and>
      ((pid, ach) \<in> set keys \<or> settled pid ach db \<longrightarrow>
        settled pid ach (snd (batch_items w env i (map (\<lambda>(pid, ach). retry_item pid ach) keys) db)))"
    using assms(2)
  proof (induction keys arbitrary: i db)
    case (Cons key keys)
    obtain p a where key: "key = (p, a)" by fastforce
    let ?db = "resolve_retry (b_sqlnow env i) p a (mark_synced p a db)"
    have one: "processOne w env i (retry_item p a) db = (False, ?db)"
      using Cons.prems key by (intro processOne_accepted [OF assms(1)]) simp_all
    have ih: "fst (batch_items w env (Suc i) (map (\<lambda>(pid, ach). retry_item pid ach) keys) ?db) = [] \<and>
      ((pid, ach) \<in> set keys \<or> settled pid ach ?db \<longrightarrow>
        settled pid ach (snd (batch_items w env (Suc i) (map (\<lambda>(pid, ach). retry_item pid ach) keys) ?db)))"
      using Cons.prems by (intro Cons.IH) simp
    obtain fs d where fs: "batch_items w env (Suc i) (map (\<lambda>(pid, ach). retry_item pid ach) keys) ?db = (fs, d)" by fastforce
    have "settled pid ach ?db" if "(pid, ach) = key \<or> settled pid ach db"
      using that settled_synced unfolding key by blast
    then have "settled pid ach d" if "(pid, ach) \<in> set (key # keys) \<or> settled pid ach db"
      using ih that unfolding fs by auto
    then show ?case using ih one fs unfolding key by simp
  qed simp
  then show "fst (batch_items w env i (map (\<lambda>(pid, ach). retry_item pid ach) keys) db) = []"
    and "(pid, ach) \<in> set keys \<or> settled pid ach db \<Longrightarrow>
      settled pid ach (snd (batch_items w env i (map (\<lambda>(pid, ach). retry_item pid ach) keys) db))" by blast+
qed

section \<open>Properties\<close>

text \<open>
  C34. A batch of the worker ends and does what its specification says: each queued item is processed
  once, in the order in which the queue hands them out, and the ones to be tried again are queued in that
  same order for the next batch.
\<close>

theorem batch_ends_as_specified:
  "\<exists>s'. processBatch mem_ops w env s db = Some (s', snd (batch_items w env 0 (rev (lists s retryQueue)) db)) \<and>
     rev (lists s' retryQueue) = fst (batch_items w env 0 (rev (lists s retryQueue)) db)"
proof -
  obtain s' where "processBatch mem_ops w env s db = Some (s', snd (batch_items w env 0 (rev (lists s retryQueue)) db))"
    "lists s' = (lists s)(retryQueue := rev (fst (batch_items w env 0 (rev (lists s retryQueue)) db)))"
    using memqr.processBatch_items [OF refl] by blast
  then show ?thesis by simp
qed

text \<open>
  C35. Rebuilding the queue at boot ends, and then the queue hands out exactly the pending rows of the
  data base, the one due first going first, whatever the queue held before; if the query fails the
  queue is left as it was.
\<close>

theorem reload_restores_queue:
  "if ft 0 \<or> ft 1 then ReloadPendingRetries mem_ops ft maxRetries db s = Some (Inl ReloadQuery, s)
   else \<exists>s' rows. ReloadPendingRetries mem_ops ft maxRetries db s = Some (Inr (length rows), s') \<and>
     rev (lists s' retryQueue) = map (\<lambda>r. retry_item (rq_player r) (rq_achievement r)) rows \<and>
     sorted (map next_retry_at rows) \<and>
     mset rows = {#r \<in># mset (achievement_retry_queue db). resolved_at r = None \<and> retry_count r < maxRetries#}"
proof (cases "ft 0 \<or> ft 1")
  case True
  then show ?thesis by (simp add: ReloadPendingRetries_def)
next
  case False
  then obtain s' where s': "ReloadPendingRetries mem_ops ft maxRetries db s = Some (Inr (length (pending_items maxRetries db)), s')"
    "lists s' = (lists s)(retryQueue := rev (pending_items maxRetries db))"
    using memqr.ReloadPendingRetries_queue [of ft maxRetries db s] by blast
  let ?rows = "sort_key next_retry_at (filter (pending maxRetries) (achievement_retry_queue db))"
  have "mset ?rows = {#r \<in># mset (achievement_retry_queue db). resolved_at r = None \<and> retry_count r < maxRetries#}"
    by (simp add: pending_def [abs_def])
  then show ?thesis using False s' by (simp add: pending_items_def) (intro exI [of _ ?rows], simp)
qed


definition demo_batch :: "string option \<Rightarrow> batch_env" where
  "demo_batch a = \<lparr>b_fault = (\<lambda>_ _. False), b_now = (\<lambda>_. 60 * second), b_sqlnow = (\<lambda>_. 60), b_steam = (\<lambda>_ _ _. a)\<rparr>"

definition demo_retry_db :: database where
  "demo_retry_db = empty_db\<lparr>
     players := [\<lparr>p_id = ''p'', steam_id = ''7656'', created_at = 0, last_login = Some 0\<rparr>],
     player_achievements := [\<lparr>ach_player = ''p'', achievement_id = ''A'', unlocked_at = 5, steam_synced = False\<rparr>],
     achievement_retry_queue := [\<lparr>rq_id = ''q'', rq_player = ''p'', rq_achievement = ''A'', retry_count = 0,
        last_error = Some ''down'', next_retry_at = 5, resolved_at = None\<rparr>]\<rparr>"


text \<open>
  C9. When Steam accepts again, one batch after the boot settles everything that is pending: the queue is
  empty, no pending row is left, and the achievement of each row that was pending is marked synchronised.
\<close>

theorem recovery_settles_everything:
  assumes "accepts env" and "\<not> ft 0" and "\<not> ft 1"
    and "\<forall>r \<in> set (achievement_retry_queue db). pending (w_maxRetries w) r \<longrightarrow> has_player db (rq_player r) \<and> CHR '':'' \<notin> set (rq_player r)"
  shows "\<exists>n s1 s2 db'. ReloadPendingRetries mem_ops ft (w_maxRetries w) db s = Some (Inr n, s1) \<and>
    processBatch mem_ops w env s1 db = Some (s2, db') \<and> lists s2 retryQueue = [] \<and>
    (\<forall>r \<in> set (achievement_retry_queue db). pending (w_maxRetries w) r \<longrightarrow> settled (rq_player r) (rq_achievement r) db')"
proof -
  let ?m = "w_maxRetries w"
  define keys where "keys = map (\<lambda>r. (rq_player r, rq_achievement r))
    (sort_key next_retry_at (filter (pending ?m) (achievement_retry_queue db)))"
  have items: "pending_items ?m db = map (\<lambda>(pid, ach). retry_item pid ach) keys"
    by (simp add: pending_items_def keys_def comp_def)
  have ok: "\<forall>(pid, ach) \<in> set keys. has_player db pid \<and> CHR '':'' \<notin> set pid" using assms(4) by (auto simp: keys_def)
  obtain s1 where s1: "ReloadPendingRetries mem_ops ft ?m db s = Some (Inr (length (pending_items ?m db)), s1)"
    "lists s1 = (lists s)(retryQueue := rev (pending_items ?m db))"
    using memqr.ReloadPendingRetries_queue [OF assms(2,3)] by blast
  then have "rev (lists s1 retryQueue) = pending_items ?m db" by simp
  from memqr.processBatch_items [where w = w and env = env and db = db, OF this] obtain s2 where
    s2: "processBatch mem_ops w env s1 db = Some (s2, snd (batch_items w env 0 (pending_items ?m db) db))"
      "lists s2 = (lists s1)(retryQueue := rev (fst (batch_items w env 0 (pending_items ?m db) db)))" by blast
  note acc = batch_items_accepted [where w = w and i = 0, OF assms(1) ok, folded items]
  have "settled (rq_player r) (rq_achievement r) (snd (batch_items w env 0 (pending_items ?m db) db))"
    if "r \<in> set (achievement_retry_queue db)" "pending ?m r" for r
    by (rule acc(2)) (use that in \<open>auto simp: keys_def\<close>)
  with s1(1) s2 acc(1) show ?thesis by auto
qed

theorem recovery_settles_everything_witness:
  "\<exists>n s1 s2 db'. ReloadPendingRetries mem_ops (\<lambda>_. False) 10 demo_retry_db NewMemStore = Some (Inr n, s1) \<and>
     processBatch mem_ops NewWorker (demo_batch None) s1 demo_retry_db = Some (s2, db') \<and> settled ''p'' ''A'' db'"
proof -
  have m: "w_maxRetries NewWorker = 10" by (simp add: NewWorker_def DefaultMaxRetries_def)
  have "accepts (demo_batch None)" by (simp add: accepts_def demo_batch_def)
  moreover have "\<forall>r \<in> set (achievement_retry_queue demo_retry_db). pending 10 r \<longrightarrow>
      has_player demo_retry_db (rq_player r) \<and> CHR '':'' \<notin> set (rq_player r)"
    by (simp add: demo_retry_db_def has_player_def)
  ultimately obtain n s1 s2 db' where
    "ReloadPendingRetries mem_ops (\<lambda>_. False) 10 demo_retry_db NewMemStore = Some (Inr n, s1)"
    "processBatch mem_ops NewWorker (demo_batch None) s1 demo_retry_db = Some (s2, db')"
    "\<forall>r \<in> set (achievement_retry_queue demo_retry_db). pending 10 r \<longrightarrow> settled (rq_player r) (rq_achievement r) db'"
    using recovery_settles_everything [where ft = "\<lambda>_. False" and w = NewWorker and env = "demo_batch None"
      and db = demo_retry_db and s = NewMemStore] unfolding m by blast
  then show ?thesis by (auto simp: demo_retry_db_def pending_def)
qed

section \<open>A retry that is dropped\<close>

text \<open>
  \<open>enqueueRetry\<close> queues the item before it inserts the row. A batch between the two calls finds no row for
  the item, drops it, and the row that is then inserted is in no queue until the next boot.
\<close>

theorem retry_row_without_item:
  "\<exists>s2 db1. processBatch mem_ops NewWorker (demo_batch (Some ''down''))
      (snd (MemStore_LPush retryQueue (retry_item ''p'' ''A'') NewMemStore)) (demo_retry_db\<lparr>achievement_retry_queue := []\<rparr>) = Some (s2, db1) \<and>
    lists s2 retryQueue = [] \<and>
    pending_items DefaultMaxRetries (insert_retry False 6 ''q'' ''p'' ''A'' ''down'' db1) = [retry_item ''p'' ''A'']"
proof -
  let ?s = "snd (MemStore_LPush retryQueue (retry_item ''p'' ''A'') NewMemStore)"
  let ?db = "demo_retry_db\<lparr>achievement_retry_queue := []\<rparr>"
  let ?b = "batch_items NewWorker (demo_batch (Some ''down'')) 0 [retry_item ''p'' ''A''] ?db"
  have "rev (lists ?s retryQueue) = [retry_item ''p'' ''A'']" by (simp add: MemStore_LPush_def NewMemStore_def)
  from memqr.processBatch_items [where w = NewWorker and env = "demo_batch (Some ''down'')" and db = ?db, OF this]
  obtain s2 where "processBatch mem_ops NewWorker (demo_batch (Some ''down'')) ?s ?db = Some (s2, snd ?b)"
    "lists s2 retryQueue = rev (fst ?b)" by auto
  moreover have "fst ?b = []" by code_simp
  moreover have "pending_items DefaultMaxRetries (insert_retry False 6 ''q'' ''p'' ''A'' ''down'' (snd ?b)) = [retry_item ''p'' ''A'']"
    by code_simp
  ultimately show ?thesis by simp
qed

end
