(* ===== verification/Middleware.thy ===== *)
theory Middleware
  imports Auth
begin

text \<open>
  The middleware of the router (\<open>internal/middleware\<close>): the two checks of a bearer token, the rate
  limiter on the key-value store, the recovery from panics and the level of the request line. Parameters:
  the JWT library's parser, the address that gin finds for a client. The locale \<open>kv_counter\<close> says what
  the limiter relies on.
\<close>

section \<open>The request\<close>

text \<open>
  What the middleware reads and writes of gin's context. \<open>c_fullPath\<close> is the pattern of the route, the
  empty string when there is none; \<open>c_authorization\<close> is the header, the empty string when it is missing.
\<close>

record gin_ctx =
  c_method :: string
  c_fullPath :: string
  c_clientIP :: string
  c_authorization :: string
  c_player :: "string option"
  c_jti :: "string option"

text \<open>A middleware aborts with an answer or passes the context on.\<close>

type_synonym 'a handled = "'a answer + gin_ctx"

abbreviation unauthorized :: "'a answer" where
  "unauthorized \<equiv> Reject 401 ''UNAUTHORIZED''"

section \<open>Bearer tokens\<close>

text \<open>\<open>strings.SplitN(h, " ", 2)\<close> has two parts exactly when there is a space.\<close>

definition bearerToken :: "gin_ctx \<Rightarrow> string option" where
  "bearerToken c =
     (let h = c_authorization c in
      if h = [] then None
      else case dropWhile (\<lambda>x. x \<noteq> CHR '' '') h of
             [] \<Rightarrow> None
           | _ # rest \<Rightarrow> if takeWhile (\<lambda>x. x \<noteq> CHR '' '') h \<noteq> ''Bearer'' \<or> rest = [] then None else Some rest)"

text \<open>
  \<open>jwt.ParseWithClaims\<close> is the parameter \<open>parse\<close>: it gets the function that picks the key for the
  method in the token's header, and returns the claims of a token with a good signature and times.
\<close>

datatype signing_method = SigningMethodRSA string | OtherMethod string

type_synonym 'k jwt_parser = "(signing_method \<Rightarrow> 'k option) \<Rightarrow> string \<Rightarrow> jwt_claims option"

definition keyfunc :: "'k \<Rightarrow> signing_method \<Rightarrow> 'k option" where
  "keyfunc pubKey m = (case m of SigningMethodRSA _ \<Rightarrow> Some pubKey | OtherMethod _ \<Rightarrow> None)"

definition JWTSignatureAuth :: "'k jwt_parser \<Rightarrow> 'k \<Rightarrow> gin_ctx \<Rightarrow> 'a handled" where
  "JWTSignatureAuth parse pubKey c =
     (case bearerToken c of
        None \<Rightarrow> Inl unauthorized
      | Some tok \<Rightarrow>
          (case parse (keyfunc pubKey) tok of
             None \<Rightarrow> Inl unauthorized
           | Some claims \<Rightarrow> Inr (c\<lparr>c_player := Some (cl_PlayerID claims), c_jti := Some (cl_ID claims)\<rparr>)))"

definition JWTAuth :: "'k jwt_parser \<Rightarrow> 'k \<Rightarrow> 's kv_ops \<Rightarrow> int \<Rightarrow> gin_ctx \<Rightarrow> 's \<Rightarrow> 'a handled \<times> 's" where
  "JWTAuth parse pubKey ops t c s =
     (case bearerToken c of
        None \<Rightarrow> (Inl unauthorized, s)
      | Some tok \<Rightarrow>
          (case parse (keyfunc pubKey) tok of
             None \<Rightarrow> (Inl unauthorized, s)
           | Some claims \<Rightarrow>
               (case kv_get ops t (session_key (cl_ID claims)) s of
                  (Inl NotFound, s1) \<Rightarrow> (Inl unauthorized, s1)
                | (Inl KvFail, s1) \<Rightarrow> (Inl unavailable, s1)
                | (Inr _, s1) \<Rightarrow>
                    (Inr (c\<lparr>c_player := Some (cl_PlayerID claims), c_jti := Some (cl_ID claims)\<rparr>), s1))))"

section \<open>The rate limiter\<close>

record rl_policy =
  rl_limit :: int
  rl_ipBased :: bool

definition rlPolicies :: "string \<Rightarrow> rl_policy option" where
  "rlPolicies = map_of
     [(''POST:/api/v1/auth/steam'', \<lparr>rl_limit = 10, rl_ipBased = True\<rparr>),
      (''POST:/api/v1/gacha/pull'', \<lparr>rl_limit = 5, rl_ipBased = False\<rparr>),
      (''POST:/api/v1/player/sync'', \<lparr>rl_limit = 4, rl_ipBased = False\<rparr>),
      (''POST:/api/v1/achievement/unlock'', \<lparr>rl_limit = 20, rl_ipBased = False\<rparr>)]"

definition defaultPolicy :: rl_policy where
  "defaultPolicy = \<lparr>rl_limit = 60, rl_ipBased = False\<rparr>"

definition policy_for :: "gin_ctx \<Rightarrow> rl_policy" where
  "policy_for c = (case rlPolicies (c_method c @ '':'' @ c_fullPath c) of None \<Rightarrow> defaultPolicy | Some p \<Rightarrow> p)"

definition resolveIdentifier :: "gin_ctx \<Rightarrow> bool \<Rightarrow> string" where
  "resolveIdentifier c ipBased =
     (if ipBased then c_clientIP c
      else case c_player c of
             Some pid \<Rightarrow> if pid \<noteq> [] then pid else c_clientIP c
           | None \<Rightarrow> c_clientIP c)"

definition rateLimitWindow :: int where
  "rateLimitWindow = 60 * second"

definition rl_key :: "string \<Rightarrow> string \<Rightarrow> string \<Rightarrow> string" where
  "rl_key ident meth path = ''ratelimit:'' @ ident @ '':'' @ meth @ '':'' @ path"

text \<open>The failing re-arm drops the key; both errors are only logged.\<close>

definition incrRateLimit :: "'s kv_ops \<Rightarrow> clock \<Rightarrow> string \<Rightarrow> int \<Rightarrow> 's \<Rightarrow> int kv_result \<times> 's" where
  "incrRateLimit ops clk key window s =
     (case kv_setnx ops (clk 0) key ''1'' window s of
        (Inl e, s1) \<Rightarrow> (Inl e, s1)
      | (Inr ok, s1) \<Rightarrow>
          if ok then (Inr 1, s1)
          else (case kv_incrby ops (clk 1) key 1 s1 of
             (Inl e, s2) \<Rightarrow> (Inl e, s2)
           | (Inr count, s2) \<Rightarrow>
               if count = 1 then
                 (case kv_expire ops (clk 2) key window s2 of
                    (Inl _, s3) \<Rightarrow> (Inr count, snd (kv_del ops [key] s3))
                  | (Inr _, s3) \<Rightarrow> (Inr count, s3))
               else (Inr count, s2)))"

definition RateLimiter :: "'s kv_ops \<Rightarrow> clock \<Rightarrow> gin_ctx \<Rightarrow> 's \<Rightarrow> 'a handled \<times> 's" where
  "RateLimiter ops clk c s =
     (if c_fullPath c = [] then (Inr c, s)
      else
        let policy = policy_for c;
            key = rl_key (resolveIdentifier c (rl_ipBased policy)) (c_method c) (c_fullPath c)
        in case incrRateLimit ops clk key rateLimitWindow s of
             (Inl _, s1) \<Rightarrow> (Inr c, s1)
           | (Inr count, s1) \<Rightarrow>
               if count > rl_limit policy then (Inl (Reject 429 ''RATE_LIMIT_EXCEEDED''), s1) else (Inr c, s1))"

section \<open>Recovery and the request line\<close>

text \<open>
  A recovered panic: a value that is no error, or an error with its chain of wrapped errors, as
  \<open>errors.Is\<close> walks it.
\<close>

datatype sys_error = EPIPE | ECONNRESET | ErrAbortHandler | OtherError string

datatype panic = PanicValue string | PanicError "sys_error list"

definition isBrokenPipe :: "panic \<Rightarrow> bool" where
  "isBrokenPipe rec =
     (case rec of PanicValue _ \<Rightarrow> False
      | PanicError chain \<Rightarrow> EPIPE \<in> set chain \<or> ECONNRESET \<in> set chain \<or> ErrAbortHandler \<in> set chain)"

text \<open>
  What the client gets of a handler: the handler's answer when it returns; after a panic what was already
  written (\<open>Some a\<close>), nothing on a dead connection, or a structured 500.
\<close>

datatype 'a run_result = Returns 'a | Panics panic "'a option"

definition Recovery :: "'a answer run_result \<Rightarrow> 'a answer option" where
  "Recovery r =
     (case r of
        Returns a \<Rightarrow> Some a
      | Panics rec written \<Rightarrow>
          if isBrokenPipe rec then written
          else case written of Some a \<Rightarrow> Some a | None \<Rightarrow> Some internal_error)"

datatype level = InfoLevel | WarnLevel | ErrorLevel

definition RequestLogger_level :: "int \<Rightarrow> level" where
  "RequestLogger_level status = (if status \<ge> 500 then ErrorLevel else if status \<ge> 400 then WarnLevel else InfoLevel)"

end
