(* ===== verification/MiddlewareProps.thy ===== *)
theory MiddlewareProps
  imports Middleware
begin

text \<open>
  What the middleware promises: within a window of the limiter exactly the first requests of a client up
  to the limit of the route pass, and in no minute more than twice that many; a bearer token passes only
  while its session is live; a panic is answered, but not on a dead connection.
\<close>

section \<open>Counters\<close>

definition alive :: "int \<Rightarrow> (string \<times> int option) option \<Rightarrow> bool" where
  "alive t e = (case e of None \<Rightarrow> False | Some (_, None) \<Rightarrow> True | Some (_, Some d) \<Rightarrow> t \<le> d)"

lemma alive_simps [simp]:
  "\<not> alive t None" "alive t (Some (v, None))" "alive t (Some (v, Some d)) \<longleftrightarrow> t \<le> d"
  by (simp_all add: alive_def)

lemma dead_mono: "\<not> alive t e \<Longrightarrow> t \<le> t' \<Longrightarrow> \<not> alive t' e"
  by (auto simp: alive_def split: option.splits)

text \<open>
  The contract of the counter operations. \<open>entry s k\<close> is the text that is stored under a key, with its
  deadline; at the deadline itself the entry still counts.
\<close>

locale kv_counter =
  fixes ops :: "'s kv_ops"
    and entry :: "'s \<Rightarrow> string \<Rightarrow> (string \<times> int option) option"
  assumes setnx_free: "\<not> alive t (entry s k) \<Longrightarrow> 0 < ttl \<Longrightarrow>
      \<exists>s'. kv_setnx ops t k v ttl s = (Inr True, s') \<and> entry s' = (entry s)(k \<mapsto> (v, Some (t + ttl)))"
    and setnx_held: "alive t (entry s k) \<Longrightarrow>
      \<exists>s'. kv_setnx ops t k v ttl s = (Inr False, s') \<and> entry s' = entry s"
    and incr_held: "entry s k = Some (show_int n, d) \<Longrightarrow> alive t (entry s k) \<Longrightarrow> - (2 ^ 63) \<le> n \<Longrightarrow> n < 2 ^ 63 \<Longrightarrow>
      - (2 ^ 63) \<le> n + i \<Longrightarrow> n + i < 2 ^ 63 \<Longrightarrow>
      \<exists>s'. kv_incrby ops t k i s = (Inr (n + i), s') \<and> entry s' = (entry s)(k \<mapsto> (show_int (n + i), d))"
begin

text \<open>One request on a key: a new window, or the next number of the running one.\<close>

lemma incrRateLimit_free:
  assumes "\<not> alive t (entry s k)" and "0 < window"
  shows "\<exists>s'. incrRateLimit ops (\<lambda>_. t) k window s = (Inr 1, s') \<and> entry s' = (entry s)(k \<mapsto> (show_int 1, Some (t + window)))"
proof -
  have "show_int 1 = ''1''" by code_simp
  then show ?thesis using setnx_free [OF assms, of "''1''"] by (auto simp: incrRateLimit_def)
qed

lemma incrRateLimit_held:
  assumes "entry s k = Some (show_int n, Some d)" and "t \<le> d" and "1 \<le> n" and "n + 1 < 2 ^ 63"
  shows "\<exists>s'. incrRateLimit ops (\<lambda>_. t) k window s = (Inr (n + 1), s') \<and> entry s' = (entry s)(k \<mapsto> (show_int (n + 1), Some d))"
proof -
  obtain s1 where s1: "kv_setnx ops t k ''1'' window s = (Inr False, s1)" "entry s1 = entry s"
    using setnx_held [of t s k "''1''" window] assms(1,2) by auto
  obtain s2 where s2: "kv_incrby ops t k 1 s1 = (Inr (n + 1), s2)" "entry s2 = (entry s1)(k \<mapsto> (show_int (n + 1), Some d))"
    using incr_held [of s1 k n "Some d" t 1] s1(2) assms by auto
  show ?thesis using s1 s2 assms(3) by (simp add: incrRateLimit_def)
qed

end

section \<open>The limiter over a run of requests\<close>

definition ctx_key :: "gin_ctx \<Rightarrow> string" where
  "ctx_key c = rl_key (resolveIdentifier c (rl_ipBased (policy_for c))) (c_method c) (c_fullPath c)"

definition ctx_limit :: "gin_ctx \<Rightarrow> int" where
  "ctx_limit c = rl_limit (policy_for c)"

lemma ctx_limit_pos: "1 \<le> ctx_limit c"
proof (cases "rlPolicies (c_method c @ '':'' @ c_fullPath c)")
  case None
  then show ?thesis by (simp add: ctx_limit_def policy_for_def defaultPolicy_def)
next
  case (Some p)
  then have "p \<in> {\<lparr>rl_limit = 10, rl_ipBased = True\<rparr>, \<lparr>rl_limit = 5, rl_ipBased = False\<rparr>,
      \<lparr>rl_limit = 4, rl_ipBased = False\<rparr>, \<lparr>rl_limit = 20, rl_ipBased = False\<rparr>}"
    unfolding rlPolicies_def by (drule_tac map_of_SomeD) auto
  with Some show ?thesis by (auto simp: ctx_limit_def policy_for_def)
qed

text \<open>The requests of all clients in the order in which they arrive, each with its time; who passes.\<close>

fun limiter_run :: "'s kv_ops \<Rightarrow> (gin_ctx \<times> int) list \<Rightarrow> 's \<Rightarrow> bool list" where
  "limiter_run ops [] s = []"
| "limiter_run ops ((c, t) # reqs) s =
     (case RateLimiter ops (\<lambda>_. t) c s :: unit handled \<times> 's of
        (r, s1) \<Rightarrow> (case r of Inl _ \<Rightarrow> False | Inr _ \<Rightarrow> True) # limiter_run ops reqs s1)"

lemma RateLimiter_count:
  assumes "c_fullPath c \<noteq> []" and "incrRateLimit ops clk (ctx_key c) rateLimitWindow s = (Inr n, s1)"
  shows "RateLimiter ops clk c s = (if n > ctx_limit c then Inl (Reject 429 ''RATE_LIMIT_EXCEEDED'') else Inr c, s1)"
  using assms by (simp add: RateLimiter_def Let_def ctx_key_def ctx_limit_def)

lemma window_pos: "0 < rateLimitWindow"
  by (simp add: rateLimitWindow_def)

text \<open>The number of requests on a key, and those of a client on a route that pass in an interval.\<close>

definition uses :: "string \<Rightarrow> (gin_ctx \<times> int) list \<Rightarrow> nat" where
  "uses k reqs = length (filter (\<lambda>(c, t). ctx_key c = k) reqs)"

lemma uses_simps [simp]:
  "uses k [] = 0" "uses k ((c, t) # reqs) = (if ctx_key c = k then Suc (uses k reqs) else uses k reqs)"
  "uses k (xs @ ys) = uses k xs + uses k ys"
  by (simp_all add: uses_def)

lemma uses_le: "uses k reqs \<le> length reqs"
  by (simp add: uses_def)

definition same_client :: "gin_ctx \<Rightarrow> gin_ctx \<Rightarrow> bool" where
  "same_client c d \<longleftrightarrow> ctx_key c = ctx_key d \<and> ctx_limit c = ctx_limit d"

definition passes_in :: "int \<Rightarrow> gin_ctx \<Rightarrow> (gin_ctx \<times> int) list \<Rightarrow> bool list \<Rightarrow> nat" where
  "passes_in a c reqs bs =
     length (filter (\<lambda>((d, t), b). b \<and> same_client d c \<and> a \<le> t \<and> t \<le> a + rateLimitWindow) (zip reqs bs))"

lemma passes_in_simps [simp]:
  "passes_in a c [] bs = 0"
  "passes_in a c ((d, t) # reqs) (b # bs) =
     (if b \<and> same_client d c \<and> a \<le> t \<and> t \<le> a + rateLimitWindow then 1 else 0) + passes_in a c reqs bs"
  by (simp_all add: passes_in_def)

lemma passes_in_late:
  "\<forall>(d, t) \<in> set reqs. a + rateLimitWindow < t \<Longrightarrow> passes_in a c reqs bs = 0"
  by (auto simp: passes_in_def filter_empty_conv dest!: set_zip_leftD)

text \<open>Every running counter has room for \<open>m\<close> more requests.\<close>

definition counted :: "('s \<Rightarrow> string \<Rightarrow> (string \<times> int option) option) \<Rightarrow> int \<Rightarrow> nat \<Rightarrow> 's \<Rightarrow> bool" where
  "counted entry t m s \<longleftrightarrow> (\<forall>k. \<not> alive t (entry s k) \<or>
     (\<exists>n d. entry s k = Some (show_int n, Some d) \<and> 1 \<le> n \<and> n + int m < 2 ^ 63))"

context kv_counter
begin

text \<open>One request: what it does to the entries, and whether it passes.\<close>

lemma limiter_free:
  assumes "c_fullPath c \<noteq> []" and "\<not> alive t (entry s (ctx_key c))"
  obtains s1 where "limiter_run ops ((c, t) # reqs) s = True # limiter_run ops reqs s1"
    "entry s1 = (entry s)(ctx_key c \<mapsto> (show_int 1, Some (t + rateLimitWindow)))"
proof -
  obtain s1 where s1: "incrRateLimit ops (\<lambda>_. t) (ctx_key c) rateLimitWindow s = (Inr 1, s1)"
    "entry s1 = (entry s)(ctx_key c \<mapsto> (show_int 1, Some (t + rateLimitWindow)))"
    using incrRateLimit_free [OF assms(2) window_pos] by blast
  have "\<not> ctx_limit c < 1" using ctx_limit_pos [of c] by simp
  with that s1 show thesis by (simp add: RateLimiter_count [OF assms(1) s1(1)])
qed

lemma limiter_held:
  assumes "c_fullPath c \<noteq> []" and "entry s (ctx_key c) = Some (show_int n, Some d)" and "t \<le> d" and "1 \<le> n" and "n + 1 < 2 ^ 63"
  obtains s1 where "limiter_run ops ((c, t) # reqs) s = (n + 1 \<le> ctx_limit c) # limiter_run ops reqs s1"
    "entry s1 = (entry s)(ctx_key c \<mapsto> (show_int (n + 1), Some d))"
proof -
  obtain s1 where s1: "incrRateLimit ops (\<lambda>_. t) (ctx_key c) rateLimitWindow s = (Inr (n + 1), s1)"
    "entry s1 = (entry s)(ctx_key c \<mapsto> (show_int (n + 1), Some d))"
    using incrRateLimit_held [OF assms(2-5)] by blast
  show thesis by (rule that [OF _ s1(2)]) (simp add: RateLimiter_count [OF assms(1) s1(1)])
qed

text \<open>Within the window that the first request on a key opens, requests are numbered.\<close>

lemma limiter_numbers:
  assumes "\<forall>(c, t) \<in> set reqs. c_fullPath c \<noteq> [] \<and> t0 \<le> t \<and> t \<le> t0 + rateLimitWindow"
    and "\<And>k. if uses k before = 0 then \<not> alive t0 (entry s k)
        else \<exists>d \<ge> t0 + rateLimitWindow. entry s k = Some (show_int (int (uses k before)), Some d)"
    and "int (length before + length reqs) < 2 ^ 63 - 1" and "i < length reqs"
  shows "limiter_run ops reqs s ! i \<longleftrightarrow>
    int (uses (ctx_key (fst (reqs ! i))) (before @ take (Suc i) reqs)) \<le> ctx_limit (fst (reqs ! i))"
  using assms
proof (induction reqs arbitrary: before s i)
  case (Cons r reqs)
  obtain c t where r: "r = (c, t)" by fastforce
  let ?k = "ctx_key c"
  have c: "c_fullPath c \<noteq> []" "t0 \<le> t" "t \<le> t0 + rateLimitWindow" using Cons.prems(1) r by simp_all
  have len: "int (uses ?k before) < 2 ^ 63 - 1"
    using Cons.prems(3) uses_le [of ?k before] by simp
  obtain s1 d where s1: "limiter_run ops (r # reqs) s = (int (Suc (uses ?k before)) \<le> ctx_limit c) # limiter_run ops reqs s1"
    "entry s1 = (entry s)(?k \<mapsto> (show_int (int (Suc (uses ?k before))), Some d))" "t0 + rateLimitWindow \<le> d"
  proof (cases "uses ?k before = 0")
    case True
    then have "\<not> alive t (entry s ?k)" using Cons.prems(2) [of ?k] c(2) dead_mono by fastforce
    then obtain s1 where "limiter_run ops (r # reqs) s = True # limiter_run ops reqs s1"
      "entry s1 = (entry s)(?k \<mapsto> (show_int 1, Some (t + rateLimitWindow)))" unfolding r by (rule limiter_free [OF c(1)])
    then show thesis using that [of s1 "t + rateLimitWindow"] True ctx_limit_pos [of c] c(2) by simp
  next
    case False
    then obtain d where d: "d \<ge> t0 + rateLimitWindow" "entry s ?k = Some (show_int (int (uses ?k before)), Some d)"
      using Cons.prems(2) [of ?k] by auto
    obtain s1 where "limiter_run ops (r # reqs) s = (int (uses ?k before) + 1 \<le> ctx_limit c) # limiter_run ops reqs s1"
      "entry s1 = (entry s)(?k \<mapsto> (show_int (int (uses ?k before) + 1), Some d))"
      unfolding r by (rule limiter_held [where t = t and reqs = reqs, OF c(1) d(2)]) (use c(3) d(1) False len in linarith)+
    then show thesis using that [of s1 d] d(1) by (simp add: algebra_simps)
  qed
  show ?case
  proof (cases i)
    case 0
    then show ?thesis using s1(1) r by simp
  next
    case (Suc j)
    have inv: "if uses k (before @ [r]) = 0 then \<not> alive t0 (entry s1 k)
        else \<exists>d \<ge> t0 + rateLimitWindow. entry s1 k = Some (show_int (int (uses k (before @ [r]))), Some d)" for k
      using s1(2,3) Cons.prems(2) [of k] r by (cases "k = ?k") auto
    have "limiter_run ops reqs s1 ! j \<longleftrightarrow>
      int (uses (ctx_key (fst (reqs ! j))) ((before @ [r]) @ take (Suc j) reqs)) \<le> ctx_limit (fst (reqs ! j))"
      by (rule Cons.IH [OF _ inv]) (use Cons.prems(1,3,4) Suc in simp_all)
    then show ?thesis using s1(1) Suc by simp
  qed
qed simp

text \<open>In no interval of the length of the window do more than two windows' worth of requests pass.\<close>

lemma limiter_step:
  assumes "c_fullPath c \<noteq> []" and "counted entry t (Suc m) s" and "int m < 2 ^ 63 - 1"
  obtains (free) s1 where "\<not> alive t (entry s (ctx_key c))" "counted entry t m s1"
      "limiter_run ops ((c, t) # reqs) s = True # limiter_run ops reqs s1"
      "entry s1 = (entry s)(ctx_key c \<mapsto> (show_int 1, Some (t + rateLimitWindow)))"
  | (held) s1 n d where "t \<le> d" "entry s (ctx_key c) = Some (show_int n, Some d)" "1 \<le> n" "counted entry t m s1"
      "limiter_run ops ((c, t) # reqs) s = (n + 1 \<le> ctx_limit c) # limiter_run ops reqs s1"
      "entry s1 = (entry s)(ctx_key c \<mapsto> (show_int (n + 1), Some d))"
proof (cases "alive t (entry s (ctx_key c))")
  case False
  then obtain s1 where s1: "limiter_run ops ((c, t) # reqs) s = True # limiter_run ops reqs s1"
    "entry s1 = (entry s)(ctx_key c \<mapsto> (show_int 1, Some (t + rateLimitWindow)))" by (rule limiter_free [OF assms(1)])
  have "counted entry t m s1" unfolding counted_def
  proof
    fix k
    show "\<not> alive t (entry s1 k) \<or> (\<exists>n d. entry s1 k = Some (show_int n, Some d) \<and> 1 \<le> n \<and> n + int m < 2 ^ 63)"
    proof (cases "k = ctx_key c")
      case True
      then show ?thesis using assms(3)
        by (intro disjI2 exI [of _ 1] exI [of _ "t + rateLimitWindow"]) (simp add: s1(2))
    next
      case False
      then have "entry s1 k = entry s k" by (simp add: s1(2))
      then show ?thesis using assms(2) unfolding counted_def by fastforce
    qed
  qed
  with False s1 show thesis by (rule_tac free)
next
  case True
  then obtain n d where n: "entry s (ctx_key c) = Some (show_int n, Some d)" "1 \<le> n" "n + int (Suc m) < 2 ^ 63"
    using assms(2) unfolding counted_def by blast
  then have d: "t \<le> d" using True by simp
  obtain s1 where s1: "limiter_run ops ((c, t) # reqs) s = (n + 1 \<le> ctx_limit c) # limiter_run ops reqs s1"
    "entry s1 = (entry s)(ctx_key c \<mapsto> (show_int (n + 1), Some d))"
    by (rule limiter_held [OF assms(1) n(1) d n(2)]) (use n in simp_all)
  have "counted entry t m s1" unfolding counted_def
  proof
    fix k
    show "\<not> alive t (entry s1 k) \<or> (\<exists>n d. entry s1 k = Some (show_int n, Some d) \<and> 1 \<le> n \<and> n + int m < 2 ^ 63)"
    proof (cases "k = ctx_key c")
      case True
      then show ?thesis using n by (intro disjI2 exI [of _ "n + 1"] exI [of _ d]) (simp add: s1(2))
    next
      case False
      then have "entry s1 k = entry s k" by (simp add: s1(2))
      then show ?thesis using assms(2) unfolding counted_def by fastforce
    qed
  qed
  with d n s1 show thesis by (rule_tac held)
qed

lemma passes_from:
  assumes "\<forall>(e, t) \<in> set reqs. c_fullPath e \<noteq> [] \<and> a \<le> t \<and> u \<le> t" and "sorted (map snd reqs)"
    and "int (length reqs) < 2 ^ 63 - 1" and "counted entry u (length reqs) s"
  shows "(\<forall>n d. entry s (ctx_key c) = Some (show_int n, Some d) \<longrightarrow> 1 \<le> n \<longrightarrow>
      int (passes_in a c reqs (limiter_run ops reqs s)) \<le>
        max 0 (ctx_limit c - n) + (if a + rateLimitWindow \<le> d then 0 else ctx_limit c)) \<and>
    ((\<forall>(e, t) \<in> set reqs. \<not> alive t (entry s (ctx_key c))) \<longrightarrow>
      int (passes_in a c reqs (limiter_run ops reqs s)) \<le> ctx_limit c)"
  using assms
proof (induction reqs arbitrary: s u)
  case Nil
  show ?case using ctx_limit_pos [of c] by simp
next
  case (Cons r reqs)
  obtain e t where r: "r = (e, t)" by fastforce
  have e: "c_fullPath e \<noteq> []" "a \<le> t" "u \<le> t" and later: "\<forall>(e', t') \<in> set reqs. t \<le> t'"
    using Cons.prems(1,2) r by auto
  have cnt: "counted entry t (Suc (length reqs)) s"
    using Cons.prems(4) dead_mono [OF _ e(3)] unfolding counted_def by fastforce
  have len: "int (length reqs) < 2 ^ 63 - 1" using Cons.prems(3) by simp
  have rest: "(\<forall>n d. entry s1 (ctx_key c) = Some (show_int n, Some d) \<longrightarrow> 1 \<le> n \<longrightarrow>
      int (passes_in a c reqs (limiter_run ops reqs s1)) \<le>
        max 0 (ctx_limit c - n) + (if a + rateLimitWindow \<le> d then 0 else ctx_limit c)) \<and>
    ((\<forall>(e, t) \<in> set reqs. \<not> alive t (entry s1 (ctx_key c))) \<longrightarrow>
      int (passes_in a c reqs (limiter_run ops reqs s1)) \<le> ctx_limit c)" if "counted entry t (length reqs) s1" for s1
    by (rule Cons.IH [OF _ _ len that]) (use Cons.prems(1,2) later in auto)
  let ?p = "\<lambda>s. int (passes_in a c (r # reqs) (limiter_run ops (r # reqs) s))"
  let ?q = "\<lambda>s. int (passes_in a c reqs (limiter_run ops reqs s))"
  have dead: "?p s \<le> ctx_limit c" if d: "\<forall>(e, t) \<in> set (r # reqs). \<not> alive t (entry s (ctx_key c))"
    using e(1) cnt len
  proof (cases rule: limiter_step [where reqs = reqs])
    case (free s1)
    show ?thesis
    proof (cases "ctx_key e = ctx_key c")
      case True
      then have "entry s1 (ctx_key c) = Some (show_int 1, Some (t + rateLimitWindow))" using free(4) by simp
      then have "?q s1 \<le> max 0 (ctx_limit c - 1)" using rest [OF free(2)] e(2) by fastforce
      moreover have "?p s \<le> 1 + ?q s1" using free(3) r by simp
      ultimately show ?thesis using ctx_limit_pos [of c] by linarith
    next
      case False
      then have "?p s = ?q s1" "entry s1 (ctx_key c) = entry s (ctx_key c)" using free(3,4) r by (simp_all add: same_client_def)
      then show ?thesis using rest [OF free(2)] d by simp
    qed
  next
    case (held s1 n d')
    have ne: "ctx_key e \<noteq> ctx_key c" using held(1,2) d r by auto
    then have "?p s = ?q s1" "entry s1 (ctx_key c) = entry s (ctx_key c)" using held(5,6) r by (simp_all add: same_client_def)
    then show ?thesis using rest [OF held(4)] d by simp
  qed
  have "?p s \<le> max 0 (ctx_limit c - n) + (if a + rateLimitWindow \<le> d then 0 else ctx_limit c)"
    if n: "entry s (ctx_key c) = Some (show_int n, Some d)" "1 \<le> n" for n d
  proof (cases "d < t")
    case over: True
    show ?thesis
    proof (cases "a + rateLimitWindow \<le> d")
      case True
      have "passes_in a c (r # reqs) bs = 0" for bs
        by (rule passes_in_late) (use later over True r in fastforce)
      then show ?thesis using ctx_limit_pos [of c] by simp
    next
      case False
      have "\<forall>(e, t) \<in> set (r # reqs). \<not> alive t (entry s (ctx_key c))" using later over n r by fastforce
      from dead [OF this] False show ?thesis by simp
    qed
  next
    case in_window: False
    show ?thesis
      using e(1) cnt len
  proof (cases rule: limiter_step [where reqs = reqs])
      case (free s1)
      have ne: "ctx_key e \<noteq> ctx_key c" using free(1) n in_window by auto
      then have "?p s = ?q s1" "entry s1 (ctx_key c) = entry s (ctx_key c)" using free(3,4) r by (simp_all add: same_client_def)
      then show ?thesis using rest [OF free(2)] n by simp
    next
      case (held s1 n' d')
      show ?thesis
      proof (cases "ctx_key e = ctx_key c")
        case True
        then have same: "show_int n' = show_int n" "d' = d" using held(2) n by simp_all
        then have "n' = n" using read_signed_show_int by (metis option.inject)
        then have "entry s1 (ctx_key c) = Some (show_int (n + 1), Some d)" using held(6) same True by simp
        then have q: "?q s1 \<le> max 0 (ctx_limit c - (n + 1)) + (if a + rateLimitWindow \<le> d then 0 else ctx_limit c)"
          using rest [OF held(4)] n(2) by simp
        have "?p s \<le> (if n + 1 \<le> ctx_limit c then 1 else 0) + ?q s1"
          using held(5) r \<open>n' = n\<close> by (auto simp: same_client_def)
        with q show ?thesis by (auto simp: max_def split: if_splits)
      next
        case False
        then have "?p s = ?q s1" "entry s1 (ctx_key c) = entry s (ctx_key c)" using held(5,6) r by (simp_all add: same_client_def)
        then show ?thesis using rest [OF held(4)] n by simp
      qed
    qed
  qed
  with dead show ?case by blast
qed

end

context kv_counter
begin

lemma passes_at_most:
  assumes "\<forall>(e, t) \<in> set reqs. c_fullPath e \<noteq> [] \<and> u \<le> t" and "sorted (map snd reqs)"
    and "int (length reqs) < 2 ^ 63 - 1" and "counted entry u (length reqs) s"
  shows "int (passes_in a c reqs (limiter_run ops reqs s)) \<le> 2 * ctx_limit c"
  using assms
proof (induction reqs arbitrary: s u)
  case Nil
  show ?case using ctx_limit_pos [of c] by simp
next
  case (Cons r reqs)
  obtain e t where r: "r = (e, t)" by fastforce
  have e: "c_fullPath e \<noteq> []" "u \<le> t" and later: "\<forall>(e', t') \<in> set reqs. t \<le> t'"
    using Cons.prems(1,2) r by auto
  have cnt: "counted entry t (Suc (length reqs)) s"
    using Cons.prems(4) dead_mono [OF _ e(2)] unfolding counted_def by fastforce
  have len: "int (length reqs) < 2 ^ 63 - 1" using Cons.prems(3) by simp
  show ?case
  proof (cases "t < a")
    case early: True
    obtain b s1 where s1: "limiter_run ops (r # reqs) s = b # limiter_run ops reqs s1" "counted entry t (length reqs) s1"
      using e(1) cnt len unfolding r
    proof (cases rule: limiter_step [where reqs = reqs])
      case free
      then show thesis using that r by blast
    next
      case held
      then show thesis using that r by blast
    qed
    have "int (passes_in a c reqs (limiter_run ops reqs s1)) \<le> 2 * ctx_limit c"
      by (rule Cons.IH [OF _ _ len s1(2)]) (use Cons.prems(1,2) later in auto)
    then show ?thesis using s1(1) early r by simp
  next
    case False
    have all: "\<forall>(e, t) \<in> set (r # reqs). c_fullPath e \<noteq> [] \<and> a \<le> t \<and> u \<le> t"
      using Cons.prems(1) later False r by fastforce
    note from_a = passes_from [OF all Cons.prems(2-4), of c]
    show ?thesis
    proof (cases "alive u (entry s (ctx_key c))")
      case True
      then obtain n d where n: "entry s (ctx_key c) = Some (show_int n, Some d)" "1 \<le> n"
        using Cons.prems(4) unfolding counted_def by blast
      then have "int (passes_in a c (r # reqs) (limiter_run ops (r # reqs) s)) \<le>
          max 0 (ctx_limit c - n) + (if a + rateLimitWindow \<le> d then 0 else ctx_limit c)" using from_a by blast
      then show ?thesis using n(2) ctx_limit_pos [of c] by (auto split: if_splits)
    next
      case False
      have "\<forall>(e, t) \<in> set (r # reqs). \<not> alive t (entry s (ctx_key c))"
        using Cons.prems(1) dead_mono [OF False] by fastforce
      then have "int (passes_in a c (r # reqs) (limiter_run ops (r # reqs) s)) \<le> ctx_limit c" using from_a by blast
      then show ?thesis using ctx_limit_pos [of c] by simp
    qed
  qed
qed

end

text \<open>The in-memory store keeps the contract.\<close>

definition mem_entry :: "mem_store \<Rightarrow> string \<Rightarrow> (string \<times> int option) option" where
  "mem_entry m k = map_option (\<lambda>e. (val e, expiresAt e)) (map_of (kv m) k)"

lemma alive_mem: "alive t (mem_entry m k) \<longleftrightarrow> (\<exists>e. map_of (kv m) k = Some e \<and> \<not> expired t e)"
  by (auto simp: alive_def mem_entry_def expired_def split: option.splits)

lemma mem_entry_update [simp]:
  "mem_entry (m\<lparr>kv := AList.update k e (kv m)\<rparr>) = (mem_entry m)(k \<mapsto> (val e, expiresAt e))"
  by (simp add: fun_eq_iff mem_entry_def)

lemma mem_entry_delete_update [simp]:
  "mem_entry (m\<lparr>kv := AList.update k e (AList.delete k (kv m))\<rparr>) = (mem_entry m)(k \<mapsto> (val e, expiresAt e))"
  by (simp add: fun_eq_iff mem_entry_def)

interpretation memc: kv_counter mem_ops mem_entry
proof (unfold_locales, goal_cases)
  case (1 t s k ttl v)
  then show ?case
    by (cases "map_of (kv s) k") (auto simp: alive_mem MemStore_SetNX_def getEntry_def new_entry_def)
next
  case (2 t s k v ttl)
  then show ?case by (auto simp: alive_mem MemStore_SetNX_def getEntry_def)
next
  case (3 s k n d t i)
  obtain e where e: "map_of (kv s) k = Some e" "\<not> expired t e" using 3(2) by (auto simp: alive_mem)
  with 3(1) have "val e = show_int n" "expiresAt e = d" by (simp_all add: mem_entry_def)
  then show ?case using e 3 by (simp add: MemStore_IncrBy_def getEntry_def parse_int64_show_int Let_def wrap64_id)
qed

section \<open>Properties\<close>


definition demo_ctx :: "string \<Rightarrow> gin_ctx" where
  "demo_ctx pid = \<lparr>c_method = ''POST'', c_fullPath = ''/api/v1/player/sync'', c_clientIP = ''10.0.0.1'', c_authorization = [],
     c_player = Some pid, c_jti = None\<rparr>"

lemma new_store_dead: "\<not> alive t (mem_entry NewMemStore k)"
  by (simp add: mem_entry_def NewMemStore_def)


text \<open>
  In no interval of 60 seconds do more requests of one client on one route pass than twice the limit
  of the route, wherever its windows start and whatever other clients send.
\<close>

theorem rate_limit_any_minute:
  assumes "\<forall>(e, t) \<in> set reqs. c_fullPath e \<noteq> [] \<and> t0 \<le> t" and "sorted (map snd reqs)"
    and "\<forall>k. \<not> alive t0 (mem_entry s k)" and "int (length reqs) < 2 ^ 63 - 1"
  shows "int (length (filter (\<lambda>((d, t), b). b \<and> same_client d c \<and> a \<le> t \<and> t \<le> a + rateLimitWindow)
    (zip reqs (limiter_run mem_ops reqs s)))) \<le> 2 * ctx_limit c"
proof -
  have "counted mem_entry t0 (length reqs) s" using assms(3) by (simp add: counted_def)
  from memc.passes_at_most [OF assms(1,2,4) this] show ?thesis unfolding passes_in_def .
qed

theorem rate_limit_any_minute_witness:
  "int (length (filter (\<lambda>((d, t), b). b \<and> same_client d (demo_ctx ''p'') \<and> 0 \<le> t \<and> t \<le> 0 + rateLimitWindow)
    (zip (replicate 20 (demo_ctx ''p'', 7)) (limiter_run mem_ops (replicate 20 (demo_ctx ''p'', 7)) NewMemStore)))) \<le> 2 * 4"
proof -
  let ?reqs = "replicate 20 (demo_ctx ''p'', 7 :: int)"
  have l: "ctx_limit (demo_ctx ''p'') = 4" by code_simp
  have "\<forall>(e, t) \<in> set ?reqs. c_fullPath e \<noteq> [] \<and> 7 \<le> t" by (simp add: demo_ctx_def)
  moreover have "sorted (map snd ?reqs)" by (simp add: numeral_eq_Suc)
  moreover have "\<forall>k. \<not> alive 7 (mem_entry NewMemStore k)" by (simp add: new_store_dead)
  moreover have "int (length ?reqs) < 2 ^ 63 - 1" by simp
  ultimately have "int (length (filter (\<lambda>((d, t), b). b \<and> same_client d (demo_ctx ''p'') \<and> 0 \<le> t \<and> t \<le> 0 + rateLimitWindow)
    (zip ?reqs (limiter_run mem_ops ?reqs NewMemStore)))) \<le> 2 * ctx_limit (demo_ctx ''p'')"
    by (rule rate_limit_any_minute [where c = "demo_ctx ''p''" and a = 0])
  then show ?thesis unfolding l .
qed

section \<open>Bearer tokens\<close>

text \<open>
  A request passes \<open>JWTAuth\<close> exactly when its token is good and the session that the token names is live,
  and then it acts for the player of the token.
\<close>

lemma JWTAuth_passes:
  "fst (JWTAuth parse pubKey mem_ops t c s) = Inr c' \<longleftrightarrow>
     (\<exists>tok claims. bearerToken c = Some tok \<and> parse (keyfunc pubKey) tok = Some claims \<and>
       mem_view s t (session_key (cl_ID claims)) \<noteq> None \<and>
       c' = c\<lparr>c_player := Some (cl_PlayerID claims), c_jti := Some (cl_ID claims)\<rparr>)"
proof (cases "bearerToken c")
  case None
  then show ?thesis by (simp add: JWTAuth_def)
next
  case tok: (Some tok)
  show ?thesis
  proof (cases "parse (keyfunc pubKey) tok")
    case None
    then show ?thesis using tok by (simp add: JWTAuth_def)
  next
    case (Some claims)
    obtain r s1 where g: "MemStore_Get t (session_key (cl_ID claims)) s = (r, s1)" by fastforce
    have r: "r = (case mem_view s t (session_key (cl_ID claims)) of None \<Rightarrow> Inl NotFound | Some v \<Rightarrow> Inr v)"
      using mem_get_eq [of t "session_key (cl_ID claims)" s] g by simp
    show ?thesis
      using tok Some g r by (cases "mem_view s t (session_key (cl_ID claims))") (auto simp: JWTAuth_def)
  qed
qed

text \<open>The panic answers.\<close>

lemma Recovery_answers:
  "Recovery (Returns a) = Some a"
  "\<not> isBrokenPipe rec \<Longrightarrow> Recovery (Panics rec written) = Some (case written of None \<Rightarrow> internal_error | Some a \<Rightarrow> a)"
  "isBrokenPipe rec \<Longrightarrow> Recovery (Panics rec written) = written"
  by (simp_all add: Recovery_def split: option.split)

end
