(* ===== verification/Config.thy ===== *)
theory Config
  imports SkinPool
begin

text \<open>
  The configuration from the environment (\<open>pkg/config/config.go\<close>) and the log level
  (\<open>pkg/logger/logger.go\<close>). \<open>getenv\<close> is the environment after \<open>godotenv.Load\<close>; it gives the empty
  string for a variable that is not set. The level parser of zerolog is a parameter.
\<close>

section \<open>The environment\<close>

record app_config =
  cfg_DBURL :: string
  cfg_RedisURL :: string
  cfg_SQLitePath :: string
  cfg_SteamAPIKey :: string
  cfg_SteamAppID :: string
  cfg_JWTPrivKey :: string
  cfg_ServerPort :: string
  cfg_AppEnv :: string
  cfg_LogLevel :: string
  cfg_TrustedProxies :: string
  cfg_DiagIntervalSecs :: int
  cfg_SkinsCSVPath :: string
  cfg_GameConfigXMLPath :: string

definition getEnvOrDefault :: "(string \<Rightarrow> string) \<Rightarrow> string \<Rightarrow> string \<Rightarrow> string" where
  "getEnvOrDefault getenv key def = (let v = getenv key in if v \<noteq> [] then v else def)"

text \<open>\<open>strconv.Atoi\<close> fails on a text that is no number and on one that is out of range.\<close>

definition getEnvInt :: "(string \<Rightarrow> string) \<Rightarrow> string \<Rightarrow> int \<Rightarrow> int" where
  "getEnvInt getenv key def =
     (let v = getenv key in
      if v \<noteq> [] then (case parse_int64 v of Some n \<Rightarrow> n | None \<Rightarrow> def) else def)"

datatype env_error = BadAppEnv string | NotSet string

definition required_vars :: "app_config \<Rightarrow> (string \<times> string) list" where
  "required_vars c =
     [(''JWT_PRIVATE_KEY'', cfg_JWTPrivKey c)] @
     (if cfg_SQLitePath c = [] then [(''DB_URL'', cfg_DBURL c), (''REDIS_URL'', cfg_RedisURL c)] else [])"

definition validate :: "app_config \<Rightarrow> env_error + unit" where
  "validate c =
     (if cfg_AppEnv c \<noteq> ''development'' \<and> cfg_AppEnv c \<noteq> ''production'' then Inl (BadAppEnv (cfg_AppEnv c))
      else case find (\<lambda>(name, v). v = []) (required_vars c) of
        Some (name, _) \<Rightarrow> Inl (NotSet name)
      | None \<Rightarrow>
          if cfg_AppEnv c = ''production'' then
            if cfg_SteamAPIKey c = [] then Inl (NotSet ''STEAM_API_KEY'')
            else if cfg_SteamAppID c = [] then Inl (NotSet ''STEAM_APP_ID'')
            else Inr ()
          else Inr ())"

definition config_of :: "(string \<Rightarrow> string) \<Rightarrow> app_config" where
  "config_of getenv = \<lparr>
     cfg_DBURL = getenv ''DB_URL'', cfg_RedisURL = getenv ''REDIS_URL'', cfg_SQLitePath = getenv ''SQLITE_PATH'',
     cfg_SteamAPIKey = getenv ''STEAM_API_KEY'', cfg_SteamAppID = getenv ''STEAM_APP_ID'',
     cfg_JWTPrivKey = getenv ''JWT_PRIVATE_KEY'', cfg_ServerPort = getEnvOrDefault getenv ''SERVER_PORT'' ''8080'',
     cfg_AppEnv = getenv ''APP_ENV'', cfg_LogLevel = getenv ''LOG_LEVEL'', cfg_TrustedProxies = getenv ''TRUSTED_PROXIES'',
     cfg_DiagIntervalSecs = getEnvInt getenv ''DIAG_INTERVAL_SECS'' 0,
     cfg_SkinsCSVPath = getEnvOrDefault getenv ''SKINS_CSV_PATH'' ''Data/skins.csv'',
     cfg_GameConfigXMLPath = getEnvOrDefault getenv ''GAME_CONFIG_XML_PATH'' ''Data/game-config.xml''\<rparr>"

definition Load_config :: "(string \<Rightarrow> string) \<Rightarrow> env_error + app_config" where
  "Load_config getenv = bindE (validate (config_of getenv)) (\<lambda>_. Inr (config_of getenv))"

text \<open>What is accepted: the whitelist of modes, and everything that the mode needs is set.\<close>

lemma validate_iff:
  "validate c = Inr () \<longleftrightarrow>
     cfg_AppEnv c \<in> {''development'', ''production''} \<and> cfg_JWTPrivKey c \<noteq> [] \<and>
     (cfg_SQLitePath c = [] \<longrightarrow> cfg_DBURL c \<noteq> [] \<and> cfg_RedisURL c \<noteq> []) \<and>
     (cfg_AppEnv c = ''production'' \<longrightarrow> cfg_SteamAPIKey c \<noteq> [] \<and> cfg_SteamAppID c \<noteq> [])"
  unfolding validate_def required_vars_def by (auto split: if_splits)

lemma Load_config_iff:
  "Load_config getenv = Inr c \<longleftrightarrow> c = config_of getenv \<and>
     getenv ''APP_ENV'' \<in> {''development'', ''production''} \<and> getenv ''JWT_PRIVATE_KEY'' \<noteq> [] \<and>
     (getenv ''SQLITE_PATH'' = [] \<longrightarrow> getenv ''DB_URL'' \<noteq> [] \<and> getenv ''REDIS_URL'' \<noteq> []) \<and>
     (getenv ''APP_ENV'' = ''production'' \<longrightarrow> getenv ''STEAM_API_KEY'' \<noteq> [] \<and> getenv ''STEAM_APP_ID'' \<noteq> [])"
proof -
  have "Load_config getenv = Inr c \<longleftrightarrow> validate (config_of getenv) = Inr () \<and> c = config_of getenv"
    unfolding Load_config_def by (auto simp: run_simps)
  then show ?thesis unfolding validate_iff by (auto simp: config_of_def)
qed

section \<open>The log level\<close>

text \<open>zerolog's levels are numbers; the two that the code names.\<close>

definition DebugLevel :: int where "DebugLevel = 0"
definition InfoLogLevel :: int where "InfoLogLevel = 1"

definition resolveLevel :: "(string \<Rightarrow> int option) \<Rightarrow> (string \<Rightarrow> string) \<Rightarrow> string \<Rightarrow> string \<Rightarrow> int" where
  "resolveLevel parseLevel uni appEnv logLevel =
     (let default = (if appEnv = ''development'' then DebugLevel else InfoLogLevel) in
      if logLevel \<noteq> [] then
        (case parseLevel (ToLower uni logLevel) of Some lvl \<Rightarrow> lvl | None \<Rightarrow> default)
      else default)"

end
