(* ===== verification/Probes.thy ===== *)
theory Probes
  imports KvStore Float64
begin

text \<open>
  The small handlers: the clock check of a client (\<open>internal/timeguard\<close>), the health probe
  (\<open>internal/health\<close>) and the stub (\<open>internal/stub\<close>). Go leaves the conversion of a float that is out
  of range of \<open>int64\<close> to the machine: it is the parameter \<open>cvt\<close>.
\<close>

section \<open>Clock check\<close>

definition driftWarningThreshold :: int where
  "driftWarningThreshold = 300 * second"

record sync_reply =
  sr_ServerTime :: int
  sr_DriftSeconds :: int
  sr_Warning :: bool

text \<open>\<open>int64(x)\<close> of a float: toward zero, what the machine gives (\<open>cvt\<close>) when it does not fit.\<close>

definition int64_of :: "(f64 \<Rightarrow> int) \<Rightarrow> f64 \<Rightarrow> int" where
  "int64_of cvt x =
     (case x of
        Fin a \<Rightarrow>
          let n = (if 0 \<le> a then \<lfloor>a\<rfloor> else \<lceil>a\<rceil>)
          in if - (2 ^ 63) \<le> n \<and> n < 2 ^ 63 then n else cvt x
      | _ \<Rightarrow> cvt x)"

text \<open>
  \<open>Handler\<close>: the timestamp of the body, \<open>None\<close> when it does not bind (no JSON, no timestamp, the zero time).
\<close>

definition time_drift :: "(f64 \<Rightarrow> int) \<Rightarrow> int \<Rightarrow> int \<Rightarrow> int" where
  "time_drift cvt serverTime client = int64_of cvt (fabs (of_go_int (time_sub serverTime client)))"

definition TimeSync :: "(f64 \<Rightarrow> int) \<Rightarrow> int \<Rightarrow> int option \<Rightarrow> sync_reply answer" where
  "TimeSync cvt now body =
     (case body of
        None \<Rightarrow> Reject 400 ''INVALID_REQUEST''
      | Some client \<Rightarrow>
          let drift = time_drift cvt now client
          in OK \<lparr>sr_ServerTime = now, sr_DriftSeconds = int64_of cvt (Seconds drift),
                 sr_Warning = drift > driftWarningThreshold\<rparr>)"

lemma int64_of_int: "0 \<le> n \<Longrightarrow> n < 2 ^ 63 \<Longrightarrow> int64_of cvt (Fin (of_int n)) = n"
  unfolding int64_of_def Let_def f64.case floor_of_int ceiling_of_int by simp

lemma time_drift_near:
  assumes "\<bar>now - client\<bar> \<le> 2 ^ 53"
  shows "time_drift cvt now client = \<bar>now - client\<bar>"
proof -
  have "time_sub now client = now - client" using assms by (auto simp: time_sub_def)
  then have "fabs (of_go_int (time_sub now client)) = Fin (of_int \<bar>now - client\<bar>)"
    using assms by (simp add: of_go_int_exact fabs_def)
  moreover have "\<bar>now - client\<bar> < 2 ^ 63" using assms by simp
  ultimately show ?thesis unfolding time_drift_def by (simp only: int64_of_int abs_ge_zero)
qed

text \<open>
  Within 104 days the answer tells the drift to the second (rounded down, or up by the float addition),
  and warns exactly when it is more than five minutes.
\<close>

lemma TimeSync_near:
  assumes "\<bar>now - client\<bar> \<le> 2 ^ 53"
  shows "\<exists>n. TimeSync cvt now (Some client) = OK \<lparr>sr_ServerTime = now, sr_DriftSeconds = n,
      sr_Warning = (\<bar>now - client\<bar> > 300 * second)\<rparr> \<and>
    \<bar>now - client\<bar> div second \<le> n \<and> n \<le> \<bar>now - client\<bar> div second + 1"
proof -
  let ?d = "\<bar>now - client\<bar>"
  obtain x where x: "Seconds ?d = Fin x" "of_int (?d div second) \<le> x" "x \<le> of_int (?d div second + 1)"
    using Seconds_near [of ?d] assms by auto
  have "0 \<le> ?d div second" by (simp add: second_def)
  then have "0 \<le> x" using x(2) by (meson of_int_0_le_iff order_trans)
  have n: "?d div second \<le> \<lfloor>x\<rfloor>" using x(2) by (simp add: le_floor_iff)
  have m: "\<lfloor>x\<rfloor> \<le> ?d div second + 1" using x(3) floor_mono [of x "of_int (?d div second + 1)"] by simp
  moreover have "?d div second \<le> 2 ^ 53" using assms by (simp add: second_def)
  moreover have "(2 :: int) ^ 53 + 1 < 2 ^ 63" by simp
  ultimately have "\<lfloor>x\<rfloor> < 2 ^ 63" by linarith
  moreover have "- (2 ^ 63) \<le> \<lfloor>x\<rfloor>" using \<open>0 \<le> x\<close> by (simp add: le_floor_iff)
  ultimately have "int64_of cvt (Seconds ?d) = \<lfloor>x\<rfloor>" using x(1) \<open>0 \<le> x\<close> by (simp add: int64_of_def Let_def)
  then show ?thesis using n m assms by (simp add: TimeSync_def Let_def time_drift_near driftWarningThreshold_def)
qed

text \<open>The greatest \<open>int64\<close> is no float: it is rounded up.\<close>

lemma of_go_int_top: "of_go_int (2 ^ 63 - 1) = Fin (2 ^ 63)"
proof -
  let ?x = "9223372036854775807 :: rat"
  have "ilog2 ?x = 62"
    by (rule antisym) (simp_all add: ilog2_le ilog2_ge)
  then have u: "ulp_exp ?x = 10" by (simp add: ulp_exp_def)
  have "\<lfloor>9223372036854775807 / 1024 :: rat\<rfloor> = 9007199254740991" by (simp add: floor_eq_iff)
  then have "round_even (?x / 2 powi 10) = 9007199254740992" by (simp add: round_even_def Let_def)
  then have "round64 ?x = 9223372036854775808" using u by (simp add: round64_def)
  then show ?thesis by (simp add: of_go_int_def to_f64_def Let_def)
qed

text \<open>
  A clock that is wrong by more than the greatest \<open>Duration\<close>, 292 years, saturates the difference, whose
  float is \<open>2 ^ 63\<close> and does not fit: on a machine that answers with the least \<open>int64\<close> (amd64) the drift is
  negative and no warning is given.
\<close>

theorem absurd_clock_no_warning:
  assumes "2 ^ 63 - 1 \<le> now - client"
  shows "\<exists>n. TimeSync (\<lambda>_. - (2 ^ 63)) now (Some client) = OK \<lparr>sr_ServerTime = now, sr_DriftSeconds = n, sr_Warning = False\<rparr>"
proof -
  have "time_sub now client = 2 ^ 63 - 1" using assms by (simp add: time_sub_def)
  moreover note of_go_int_top
  ultimately have "time_drift (\<lambda>_. - (2 ^ 63)) now client = - (2 ^ 63)"
    by (simp add: time_drift_def fabs_def int64_of_def Let_def)
  then show ?thesis by (simp add: TimeSync_def Let_def driftWarningThreshold_def second_def)
qed

section \<open>Health\<close>

definition version :: string where "version = ''1.0.0''"

record health_body =
  hb_status :: string
  hb_db :: string
  hb_cache :: string
  hb_version :: string

text \<open>The two pings run at the same time; each writes its own flag. The status goes with the body.\<close>

definition Health :: "bool \<Rightarrow> bool \<Rightarrow> int \<times> health_body" where
  "Health dbPing kvPing =
     (let dbStatus = (if dbPing then ''ok'' else ''error'');
          cacheStatus = (if kvPing then ''ok'' else ''error'');
          degraded = (dbStatus = ''error'' \<or> cacheStatus = ''error'')
      in (if degraded then 503 else 200,
          \<lparr>hb_status = (if degraded then ''degraded'' else ''ok''), hb_db = dbStatus, hb_cache = cacheStatus,
           hb_version = version\<rparr>))"

lemma Health_ok_iff: "fst (Health d k) = 200 \<longleftrightarrow> d \<and> k"
  by (simp add: Health_def Let_def)

section \<open>Stub\<close>

definition NoOp :: "int \<times> string" where
  "NoOp = (200, ''stub'')"

text \<open>The header \<open>X-Player-ID\<close> (the empty string when it is missing), and the player of the context.\<close>

definition PlayerIDFromHeader :: "string \<Rightarrow> string option \<Rightarrow> string option" where
  "PlayerIDFromHeader header player = (if header \<noteq> [] then Some header else player)"

end
