(* ===== verification/Economy.thy ===== *)
theory Economy
  imports Db Rfc3339
begin

text \<open>
  The development-only audit of a player's balance (\<open>internal/diag/economy.go\<close>): the events of the two
  logs in their reconstructed order, the identity of each row, the continuity between consecutive
  events, and the report. For whole points the audit in floating point is the audit in integers.
\<close>

section \<open>The events\<close>

definition reconcileEpsilon :: f64 where "reconcileEpsilon = to_f64 (1 / 1000000)"
definition reconcileRelEpsilon :: f64 where "reconcileRelEpsilon = to_f64 (1 / 1000000000000)"
definition accrualMarginSecs :: f64 where "accrualMarginSecs = Fin 2"

record event_audit =
  ea_Kind :: string
  ea_ID :: string
  ea_At :: int
  ea_CostPoints :: f64
  ea_AccruedPts :: f64
  ea_BalanceBefore :: f64
  ea_BalanceAfter :: f64

record anomaly =
  an_Type :: string
  an_EventKind :: string
  an_EventID :: string
  an_At :: int
  an_Delta :: f64

definition gacha_event :: "gacha_log \<Rightarrow> event_audit" where
  "gacha_event l = \<lparr>ea_Kind = ''gacha'', ea_ID = gl_id l, ea_At = of_unix (gl_pulled_at l), ea_CostPoints = gl_cost_points l,
     ea_AccruedPts = gl_accrued_pts l, ea_BalanceBefore = gl_balance_before l, ea_BalanceAfter = gl_balance_after l\<rparr>"

definition vow_event :: "vow_log \<Rightarrow> event_audit" where
  "vow_event l = \<lparr>ea_Kind = ''vow'', ea_ID = vl_id l, ea_At = of_unix (vl_prayed_at l), ea_CostPoints = vl_cost_points l,
     ea_AccruedPts = vl_accrued_pts l, ea_BalanceBefore = vl_balance_before l, ea_BalanceAfter = vl_balance_after l\<rparr>"

text \<open>The UNION ALL of the player's rows of both logs, in the order of the tables.\<close>

definition events_of :: "string \<Rightarrow> database \<Rightarrow> event_audit list" where
  "events_of pid db = map gacha_event (filter (\<lambda>l. gl_player l = pid) (gacha_logs db)) @
     map vow_event (filter (\<lambda>l. vl_player l = pid) (vow_logs db))"

text \<open>The order of \<open>sort.SliceStable\<close>: by time, then by falling balance, then by identifier.\<close>

definition event_less :: "event_audit \<Rightarrow> event_audit \<Rightarrow> bool" where
  "event_less a b =
     (if ea_At a \<noteq> ea_At b then ea_At a < ea_At b
      else if \<not> feq (ea_BalanceBefore a) (ea_BalanceBefore b) then flt (ea_BalanceBefore b) (ea_BalanceBefore a)
      else if \<not> feq (ea_BalanceAfter a) (ea_BalanceAfter b) then flt (ea_BalanceAfter b) (ea_BalanceAfter a)
      else bytes_less (ea_ID a) (ea_ID b))"

fun insert_event :: "event_audit \<Rightarrow> event_audit list \<Rightarrow> event_audit list" where
  "insert_event x [] = [x]"
| "insert_event x (y # ys) = (if event_less y x then y # insert_event x ys else x # y # ys)"

definition sort_events :: "event_audit list \<Rightarrow> event_audit list" where
  "sort_events es = foldr insert_event es []"

section \<open>The checks\<close>

text \<open>(1) The identity of a row.\<close>

definition identity_residual :: "event_audit \<Rightarrow> f64" where
  "identity_residual e =
     fsub (ea_BalanceAfter e) (fsub (fadd (ea_BalanceBefore e) (ea_AccruedPts e)) (ea_CostPoints e))"

definition identity_tolerance :: "event_audit \<Rightarrow> f64" where
  "identity_tolerance e = fadd reconcileEpsilon
     (fmul reconcileRelEpsilon (fmax (fabs (ea_BalanceBefore e)) (fabs (ea_BalanceAfter e))))"

definition identity_broken :: "event_audit \<Rightarrow> bool" where
  "identity_broken e = flt (identity_tolerance e) (fabs (identity_residual e))"

definition row_anomalies :: "event_audit list \<Rightarrow> anomaly list" where
  "row_anomalies es = map (\<lambda>e. \<lparr>an_Type = ''row_identity'', an_EventKind = ea_Kind e, an_EventID = ea_ID e, an_At = ea_At e,
       an_Delta = identity_residual e\<rparr>) (filter identity_broken es)"

text \<open>(2) The continuity of two consecutive events.\<close>

definition inBounds :: "f64 \<Rightarrow> f64 \<Rightarrow> bool" where
  "inBounds g c = (fle (fneg reconcileEpsilon) g \<and> fle g (fadd c reconcileEpsilon))"

definition pair_elapsed :: "event_audit \<Rightarrow> event_audit \<Rightarrow> f64" where
  "pair_elapsed prev cur = (let x = Seconds (time_sub (ea_At cur) (ea_At prev)) in if flt x (Fin 0) then Fin 0 else x)"

definition pair_ceiling :: "f64 \<Rightarrow> event_audit \<Rightarrow> event_audit \<Rightarrow> f64" where
  "pair_ceiling rate prev cur = fmul (fadd (pair_elapsed prev cur) accrualMarginSecs) rate"

definition pair_gap :: "event_audit \<Rightarrow> event_audit \<Rightarrow> f64" where
  "pair_gap prev cur = fsub (ea_BalanceBefore cur) (ea_BalanceAfter prev)"

definition pair_explained :: "f64 \<Rightarrow> event_audit \<Rightarrow> event_audit \<Rightarrow> bool" where
  "pair_explained rate prev cur =
     (inBounds (pair_gap prev cur) (pair_ceiling rate prev cur) \<or>
      feq (pair_elapsed prev cur) (Fin 0) \<and> inBounds (pair_gap cur prev) (pair_ceiling rate prev cur))"

definition pair_anomaly :: "f64 \<Rightarrow> event_audit \<Rightarrow> event_audit \<Rightarrow> anomaly" where
  "pair_anomaly rate prev cur =
     (let gap = pair_gap prev cur in
      if flt gap (fneg reconcileEpsilon)
      then \<lparr>an_Type = ''negative_continuity'', an_EventKind = ea_Kind cur, an_EventID = ea_ID cur, an_At = ea_At cur, an_Delta = gap\<rparr>
      else \<lparr>an_Type = ''excess_accrual'', an_EventKind = ea_Kind cur, an_EventID = ea_ID cur, an_At = ea_At cur,
             an_Delta = fsub gap (pair_ceiling rate prev cur)\<rparr>)"

record walk_state =
  wk_anomalies :: "anomaly list"
  wk_unlogged :: f64
  wk_maxPlausible :: f64
  wk_sameSecond :: bool

definition walk_pair :: "f64 \<Rightarrow> event_audit \<Rightarrow> event_audit \<Rightarrow> walk_state \<Rightarrow> walk_state" where
  "walk_pair rate prev cur w =
     (let w1 = (if feq (pair_elapsed prev cur) (Fin 0) then w\<lparr>wk_sameSecond := True\<rparr>
                else w\<lparr>wk_maxPlausible := fadd (wk_maxPlausible w) (pair_ceiling rate prev cur)\<rparr>)
      in if pair_explained rate prev cur
         then (if feq (pair_elapsed prev cur) (Fin 0) then w1
               else w1\<lparr>wk_unlogged := fadd (wk_unlogged w1) (pair_gap prev cur)\<rparr>)
         else w1\<lparr>wk_anomalies := wk_anomalies w1 @ [pair_anomaly rate prev cur]\<rparr>)"

fun walk_events :: "f64 \<Rightarrow> event_audit \<Rightarrow> event_audit list \<Rightarrow> walk_state \<Rightarrow> walk_state" where
  "walk_events rate prev [] w = w"
| "walk_events rate prev (cur # es) w = walk_events rate cur es (walk_pair rate prev cur w)"

definition walk_all :: "f64 \<Rightarrow> event_audit list \<Rightarrow> anomaly list \<Rightarrow> walk_state" where
  "walk_all rate es found =
     (let w = \<lparr>wk_anomalies = found, wk_unlogged = Fin 0, wk_maxPlausible = Fin 0, wk_sameSecond = False\<rparr>
      in case es of [] \<Rightarrow> w | e # es' \<Rightarrow> walk_events rate e es' w)"

section \<open>The report\<close>

record economy_audit =
  au_PlayerID :: string
  au_CurrentBalance :: f64
  au_EnlightenmentRate :: f64
  au_LastSyncAt :: "int option"
  au_GachaPulls :: int
  au_VowCount :: int
  au_TotalEvents :: int
  au_TotalAccrued :: f64
  au_TotalCost :: f64
  au_NetLogged :: f64
  au_FirstBalanceBefore :: "f64 option"
  au_LastBalanceAfter :: "f64 option"
  au_UnloggedAccrual :: f64
  au_MaxPlausibleAccrual :: f64
  au_SameSecondEvents :: bool
  au_Reconciled :: bool
  au_Anomalies :: "anomaly list"

definition audit_of :: "string \<Rightarrow> state_row \<Rightarrow> event_audit list \<Rightarrow> economy_audit" where
  "audit_of pid st rows =
     (let es = sort_events rows;
          totalAccrued = foldl (\<lambda>x e. fadd x (ea_AccruedPts e)) (Fin 0) rows;
          totalCost = foldl (\<lambda>x e. fadd x (ea_CostPoints e)) (Fin 0) rows;
          w = walk_all (enlightenment_rate st) es (row_anomalies es)
      in \<lparr>au_PlayerID = pid, au_CurrentBalance = enlightenment_pts st, au_EnlightenmentRate = enlightenment_rate st,
          au_LastSyncAt = map_option of_unix (last_sync_at st),
          au_GachaPulls = int (length (filter (\<lambda>e. ea_Kind e = ''gacha'') rows)),
          au_VowCount = int (length (filter (\<lambda>e. ea_Kind e \<noteq> ''gacha'') rows)),
          au_TotalEvents = int (length es), au_TotalAccrued = totalAccrued, au_TotalCost = totalCost,
          au_NetLogged = fsub totalAccrued totalCost,
          au_FirstBalanceBefore = (if es = [] then None else Some (ea_BalanceBefore (hd es))),
          au_LastBalanceAfter = (if es = [] then None else Some (ea_BalanceAfter (last es))),
          au_UnloggedAccrual = wk_unlogged w, au_MaxPlausibleAccrual = wk_maxPlausible w,
          au_SameSecondEvents = wk_sameSecond w, au_Reconciled = (wk_anomalies w = []), au_Anomalies = wk_anomalies w\<rparr>)"

definition EconomyHandler :: "faults \<Rightarrow> string \<Rightarrow> database \<Rightarrow> economy_audit answer" where
  "EconomyHandler ft pid db =
     (if pid = [] then Reject 400 ''INVALID_REQUEST''
      else case attempt (ft 0) (one_row (state_of db pid)) of
        Inl ErrNoRows \<Rightarrow> Reject 404 ''NOT_FOUND''
      | Inl DbError \<Rightarrow> internal_error
      | Inr st \<Rightarrow>
          if ft 1 \<or> ft 2 then internal_error
          else OK (audit_of pid st (events_of pid db)))"

section \<open>The order\<close>

lemma set_insert_event: "set (insert_event x ys) = insert x (set ys)"
  by (induction ys) auto

lemma set_sort_events: "set (sort_events es) = set es"
  by (induction es) (simp_all add: sort_events_def set_insert_event)

lemma length_insert_event: "length (insert_event x ys) = Suc (length ys)"
  by (induction ys) auto

lemma length_sort_events [simp]: "length (sort_events es) = length es"
  by (induction es) (simp_all add: sort_events_def length_insert_event)

lemma event_less_at: "event_less a b \<Longrightarrow> ea_At a \<le> ea_At b" "\<not> event_less a b \<Longrightarrow> ea_At b \<le> ea_At a"
  by (auto simp: event_less_def split: if_splits)

lemma sorted_insert_event: "sorted (map ea_At ys) \<Longrightarrow> sorted (map ea_At (insert_event x ys))"
proof (induction ys)
  case (Cons y ys)
  then show ?case using event_less_at [of y x] by (auto simp: set_insert_event)
qed simp

lemma sorted_sort_events: "sorted (map ea_At (sort_events es))"
  by (induction es) (simp_all add: sort_events_def sorted_insert_event)

section \<open>The audit of whole points\<close>

text \<open>Events in whole points, of a size for which a difference of one point exceeds the tolerance.\<close>

record whole_event =
  we_cost :: int
  we_accrued :: int
  we_before :: int
  we_after :: int

definition whole :: "event_audit \<Rightarrow> whole_event \<Rightarrow> bool" where
  "whole e w \<longleftrightarrow> ea_CostPoints e = Fin (of_int (we_cost w)) \<and> ea_AccruedPts e = Fin (of_int (we_accrued w)) \<and>
     ea_BalanceBefore e = Fin (of_int (we_before w)) \<and> ea_BalanceAfter e = Fin (of_int (we_after w)) \<and>
     \<bar>we_cost w\<bar> \<le> 10 ^ 11 \<and> \<bar>we_accrued w\<bar> \<le> 10 ^ 11 \<and> \<bar>we_before w\<bar> \<le> 10 ^ 11 \<and> \<bar>we_after w\<bar> \<le> 10 ^ 11"

lemma epsilon_lower: "fle (Fin (1 / 2 ^ 20)) reconcileEpsilon"
  using to_f64_mono [of "1 / 2 ^ 20" "1 / 1000000"] to_f64_dyadic [of 1 "- 20"]
  by (simp add: reconcileEpsilon_def power_int_minus field_simps)

lemma epsilon_bounds:
  obtains x where "reconcileEpsilon = Fin x" "0 < x" "x \<le> 1 / 4"
proof -
  note a = epsilon_lower
  have b: "fle reconcileEpsilon (Fin (1 / 4))"
    using to_f64_mono [of "1 / 1000000" "1 / 4"] to_f64_dyadic [of 1 "- 2"]
    by (simp add: reconcileEpsilon_def power_int_minus field_simps)
  obtain x where x: "reconcileEpsilon = Fin x" using a b by (cases reconcileEpsilon) auto
  have "1 / 2 ^ 20 \<le> x" using a unfolding x fle_Fin .
  moreover have "x \<le> 1 / 4" using b unfolding x fle_Fin .
  moreover have "(0 :: rat) < 1 / 2 ^ 20" by simp
  ultimately show thesis using that x by (meson less_le_trans)
qed

lemma rel_epsilon_bounds:
  obtains y where "reconcileRelEpsilon = Fin y" "0 \<le> y" "y \<le> 1 / 2 ^ 39"
proof -
  have a: "fle (Fin 0) reconcileRelEpsilon"
    using to_f64_mono [of 0 "1 / 1000000000000"] by (simp add: reconcileRelEpsilon_def)
  have b: "fle reconcileRelEpsilon (Fin (1 / 2 ^ 39))"
    using to_f64_mono [of "1 / 1000000000000" "1 / 2 ^ 39"] to_f64_dyadic [of 1 "- 39"]
    by (simp add: reconcileRelEpsilon_def power_int_minus field_simps)
  obtain y where y: "reconcileRelEpsilon = Fin y" using a b by (cases reconcileRelEpsilon) auto
  have "0 \<le> y" using a unfolding y fle_Fin .
  moreover have "y \<le> 1 / 2 ^ 39" using b unfolding y fle_Fin .
  ultimately show thesis using that y by blast
qed

text \<open>The tolerance of a row is positive and at most half a point.\<close>

lemma identity_tolerance_bounds:
  assumes "whole e w"
  obtains tol where "identity_tolerance e = Fin tol" "0 \<le> tol" "tol \<le> 1 / 2"
proof -
  obtain x where x: "reconcileEpsilon = Fin x" "0 < x" "x \<le> 1 / 4" by (rule epsilon_bounds)
  obtain y where y: "reconcileRelEpsilon = Fin y" "0 \<le> y" "y \<le> 1 / 2 ^ 39" by (rule rel_epsilon_bounds)
  define m where "m = max \<bar>we_before w\<bar> \<bar>we_after w\<bar>"
  have m: "0 \<le> m" "m \<le> 10 ^ 11" using assms by (auto simp: m_def whole_def)
  have "fmax (fabs (ea_BalanceBefore e)) (fabs (ea_BalanceAfter e)) = Fin (of_int m)"
    using assms by (auto simp: whole_def fabs_def fmax_def m_def max_def)
  then have tol: "identity_tolerance e = fadd (Fin x) (to_f64 (y * of_int m))"
    by (simp add: identity_tolerance_def x y)
  have "(of_int m :: rat) \<le> of_int (10 ^ 11)" using m(2) by (simp only: of_int_le_iff)
  then have "y * of_int m \<le> 1 / 2 ^ 39 * of_int (10 ^ 11)" using y m(1) by (intro mult_mono) simp_all
  also have "\<dots> \<le> (1 / 4 :: rat)" by simp
  finally have hi: "fle (to_f64 (y * of_int m)) (Fin (1 / 4))"
    using to_f64_mono [of "y * of_int m" "1 / 4"] to_f64_dyadic [of 1 "- 2"] by (simp add: power_int_minus)
  have lo: "fle (Fin 0) (to_f64 (y * of_int m))" using to_f64_mono [of 0 "y * of_int m"] y m(1) by simp
  obtain z where z: "to_f64 (y * of_int m) = Fin z" "0 \<le> z" "z \<le> 1 / 4"
    using hi lo by (cases "to_f64 (y * of_int m)") auto
  have "fle (Fin 0) (to_f64 (x + z))" using to_f64_mono [of 0 "x + z"] x(2) z(2) by simp
  moreover have "fle (to_f64 (x + z)) (Fin (1 / 2))"
    using to_f64_mono [of "x + z" "1 / 2"] to_f64_dyadic [of 1 "- 1"] x(3) z(3) by (simp add: power_int_minus)
  moreover have "identity_tolerance e = to_f64 (x + z)" by (simp add: tol z)
  ultimately show thesis using that by (cases "to_f64 (x + z)") auto
qed

lemma identity_broken_whole:
  assumes "whole e w"
  shows "identity_broken e \<longleftrightarrow> we_after w \<noteq> we_before w + we_accrued w - we_cost w"
proof -
  obtain tol where tol: "identity_tolerance e = Fin tol" "0 \<le> tol" "tol \<le> 1 / 2"
    using assms by (rule identity_tolerance_bounds)
  let ?d = "we_after w - (we_before w + we_accrued w - we_cost w)"
  have b: "\<bar>we_before w + we_accrued w\<bar> \<le> 2 ^ 53" "\<bar>we_before w + we_accrued w - we_cost w\<bar> \<le> 2 ^ 53" "\<bar>?d\<bar> \<le> 2 ^ 53"
    using assms unfolding whole_def by auto
  have "identity_residual e = Fin (of_int ?d)"
    using assms unfolding identity_residual_def whole_def by (simp only: fadd_int [OF b(1)] fsub_int [OF b(2)] fsub_int [OF b(3)])
  then have "fabs (identity_residual e) = Fin (of_int \<bar>?d\<bar>)" by (simp add: fabs_def)
  then have "identity_broken e \<longleftrightarrow> tol < of_int \<bar>?d\<bar>" by (simp add: identity_broken_def tol)
  also have "\<dots> \<longleftrightarrow> ?d \<noteq> 0"
  proof
    assume "tol < of_int \<bar>?d\<bar>"
    with tol(2) show "?d \<noteq> 0" by auto
  next
    assume "?d \<noteq> 0"
    then have "1 \<le> \<bar>?d\<bar>" by linarith
    then have "(of_int 1 :: rat) \<le> of_int \<bar>?d\<bar>" by (simp only: of_int_le_iff)
    with tol(3) show "tol < of_int \<bar>?d\<bar>" by simp
  qed
  finally show ?thesis by auto
qed

lemma inBounds_int:
  assumes "\<bar>g\<bar> \<le> 2 ^ 51" and "\<bar>c\<bar> \<le> 2 ^ 51"
  shows "inBounds (Fin (of_int g)) (Fin (of_int c)) \<longleftrightarrow> 0 \<le> g \<and> g \<le> c"
proof -
  obtain x where x: "reconcileEpsilon = Fin x" "0 < x" "x \<le> 1 / 4" by (rule epsilon_bounds)
  have "- x \<le> of_int g \<longleftrightarrow> 0 \<le> g"
  proof
    assume "- x \<le> of_int g"
    then have "(- 1 :: rat) < of_int g" using x(3) by linarith
    then have "of_int (- 1) < (of_int g :: rat)" by simp
    then have "- 1 < g" by (simp only: of_int_less_iff)
    then show "0 \<le> g" by simp
  next
    assume "0 \<le> g"
    then show "- x \<le> of_int g" using x(2) by (simp add: order_trans [of _ 0])
  qed
  moreover have "fle (Fin (of_int g)) (fadd (Fin (of_int c)) (Fin x)) \<longleftrightarrow> g \<le> c"
  proof
    assume le: "fle (Fin (of_int g)) (fadd (Fin (of_int c)) (Fin x))"
    have half: "to_f64 (of_int (2 * c + 1) * 2 powi (- 1)) = Fin (of_int (2 * c + 1) * 2 powi (- 1))"
      by (rule to_f64_dyadic) (use assms(2) in auto)
    have eq: "of_int (2 * c + 1) * 2 powi (- 1) = (of_int c + 1 / 2 :: rat)" by (simp add: power_int_minus field_simps)
    have "fle (to_f64 (of_int c + x)) (to_f64 (of_int c + 1 / 2))" by (rule to_f64_mono) (use x(3) in simp)
    then have "fle (to_f64 (of_int c + x)) (Fin (of_int c + 1 / 2))" using half unfolding eq by simp
    with le [unfolded fadd.simps] have "fle (Fin (of_int g)) (Fin (of_int c + 1 / 2))" by (rule fle_trans)
    then have "(of_int g :: rat) < of_int (c + 1)" by simp
    then show "g \<le> c" by (simp only: of_int_less_iff)
  next
    assume "g \<le> c"
    have cc: "to_f64 (of_int c) = Fin (of_int c)" by (rule to_f64_of_int) (use assms(2) in simp)
    have "fle (Fin (of_int c)) (fadd (Fin (of_int c)) (Fin x))" by (rule fadd_ge_left [OF _ cc]) (use x(2) in simp)
    moreover have "fle (Fin (of_int g)) (Fin (of_int c))" using \<open>g \<le> c\<close> by simp
    ultimately show "fle (Fin (of_int g)) (fadd (Fin (of_int c)) (Fin x))" by (rule fle_trans [rotated])
  qed
  ultimately show ?thesis by (simp add: inBounds_def x)
qed

text \<open>The continuity of whole points, in integers.\<close>

definition whole_explained :: "int \<Rightarrow> int \<Rightarrow> int \<Rightarrow> whole_event \<Rightarrow> whole_event \<Rightarrow> bool" where
  "whole_explained r t t' p c \<longleftrightarrow>
     0 \<le> we_before c - we_after p \<and> we_before c - we_after p \<le> (t' - t + 2) * r \<or>
     t' = t \<and> 0 \<le> we_before p - we_after c \<and> we_before p - we_after c \<le> 2 * r"

lemma Seconds_whole: "0 \<le> k \<Longrightarrow> k \<le> 2 ^ 53 \<Longrightarrow> Seconds (k * second) = Fin (of_int k)"
proof -
  assume k: "0 \<le> k" "k \<le> 2 ^ 53"
  have "(k * second) sdiv second = k" using k(1) by (simp add: sdiv_nonneg second_def)
  moreover have "(k * second) smod second = 0" using k(1) by (simp add: signed_modulo_int_def second_def)
  moreover have "of_go_int second = Fin (of_int second)" by (rule of_go_int_exact) (simp add: second_def)
  moreover have "of_go_int 0 = Fin 0" using of_go_int_exact [of 0] by simp
  ultimately show ?thesis using k by (simp add: Seconds_def of_go_int_exact to_f64_of_int second_def)
qed

lemma pair_explained_whole:
  assumes p: "whole e w" "ea_At e = of_unix t" and c: "whole e' w'" "ea_At e' = of_unix t'"
    and t: "0 \<le> t" "t \<le> t'" "t' \<le> 9 * 10 ^ 9" and r: "0 \<le> r" "r \<le> 10 ^ 5"
  shows "pair_explained (Fin (of_int r)) e e' \<longleftrightarrow> whole_explained r t t' w w'"
proof -
  let ?k = "t' - t" and ?c = "(t' - t + 2) * r"
  have "(t' - t) * second \<le> 9 * 10 ^ 9 * second" using t by (intro mult_right_mono) simp_all
  then have "time_sub (ea_At e') (ea_At e) = ?k * second"
    using t p c unfolding time_sub_def of_unix_def by (simp add: second_def algebra_simps)
  then have el: "pair_elapsed e e' = Fin (of_int ?k)"
    using Seconds_whole [of ?k] t by (simp add: pair_elapsed_def Let_def)
  have "?c \<le> (9 * 10 ^ 9 + 2) * 10 ^ 5" using t r by (intro mult_mono) simp_all
  then have cb: "\<bar>?c\<bar> \<le> 2 ^ 51" using t r by simp
  have a: "fadd (Fin (of_int ?k)) accrualMarginSecs = Fin (of_int (?k + 2))"
    using fadd_int [of ?k 2] t by (simp add: accrualMarginSecs_def)
  have ceil: "pair_ceiling (Fin (of_int r)) e e' = Fin (of_int ?c)"
    unfolding pair_ceiling_def el a by (rule fmul_int) (use cb in simp)
  have gb: "\<bar>we_before w' - we_after w\<bar> \<le> 2 ^ 51" "\<bar>we_before w - we_after w'\<bar> \<le> 2 ^ 51"
    using p c unfolding whole_def by auto
  have gap: "pair_gap e e' = Fin (of_int (we_before w' - we_after w))" "pair_gap e' e = Fin (of_int (we_before w - we_after w'))"
    using p(1) c(1) gb unfolding whole_def pair_gap_def by (simp_all add: fsub_int)
  have z: "feq (Fin (of_int ?k)) (Fin 0) \<longleftrightarrow> t' = t" by simp
  show ?thesis
    unfolding pair_explained_def gap ceil el z inBounds_int [OF gb(1) cb] inBounds_int [OF gb(2) cb] whole_explained_def
    by auto
qed

lemma walk_events_anomalies:
  "wk_anomalies (walk_events rate prev es w) = [] \<longleftrightarrow>
     wk_anomalies w = [] \<and> successively (pair_explained rate) (prev # es)"
proof (induction es arbitrary: prev w)
  case (Cons cur es)
  have "wk_anomalies (walk_pair rate prev cur w) = [] \<longleftrightarrow> wk_anomalies w = [] \<and> pair_explained rate prev cur"
    by (simp add: walk_pair_def Let_def)
  then show ?case using Cons by auto
qed simp

lemma audit_reconciled_iff:
  "au_Reconciled (audit_of pid st rows) \<longleftrightarrow>
     (\<forall>e \<in> set rows. \<not> identity_broken e) \<and> successively (pair_explained (enlightenment_rate st)) (sort_events rows)"
proof -
  have r: "row_anomalies (sort_events rows) = [] \<longleftrightarrow> (\<forall>e \<in> set rows. \<not> identity_broken e)"
    by (simp add: row_anomalies_def filter_empty_conv set_sort_events)
  show ?thesis
  proof (cases "sort_events rows")
    case Nil
    then show ?thesis using r by (simp add: audit_of_def Let_def walk_all_def)
  next
    case (Cons e es)
    then show ?thesis using r by (simp add: audit_of_def Let_def walk_all_def walk_events_anomalies)
  qed
qed

lemma successively_cong_sorted:
  assumes "sorted (map f xs)" and "\<And>x y. x \<in> set xs \<Longrightarrow> y \<in> set xs \<Longrightarrow> f x \<le> f y \<Longrightarrow> P x y = Q x y"
  shows "successively P xs = successively Q xs"
  using assms by (induction xs rule: induct_list012) auto

section \<open>Properties\<close>

text \<open>
  C38. For balances in whole points the audit in floating point decides the audit in integers: a player is
  reported as reconciled exactly when every logged event balances to the point, and every step between
  consecutive events is explained by accrual of at most the rate times the elapsed seconds plus two, in
  one of the two orders when both happened in the same second.
\<close>

theorem economy_audit_exact:
  assumes "EconomyHandler ft pid db = OK a" and "state_of db pid = Some st" and "enlightenment_rate st = Fin (of_int r)"
    and "0 \<le> r" and "r \<le> 10 ^ 5"
    and "\<forall>e \<in> set (events_of pid db). whole e (w e) \<and> ea_At e = of_unix (t e) \<and> 0 \<le> t e \<and> t e \<le> 9 * 10 ^ 9"
  shows "au_Reconciled a \<longleftrightarrow>
    (\<forall>e \<in> set (events_of pid db). we_after (w e) = we_before (w e) + we_accrued (w e) - we_cost (w e)) \<and>
    successively (\<lambda>p c. whole_explained r (t p) (t c) (w p) (w c)) (sort_events (events_of pid db))"
proof -
  let ?es = "sort_events (events_of pid db)"
  have a: "a = audit_of pid st (events_of pid db)"
    using assms(1,2) by (auto simp: EconomyHandler_def attempt_def split: if_splits)
  have rows: "(\<forall>e \<in> set (events_of pid db). \<not> identity_broken e) \<longleftrightarrow>
    (\<forall>e \<in> set (events_of pid db). we_after (w e) = we_before (w e) + we_accrued (w e) - we_cost (w e))"
    using assms(6) identity_broken_whole by blast
  have "successively (pair_explained (enlightenment_rate st)) ?es \<longleftrightarrow>
    successively (\<lambda>p c. whole_explained r (t p) (t c) (w p) (w c)) ?es"
  proof -
    have "pair_explained (enlightenment_rate st) p c \<longleftrightarrow> whole_explained r (t p) (t c) (w p) (w c)"
      if "p \<in> set ?es" "c \<in> set ?es" "ea_At p \<le> ea_At c" for p c
      unfolding assms(3) by (rule pair_explained_whole) (use that assms(4-6) in \<open>auto simp: set_sort_events of_unix_le_iff\<close>)
    then show ?thesis by (rule successively_cong_sorted [OF sorted_sort_events])
  qed
  with a rows show ?thesis by (simp add: audit_reconciled_iff)
qed


definition demo_entry :: "string \<Rightarrow> int \<Rightarrow> f64 \<Rightarrow> f64 \<Rightarrow> f64 \<Rightarrow> f64 \<Rightarrow> gacha_log" where
  "demo_entry i t c acc b b' = \<lparr>gl_id = i, gl_player = ''p'', gl_item_id = ''x'', gl_rarity = ''Common'', gl_is_duplicate = False,
     gl_refund_points = Fin 0, gl_cost_points = c, gl_seed_hash = [], gl_pulled_at = t, gl_balance_before = b,
     gl_balance_after = b', gl_accrued_pts = acc\<rparr>"

definition demo_ledger :: "gacha_log list \<Rightarrow> database" where
  "demo_ledger ls = empty_db\<lparr>player_states := [\<lparr>s_player = ''p'', enlightenment_pts = Fin 7, time_stone_count = 0,
     streak_days = 1, last_login_date = None, next_gacha_at = None, enlightenment_rate = Fin 1, last_sync_at = None,
     cairn_last_growth_at = None, updated_at = 0\<rparr>], gacha_logs := ls\<rparr>"

text \<open>A gap of 50 points in 50 seconds reconciles at one point a second.\<close>

theorem economy_audit_exact_witness:
  "\<exists>a. EconomyHandler (\<lambda>_. False) ''p''
       (demo_ledger [demo_entry ''b'' 1050 (Fin 30) (Fin 5) (Fin 50) (Fin 25), demo_entry ''a'' 1000 (Fin 100) (Fin 0) (Fin 100) (Fin 0)]) = OK a \<and>
     au_Reconciled a"
proof -
  let ?db = "demo_ledger [demo_entry ''b'' 1050 (Fin 30) (Fin 5) (Fin 50) (Fin 25), demo_entry ''a'' 1000 (Fin 100) (Fin 0) (Fin 100) (Fin 0)]"
  let ?w = "\<lambda>e. if ea_ID e = ''a'' then \<lparr>we_cost = 100, we_accrued = 0, we_before = 100, we_after = 0\<rparr>
    else \<lparr>we_cost = 30, we_accrued = 5, we_before = 50, we_after = 25\<rparr>"
  let ?t = "\<lambda>e. if ea_ID e = ''a'' then 1000 else 1050 :: int"
  obtain st where st: "state_of ?db ''p'' = Some st" "enlightenment_rate st = Fin (of_int 1)"
    by (simp add: state_of_def demo_ledger_def)
  have ev: "events_of ''p'' ?db = [gacha_event (demo_entry ''b'' 1050 (Fin 30) (Fin 5) (Fin 50) (Fin 25)),
      gacha_event (demo_entry ''a'' 1000 (Fin 100) (Fin 0) (Fin 100) (Fin 0))]"
    by (simp add: events_of_def demo_ledger_def demo_entry_def empty_db_def)
  have so: "sort_events (events_of ''p'' ?db) = [gacha_event (demo_entry ''a'' 1000 (Fin 100) (Fin 0) (Fin 100) (Fin 0)),
      gacha_event (demo_entry ''b'' 1050 (Fin 30) (Fin 5) (Fin 50) (Fin 25))]"
    unfolding ev by (simp add: sort_events_def event_less_def gacha_event_def demo_entry_def of_unix_def second_def)
  have ok: "EconomyHandler (\<lambda>_. False) ''p'' ?db = OK (audit_of ''p'' st (events_of ''p'' ?db))"
    using st(1) by (simp add: EconomyHandler_def)
  have "\<forall>e \<in> set (events_of ''p'' ?db). whole e (?w e) \<and> ea_At e = of_unix (?t e) \<and> 0 \<le> ?t e \<and> ?t e \<le> 9 * 10 ^ 9"
    unfolding ev by (simp add: whole_def gacha_event_def demo_entry_def)
  from economy_audit_exact [OF ok st _ _ this]
  have "au_Reconciled (audit_of ''p'' st (events_of ''p'' ?db))"
    unfolding so unfolding ev by (simp add: whole_explained_def gacha_event_def demo_entry_def)
  with ok show ?thesis by blast
qed

text \<open>
  The comment beside \<open>maxPlausibleAccrual\<close> says that \<open>unlogged_accrual\<close> \<^emph>\<open>can never exceed\<close> it. A gap
  is accepted up to the ceiling plus the tolerance, so it can: here by 2 to the power -21 over a second.
\<close>

theorem unlogged_accrual_above_ceiling:
  "\<exists>a. EconomyHandler (\<lambda>_. False) ''p'' (demo_ledger [demo_entry ''a'' 1000 (Fin 100) (Fin 0) (Fin 100) (Fin 0),
       demo_entry ''b'' 1001 (Fin 3) (Fin 0) (Fin (6291457 / 2097152)) (Fin (1 / 2097152))]) = OK a \<and>
     au_Reconciled a \<and> flt (au_MaxPlausibleAccrual a) (au_UnloggedAccrual a)"
proof -
  let ?a = "demo_entry ''a'' 1000 (Fin 100) (Fin 0) (Fin 100) (Fin 0)"
    and ?b = "demo_entry ''b'' 1001 (Fin 3) (Fin 0) (Fin (6291457 / 2097152)) (Fin (1 / 2097152))"
  let ?db = "demo_ledger [?a, ?b]" and ?es = "[gacha_event ?a, gacha_event ?b]"
  obtain st where st: "state_of ?db ''p'' = Some st" "enlightenment_rate st = Fin 1"
    by (simp add: state_of_def demo_ledger_def)
  have ev: "events_of ''p'' ?db = ?es" by (simp add: events_of_def demo_ledger_def demo_entry_def empty_db_def)
  have so: "sort_events ?es = ?es"
    by (simp add: sort_events_def event_less_def gacha_event_def demo_entry_def of_unix_def second_def)
  have dy: "to_f64 (6291457 / 2097152) = Fin (6291457 / 2097152)" "to_f64 (1 / 2097152) = Fin (1 / 2097152)"
      "to_f64 (3145729 / 1048576) = Fin (3145729 / 1048576)"
    using to_f64_dyadic [of 6291457 "- 21"] to_f64_dyadic [of 1 "- 21"] to_f64_dyadic [of 3145729 "- 20"]
    by (simp_all add: power_int_minus field_simps)
  have ints: "to_f64 3 = Fin 3" "to_f64 100 = Fin 100" "to_f64 0 = Fin 0"
    using to_f64_of_int [of 3] to_f64_of_int [of 100] to_f64_of_int [of 0] by simp_all
  have res: "identity_residual (gacha_event ?a) = Fin 0" "identity_residual (gacha_event ?b) = Fin 0"
    by (simp_all add: identity_residual_def gacha_event_def demo_entry_def fsub_def dy ints)
  have tol: "fle (Fin 0) (identity_tolerance e)" if "ea_BalanceBefore e = Fin x" "ea_BalanceAfter e = Fin y" for e x y
  proof -
    obtain r where r: "reconcileRelEpsilon = Fin r" "0 \<le> r" by (rule rel_epsilon_bounds)
    have "fmul reconcileRelEpsilon (fmax (fabs (Fin x)) (fabs (Fin y))) = to_f64 (r * max \<bar>x\<bar> \<bar>y\<bar>)"
      by (simp add: r fabs_def fmax_def max_def)
    moreover have "fle (to_f64 0) (to_f64 (r * max \<bar>x\<bar> \<bar>y\<bar>))" by (rule to_f64_mono) (use r(2) in simp)
    moreover have "fle (Fin 0) reconcileEpsilon" by (rule fle_trans [OF _ epsilon_lower]) simp
    ultimately show ?thesis unfolding identity_tolerance_def that ints by (simp add: fadd_nonneg)
  qed
  have no: "\<not> flt t (Fin 0)" if "fle (Fin 0) t" for t using that by (cases t) auto
  have rows: "\<not> identity_broken (gacha_event ?a)" "\<not> identity_broken (gacha_event ?b)"
    using no [OF tol [of "gacha_event ?a" 100 0]] no [OF tol [of "gacha_event ?b" "6291457 / 2097152" "1 / 2097152"]]
    unfolding identity_broken_def res by (simp_all add: fabs_def gacha_event_def demo_entry_def)
  have el: "pair_elapsed (gacha_event ?a) (gacha_event ?b) = Fin 1"
    using Seconds_whole [of 1]
    by (simp add: pair_elapsed_def gacha_event_def demo_entry_def of_unix_def time_sub_def second_def)
  have ceil: "pair_ceiling (Fin 1) (gacha_event ?a) (gacha_event ?b) = Fin 3"
    by (simp add: pair_ceiling_def el accrualMarginSecs_def ints)
  have gap: "pair_gap (gacha_event ?a) (gacha_event ?b) = Fin (6291457 / 2097152)"
    by (simp add: pair_gap_def gacha_event_def demo_entry_def fsub_def dy)
  have "fle (to_f64 (3145729 / 1048576)) (fadd (Fin 3) reconcileEpsilon)"
  proof -
    obtain x where x: "reconcileEpsilon = Fin x" by (rule epsilon_bounds)
    have "1 / 2 ^ 20 \<le> x" using epsilon_lower unfolding x fle_Fin .
    then show ?thesis unfolding x fadd.simps by (intro to_f64_mono) simp
  qed
  then have "fle (Fin (6291457 / 2097152)) (fadd (Fin 3) reconcileEpsilon)"
    unfolding dy by (rule fle_trans [rotated]) simp
  moreover have "fle (fneg reconcileEpsilon) (Fin (6291457 / 2097152))"
  proof -
    obtain x where x: "reconcileEpsilon = Fin x" "0 < x" by (rule epsilon_bounds)
    have "- x \<le> 6291457 / 2097152" by (rule order_trans [of _ 0]) (use x(2) in simp_all)
    then show ?thesis unfolding x(1) by simp
  qed
  ultimately have expl: "pair_explained (Fin 1) (gacha_event ?a) (gacha_event ?b)"
    by (simp add: pair_explained_def inBounds_def gap ceil)
  have w: "walk_all (Fin 1) ?es [] = \<lparr>wk_anomalies = [], wk_unlogged = Fin (6291457 / 2097152), wk_maxPlausible = Fin 3, wk_sameSecond = False\<rparr>"
    by (simp add: walk_all_def walk_pair_def Let_def el ceil gap expl dy ints)
  have "row_anomalies ?es = []" by (simp add: row_anomalies_def rows)
  then have "au_Reconciled (audit_of ''p'' st ?es) \<and> au_MaxPlausibleAccrual (audit_of ''p'' st ?es) = Fin 3 \<and>
      au_UnloggedAccrual (audit_of ''p'' st ?es) = Fin (6291457 / 2097152)"
    unfolding audit_of_def Let_def so st(2) by (simp only: w) simp
  moreover have "EconomyHandler (\<lambda>_. False) ''p'' ?db = OK (audit_of ''p'' st ?es)"
    using st(1) ev by (simp add: EconomyHandler_def)
  ultimately show ?thesis by (intro exI [of _ "audit_of ''p'' st ?es"]) simp
qed

end
