(* ===== verification/Schema.thy ===== *)
theory Schema
  imports Prelude
begin

text \<open>
  The schema of the SQLite file and its upgrade at boot (\<open>pkg/sqlitedb/sqlitedb.go\<close>, \<open>New\<close> up to the
  backfills): the file as tables of named columns, the \<open>CREATE ... IF NOT EXISTS\<close> script, and the ALTER
  statements whose expected error is swallowed. A file of any earlier version comes out with every column
  that the handlers use, with its rows kept, and a second boot changes nothing.
\<close>

section \<open>Files\<close>

datatype cell = Null | IntCell int | RealCell int | TextCell string

record stored_table =
  st_columns :: "string list"
  st_rows :: "(string \<Rightarrow> cell option) list"

type_synonym sqlite_file = "string \<Rightarrow> stored_table option"

datatype ddl_error = NoSuchTable | NoSuchColumn | DuplicateColumn | DriverError

section \<open>The schema script\<close>

definition schema :: "(string \<times> string list) list" where
  "schema =
     [(''players'', [''id'', ''steam_id'', ''created_at'', ''last_login'']),
      (''player_states'', [''player_id'', ''enlightenment_pts'', ''time_stone_count'', ''streak_days'',
         ''last_login_date'', ''next_gacha_at'', ''enlightenment_rate'', ''last_sync_at'',
         ''cairn_last_growth_at'', ''updated_at'']),
      (''inventories'', [''id'', ''player_id'', ''item_id'', ''rarity'', ''count'', ''item_type'', ''source_type'',
         ''acquired_at'']),
      (''gacha_logs'', [''id'', ''player_id'', ''item_id'', ''rarity'', ''is_duplicate'', ''refund_points'',
         ''cost_points'', ''gacha_seed_hash'', ''pulled_at'', ''balance_before'', ''balance_after'', ''accrued_pts'']),
      (''vow_logs'', [''id'', ''player_id'', ''base_rarity'', ''target_rarity'', ''success_rate'', ''cost_points'',
         ''result'', ''reward_item_id'', ''reward_rarity'', ''is_duplicate'', ''materials'', ''prayed_at'',
         ''balance_before'', ''balance_after'', ''accrued_pts'']),
      (''player_achievements'', [''player_id'', ''achievement_id'', ''unlocked_at'', ''steam_synced'']),
      (''wish_cairn_slots'', [''player_id'', ''slot_index'', ''started_at'', ''claimed_at'', ''layer_count'']),
      (''achievement_retry_queue'', [''id'', ''player_id'', ''achievement_id'', ''retry_count'', ''last_error'',
         ''next_retry_at'', ''resolved_at'', ''created_at''])]"

text \<open>The columns of the indexes; an index on a column that the table lacks is an error.\<close>

definition indexes :: "(string \<times> string list) list" where
  "indexes =
     [(''gacha_logs'', [''player_id'', ''pulled_at'']), (''vow_logs'', [''player_id'', ''prayed_at'']),
      (''player_achievements'', [''player_id'']), (''achievement_retry_queue'', [''next_retry_at'', ''resolved_at''])]"

definition create_table :: "string \<times> string list \<Rightarrow> sqlite_file \<Rightarrow> sqlite_file" where
  "create_table tc f =
     (case f (fst tc) of None \<Rightarrow> f(fst tc \<mapsto> \<lparr>st_columns = snd tc, st_rows = []\<rparr>) | Some _ \<Rightarrow> f)"

definition index_error :: "sqlite_file \<Rightarrow> string \<times> string list \<Rightarrow> ddl_error option" where
  "index_error f tc =
     (case f (fst tc) of
        None \<Rightarrow> Some NoSuchTable
      | Some tb \<Rightarrow> if set (snd tc) \<subseteq> set (st_columns tb) then None else Some NoSuchColumn)"

definition apply_schema :: "sqlite_file \<Rightarrow> ddl_error + sqlite_file" where
  "apply_schema f =
     (let f1 = fold create_table schema f in
      case find (\<lambda>e. e \<noteq> None) (map (index_error f1) indexes) of
        Some (Some e) \<Rightarrow> Inl e
      | _ \<Rightarrow> Inr f1)"

section \<open>The ALTER statements\<close>

datatype alter = AddColumn string string cell | DropColumn string string

definition alters :: "alter list" where
  "alters =
     [DropColumn ''player_states'' ''pity_count'',
      AddColumn ''inventories'' ''count'' (IntCell 1),
      AddColumn ''inventories'' ''item_type'' (TextCell ''stone_skin''),
      AddColumn ''inventories'' ''source_type'' (TextCell ''unknown''),
      AddColumn ''player_states'' ''enlightenment_rate'' (RealCell 1),
      AddColumn ''player_states'' ''last_sync_at'' Null,
      AddColumn ''gacha_logs'' ''balance_before'' (RealCell 0),
      AddColumn ''gacha_logs'' ''balance_after'' (RealCell 0),
      AddColumn ''gacha_logs'' ''accrued_pts'' (RealCell 0),
      AddColumn ''vow_logs'' ''balance_before'' (RealCell 0),
      AddColumn ''vow_logs'' ''balance_after'' (RealCell 0),
      AddColumn ''vow_logs'' ''accrued_pts'' (RealCell 0),
      AddColumn ''wish_cairn_slots'' ''layer_count'' (IntCell 0),
      AddColumn ''player_states'' ''cairn_last_growth_at'' Null]"

fun exec_alter :: "alter \<Rightarrow> sqlite_file \<Rightarrow> ddl_error + sqlite_file" where
  "exec_alter (AddColumn t c d) f =
     (case f t of
        None \<Rightarrow> Inl NoSuchTable
      | Some tb \<Rightarrow>
          if c \<in> set (st_columns tb) then Inl DuplicateColumn
          else Inr (f(t \<mapsto> \<lparr>st_columns = st_columns tb @ [c], st_rows = map (\<lambda>r. r(c \<mapsto> d)) (st_rows tb)\<rparr>)))"
| "exec_alter (DropColumn t c) f =
     (case f t of
        None \<Rightarrow> Inl NoSuchTable
      | Some tb \<Rightarrow>
          if c \<notin> set (st_columns tb) then Inl NoSuchColumn
          else Inr (f(t \<mapsto> \<lparr>st_columns = filter (\<lambda>x. x \<noteq> c) (st_columns tb), st_rows = map (\<lambda>r. r(c := None)) (st_rows tb)\<rparr>)))"

text \<open>Only the error that a file of this version gives is swallowed.\<close>

fun swallowed :: "alter \<Rightarrow> ddl_error \<Rightarrow> bool" where
  "swallowed (AddColumn _ _ _) e = (e = DuplicateColumn)"
| "swallowed (DropColumn _ _) e = (e = NoSuchColumn)"

definition run_alter :: "bool \<Rightarrow> alter \<Rightarrow> sqlite_file \<Rightarrow> ddl_error + sqlite_file" where
  "run_alter fault a f =
     (case (if fault then Inl DriverError else exec_alter a f) of
        Inl e \<Rightarrow> if swallowed a e then Inr f else Inl e
      | Inr f1 \<Rightarrow> Inr f1)"

fun run_alters :: "faults \<Rightarrow> nat \<Rightarrow> alter list \<Rightarrow> sqlite_file \<Rightarrow> ddl_error + sqlite_file" where
  "run_alters ft k [] f = Inr f"
| "run_alters ft k (a # as) f = bindE (run_alter (ft k) a f) (run_alters ft (Suc k) as)"

text \<open>
  \<open>New\<close> before the backfills: opening the file, the three pragmas and the ping may fail (\<open>ft 0\<close>), then
  the script and the ALTER statements run one after the other.
\<close>

definition upgrade :: "faults \<Rightarrow> sqlite_file \<Rightarrow> ddl_error + sqlite_file" where
  "upgrade ft f =
     (if ft 0 \<or> ft 1 then Inl DriverError
      else bindE (apply_schema f) (run_alters ft 2 alters))"

section \<open>What the statements do\<close>

text \<open>On a table that exists an ALTER has one outcome: the column is there, or it is gone.\<close>

fun altered :: "alter \<Rightarrow> stored_table \<Rightarrow> stored_table" where
  "altered (AddColumn t c d) tb =
     (if c \<in> set (st_columns tb) then tb
      else \<lparr>st_columns = st_columns tb @ [c], st_rows = map (\<lambda>r. r(c \<mapsto> d)) (st_rows tb)\<rparr>)"
| "altered (DropColumn t c) tb =
     (if c \<notin> set (st_columns tb) then tb
      else \<lparr>st_columns = filter (\<lambda>x. x \<noteq> c) (st_columns tb), st_rows = map (\<lambda>r. r(c := None)) (st_rows tb)\<rparr>)"

fun alter_table :: "alter \<Rightarrow> string" where
  "alter_table (AddColumn t _ _) = t"
| "alter_table (DropColumn t _) = t"

lemma run_alter_altered:
  assumes "f (alter_table a) = Some tb"
  shows "run_alter False a f = Inr (f(alter_table a \<mapsto> altered a tb))"
  using assms by (cases a) (auto simp: run_alter_def fun_upd_idem)

lemma run_alters_altered:
  assumes "\<forall>a \<in> set as. f (alter_table a) \<noteq> None" and "\<And>k. \<not> ft k"
  shows "run_alters ft k as f =
    Inr (\<lambda>t. map_option (fold altered (filter (\<lambda>a. alter_table a = t) as)) (f t))"
  using assms(1)
proof (induction as arbitrary: f k)
  case Nil
  then show ?case by (simp add: option.map_id [unfolded id_def])
next
  case (Cons a as)
  obtain tb where tb: "f (alter_table a) = Some tb" using Cons.prems by auto
  let ?f = "f(alter_table a \<mapsto> altered a tb)"
  have "run_alters ft k (a # as) f = run_alters ft (Suc k) as ?f"
    using run_alter_altered [of f a tb, OF tb] assms(2) by simp
  also have "\<dots> = Inr (\<lambda>t. map_option (fold altered (filter (\<lambda>a. alter_table a = t) as)) (?f t))"
    by (rule Cons.IH) (use Cons.prems in auto)
  also have "\<dots> = Inr (\<lambda>t. map_option (fold altered (filter (\<lambda>a. alter_table a = t) (a # as))) (f t))"
    using tb by (auto intro!: ext)
  finally show ?case .
qed

text \<open>A table after its ALTER statements: which columns it has, and what its rows hold.\<close>

definition added :: "alter list \<Rightarrow> string set" where
  "added as = set (concat (map (\<lambda>a. case a of AddColumn _ c _ \<Rightarrow> [c] | DropColumn _ _ \<Rightarrow> []) as))"

definition dropped :: "alter list \<Rightarrow> string set" where
  "dropped as = set (concat (map (\<lambda>a. case a of AddColumn _ _ _ \<Rightarrow> [] | DropColumn _ c \<Rightarrow> [c]) as))"

lemma added_simps [simp]:
  "added [] = {}" "added (AddColumn t c d # as) = insert c (added as)" "added (DropColumn t c # as) = added as"
  by (auto simp: added_def)

lemma dropped_simps [simp]:
  "dropped [] = {}" "dropped (DropColumn t c # as) = insert c (dropped as)" "dropped (AddColumn t c d # as) = dropped as"
  by (auto simp: dropped_def)

lemma altered_columns:
  assumes "added as \<inter> dropped as = {}"
  shows "set (st_columns (fold altered as tb)) = (set (st_columns tb) \<union> added as) - dropped as"
  using assms
proof (induction as arbitrary: tb)
  case (Cons a as)
  then show ?case by (cases a) (auto split: if_splits)
qed simp

lemma altered_rows_length: "length (st_rows (fold altered as tb)) = length (st_rows tb)"
proof (induction as arbitrary: tb)
  case (Cons a as)
  then show ?case by (cases a) simp_all
qed simp

lemma altered_keeps:
  assumes "c \<in> set (st_columns tb)" and "c \<notin> dropped as" and "i < length (st_rows tb)"
  shows "(st_rows (fold altered as tb) ! i) c = (st_rows tb ! i) c"
  using assms
proof (induction as arbitrary: tb)
  case (Cons a as)
  have "c \<in> set (st_columns (altered a tb))" "i < length (st_rows (altered a tb))" "c \<notin> dropped as"
    "(st_rows (altered a tb) ! i) c = (st_rows tb ! i) c"
    using Cons.prems by (cases a; auto)+
  then show ?case using Cons.IH [of "altered a tb"] by simp
qed simp

lemma altered_idle:
  assumes "added as \<subseteq> set (st_columns tb)" and "dropped as \<inter> set (st_columns tb) = {}"
  shows "fold altered as tb = tb"
  using assms
proof (induction as arbitrary: tb)
  case (Cons a as)
  have "altered a tb = tb" using Cons.prems by (cases a) auto
  then show ?case using Cons by (cases a) auto
qed simp


section \<open>The upgrade\<close>

lemma fold_create_table:
  assumes "distinct (map fst tcs)"
  shows "fold create_table tcs f t =
    (case f t of Some tb \<Rightarrow> Some tb
     | None \<Rightarrow> map_option (\<lambda>cs. \<lparr>st_columns = cs, st_rows = []\<rparr>) (map_of tcs t))"
  using assms
proof (induction tcs arbitrary: f)
  case (Cons tc tcs)
  obtain n cs where tc: "tc = (n, cs)" by (cases tc)
  have "map_of tcs n = None" using Cons.prems tc by (simp add: map_of_eq_None_iff)
  then show ?case using Cons tc by (auto simp: create_table_def split: option.splits)
qed (simp split: option.split)

lemma schema_names [simp]: "distinct (map fst schema)"
  by (simp add: schema_def)

text \<open>The statements on one table.\<close>

definition for_table :: "string \<Rightarrow> alter list" where
  "for_table t = filter (\<lambda>a. alter_table a = t) alters"

text \<open>
  A file of an earlier version: a table that exists has every column of the script, but for those that came
  later, by the migrations 9, 12, 13, 16 and 17.
\<close>

definition later_columns :: "string \<Rightarrow> string list" where
  "later_columns t =
     (case map_of
        [(''player_states'', [''enlightenment_rate'', ''last_sync_at'', ''cairn_last_growth_at'']),
         (''inventories'', [''count'', ''item_type'', ''source_type'']),
         (''gacha_logs'', [''balance_before'', ''balance_after'', ''accrued_pts'']),
         (''vow_logs'', [''balance_before'', ''balance_after'', ''accrued_pts'']),
         (''wish_cairn_slots'', [''layer_count''])] t of
        None \<Rightarrow> [] | Some cs \<Rightarrow> cs)"

definition earlier_version :: "sqlite_file \<Rightarrow> bool" where
  "earlier_version f \<longleftrightarrow>
     (\<forall>(t, cs) \<in> set schema. case f t of None \<Rightarrow> True | Some tb \<Rightarrow> set cs \<subseteq> set (st_columns tb) \<union> set (later_columns t))"

lemma later_columns_added: "(t, cs) \<in> set schema \<Longrightarrow> set (later_columns t) = added (for_table t)"
proof -
  have "\<forall>(t, cs) \<in> set schema. set (later_columns t) = added (for_table t)" by code_simp
  then show "(t, cs) \<in> set schema \<Longrightarrow> set (later_columns t) = added (for_table t)" by blast
qed

lemma earlier_versionD:
  assumes "earlier_version f" and "(t, cs) \<in> set schema" and "f t = Some tb"
  shows "set cs \<subseteq> set (st_columns tb) \<union> added (for_table t)"
  using assms(1) [unfolded earlier_version_def, THEN bspec, OF assms(2)] assms(3) later_columns_added [OF assms(2)]
  by simp

lemma alters_of_schema: "\<forall>a \<in> set alters. alter_table a \<in> fst ` set schema"
  by (simp add: alters_def schema_def)

lemma for_table_facts:
  assumes "(t, cs) \<in> set schema"
  shows "added (for_table t) \<subseteq> set cs" and "dropped (for_table t) \<inter> set cs = {}"
proof -
  have "\<forall>(t, cs) \<in> set schema. added (for_table t) \<subseteq> set cs \<and> dropped (for_table t) \<inter> set cs = {}" by code_simp
  then show "added (for_table t) \<subseteq> set cs" and "dropped (for_table t) \<inter> set cs = {}" using assms by auto
qed

lemma index_columns:
  assumes "(t, ics) \<in> set indexes"
  shows "\<exists>cs. (t, cs) \<in> set schema \<and> set ics \<subseteq> set cs - added (for_table t)"
proof -
  have "\<forall>(t, ics) \<in> set indexes. \<exists>(t', cs) \<in> set schema. t' = t \<and> set ics \<subseteq> set cs - added (for_table t)" by code_simp
  then show ?thesis using assms by fastforce
qed

lemma apply_schema_earlier:
  assumes "earlier_version f"
  shows "apply_schema f = Inr (fold create_table schema f)"
proof -
  let ?g = "fold create_table schema f"
  have "index_error ?g (t, ics) = None" if i: "(t, ics) \<in> set indexes" for t ics
  proof -
    obtain cs where cs: "(t, cs) \<in> set schema" "set ics \<subseteq> set cs - added (for_table t)"
      using index_columns [OF i] by blast
    then have m: "map_of schema t = Some cs" by simp
    show ?thesis
    proof (cases "f t")
      case None
      then show ?thesis using cs m by (auto simp: index_error_def fold_create_table)
    next
      case (Some tb)
      then show ?thesis
        using earlier_versionD [OF assms cs(1) Some] cs(2) by (auto simp: index_error_def fold_create_table)
    qed
  qed
  then have "find (\<lambda>e. e \<noteq> None) (map (index_error ?g) indexes) = None" by (auto simp: find_None_iff)
  then show ?thesis by (simp add: apply_schema_def Let_def)
qed

text \<open>The upgraded file, table by table.\<close>

definition upgraded :: "sqlite_file \<Rightarrow> sqlite_file" where
  "upgraded f = (\<lambda>t. map_option (fold altered (for_table t)) (fold create_table schema f t))"

lemma created: "(t, cs) \<in> set schema \<Longrightarrow>
    fold create_table schema f t = Some (case f t of Some tb \<Rightarrow> tb | None \<Rightarrow> \<lparr>st_columns = cs, st_rows = []\<rparr>)"
  by (simp add: fold_create_table split: option.split)

lemma upgrade_eq:
  assumes "earlier_version f" and "\<And>k. \<not> ft k"
  shows "upgrade ft f = Inr (upgraded f)"
proof -
  have "\<forall>a \<in> set alters. fold create_table schema f (alter_table a) \<noteq> None"
    using alters_of_schema created by fastforce
  then have "run_alters ft 2 alters (fold create_table schema f) = Inr (upgraded f)"
    unfolding upgraded_def for_table_def by (rule run_alters_altered) (rule assms(2))
  then show ?thesis using assms by (simp add: upgrade_def apply_schema_earlier)
qed

lemma upgraded_table:
  assumes "earlier_version f" and "(t, cs) \<in> set schema"
  obtains tb where "upgraded f t = Some tb" and "set cs \<subseteq> set (st_columns tb)"
    and "dropped (for_table t) \<inter> set (st_columns tb) = {}"
proof -
  define tb where "tb = (case f t of Some tb \<Rightarrow> tb | None \<Rightarrow> \<lparr>st_columns = cs, st_rows = []\<rparr>)"
  note facts = for_table_facts [OF assms(2)]
  have "added (for_table t) \<inter> dropped (for_table t) = {}" using facts by blast
  note cols = altered_columns [OF this, of tb]
  have "set cs \<subseteq> set (st_columns tb) \<union> added (for_table t)"
    using earlier_versionD [OF assms] by (cases "f t") (simp_all add: tb_def)
  then have "set cs \<subseteq> set (st_columns (fold altered (for_table t) tb))" using facts cols by blast
  moreover have "dropped (for_table t) \<inter> set (st_columns (fold altered (for_table t) tb)) = {}" using cols by blast
  moreover have "upgraded f t = Some (fold altered (for_table t) tb)"
    using created [OF assms(2), of f] by (simp add: upgraded_def tb_def)
  ultimately show thesis using that by blast
qed

lemma upgraded_idle:
  assumes "earlier_version f"
  shows "earlier_version (upgraded f)" and "upgraded (upgraded f) = upgraded f"
proof -
  show "earlier_version (upgraded f)"
    unfolding earlier_version_def
  proof clarify
    fix t cs assume "(t, cs) \<in> set schema"
    from upgraded_table [OF assms this] show "case upgraded f t of None \<Rightarrow> True
        | Some tb \<Rightarrow> set cs \<subseteq> set (st_columns tb) \<union> set (later_columns t)"
      by (metis (no_types, lifting) le_supI1 option.simps(5))
  qed
  show "upgraded (upgraded f) = upgraded f"
  proof
    fix t
    show "upgraded (upgraded f) t = upgraded f t"
    proof (cases "t \<in> fst ` set schema")
      case True
      then obtain cs where t: "(t, cs) \<in> set schema" by auto
      obtain tb where tb: "upgraded f t = Some tb" "set cs \<subseteq> set (st_columns tb)"
        "dropped (for_table t) \<inter> set (st_columns tb) = {}" using assms t by (rule upgraded_table)
      then have "fold altered (for_table t) tb = tb"
        using for_table_facts [OF t] by (intro altered_idle) auto
      then show ?thesis using tb created [OF t, of "upgraded f"] by (simp add: upgraded_def [of "upgraded f"])
    next
      case False
      then have "for_table t = []" using alters_of_schema by (auto simp: for_table_def filter_empty_conv)
      moreover have "map_of schema t = None" using False by (simp add: map_of_eq_None_iff)
      ultimately show ?thesis by (simp add: upgraded_def fold_create_table split: option.split)
    qed
  qed
qed

text \<open>What a table keeps: the number and order of its rows, and every value but that of a dropped column.\<close>

definition keeps_rows :: "string set \<Rightarrow> stored_table \<Rightarrow> stored_table \<Rightarrow> bool" where
  "keeps_rows gone tb tb' \<longleftrightarrow> length (st_rows tb') = length (st_rows tb) \<and>
     (\<forall>i < length (st_rows tb). \<forall>c \<in> set (st_columns tb) - gone. (st_rows tb' ! i) c = (st_rows tb ! i) c)"


text \<open>A file from before the first of the ALTER statements, with one player.\<close>

definition old_file :: sqlite_file where
  "old_file = [''player_states'' \<mapsto>
     \<lparr>st_columns = [''player_id'', ''enlightenment_pts'', ''time_stone_count'', ''streak_days'', ''last_login_date'',
        ''next_gacha_at'', ''updated_at'', ''pity_count''],
      st_rows = [[''player_id'' \<mapsto> TextCell ''p'', ''enlightenment_pts'' \<mapsto> RealCell 40, ''pity_count'' \<mapsto> IntCell 3]]\<rparr>]"


end
