(* ===== verification/Services.thy ===== *)
theory Services
  imports Auth KvStore
begin

text \<open>
  What the server reaches through a library: the private key (\<open>ParsePrivateKey\<close> in
  \<open>internal/auth/jwt.go\<close>), the migrations and the pool of the PostgreSQL mode (\<open>pkg/db/db.go\<close>), the
  Redis client (\<open>pkg/cache/cache.go\<close>) and its adapter to the key-value interface
  (\<open>pkg/kvstore/redisadapter.go\<close>), the adapters of the two SQL drivers (\<open>pkg/store\<close>). The libraries are parameters; modelled is what the code makes of
  their answers.
\<close>

section \<open>The private key\<close>

record pem_block =
  pb_Type :: string
  pb_Bytes :: "8 word list"

text \<open>
  The parsers of the key, a key seen as \<open>'k\<close>: \<open>pem.Decode\<close>, PKCS1, and PKCS8, whose inner \<open>None\<close> is a key
  that is not RSA.
\<close>

record 'k key_parsers =
  pemDecode :: "string \<Rightarrow> pem_block option"
  pkcs1 :: "8 word list \<Rightarrow> 'k option"
  pkcs8 :: "8 word list \<Rightarrow> 'k option option"

datatype key_error = NoPemBlock | BadPKCS1 | BadPKCS8 | NotRSA | UnsupportedBlock string

text \<open>\<open>strings.ReplaceAll(s, `\n`, "\n")\<close>: a backslash and an n, as environment files hold them.\<close>

fun unescape_newlines :: "string \<Rightarrow> string" where
  "unescape_newlines [] = []"
| "unescape_newlines (c # s) =
     (case s of
        [] \<Rightarrow> [c]
      | d # s' \<Rightarrow> if c = CHR 0x5C \<and> d = CHR ''n'' then CHR 0x0A # unescape_newlines s' else c # unescape_newlines s)"

definition ParsePrivateKey :: "'k key_parsers \<Rightarrow> string \<Rightarrow> key_error + 'k" where
  "ParsePrivateKey ps pemStr =
     (case pemDecode ps (unescape_newlines pemStr) of
        None \<Rightarrow> Inl NoPemBlock
      | Some block \<Rightarrow>
          if pb_Type block = ''RSA PRIVATE KEY'' then
            (case pkcs1 ps (pb_Bytes block) of None \<Rightarrow> Inl BadPKCS1 | Some key \<Rightarrow> Inr key)
          else if pb_Type block = ''PRIVATE KEY'' then
            (case pkcs8 ps (pb_Bytes block) of
               None \<Rightarrow> Inl BadPKCS8
             | Some None \<Rightarrow> Inl NotRSA
             | Some (Some key) \<Rightarrow> Inr key)
          else Inl (UnsupportedBlock (pb_Type block)))"

text \<open>The key may be given on one line, with the line ends escaped.\<close>

fun escape_newlines :: "string \<Rightarrow> string" where
  "escape_newlines [] = []"
| "escape_newlines (c # s) = (if c = CHR 0x0A then CHR 0x5C # CHR ''n'' # escape_newlines s else c # escape_newlines s)"

lemma escape_newlines_n: "escape_newlines s = CHR ''n'' # r \<Longrightarrow> \<exists>s'. s = CHR ''n'' # s' \<and> r = escape_newlines s'"
  by (cases s) (auto split: if_splits)

lemma unescape_plain: "\<not> (c = CHR 0x5C \<and> (\<exists>r. s = CHR ''n'' # r)) \<Longrightarrow> unescape_newlines (c # s) = c # unescape_newlines s"
  by (cases s) simp_all

lemma unescape_escape: "unescape_newlines (escape_newlines s) = unescape_newlines s"
proof (induction s rule: unescape_newlines.induct)
  case (2 c s)
  show ?case
  proof (cases "c = CHR 0x5C \<and> (\<exists>s'. s = CHR ''n'' # s')")
    case True
    then obtain s' where s': "c = CHR 0x5C" "s = CHR ''n'' # s'" by blast
    have "unescape_newlines (escape_newlines s') = unescape_newlines s'" by (rule 2(1)) (use s' in simp_all)
    then show ?thesis using s' by simp
  next
    case False
    have ih: "unescape_newlines (escape_newlines s) = unescape_newlines s"
      using 2(2) False by (cases s) auto
    have "\<not> (c = CHR 0x5C \<and> (\<exists>r. escape_newlines s = CHR ''n'' # r))" using False escape_newlines_n by blast
    note plain = unescape_plain [OF this] unescape_plain [OF False]
    show ?thesis
    proof (cases "c = CHR 0x0A")
      case True
      then show ?thesis using ih plain(2) by simp
    next
      case False
      then have "escape_newlines (c # s) = c # escape_newlines s" by simp
      then show ?thesis using ih plain by metis
    qed
  qed
qed simp

lemma ParsePrivateKey_escaped: "ParsePrivateKey ps (escape_newlines pem) = ParsePrivateKey ps pem"
  by (simp add: ParsePrivateKey_def unescape_escape)

section \<open>PostgreSQL and the Redis client\<close>

datatype service_error =
  MigrationSource | MigratorFailed | MigrateFailed | PoolURL | PoolCreate | PoolPing | RedisURL

text \<open>The outcome of \<open>Up\<close>; a data base that is up to date is no error.\<close>

datatype up_result = UpDone | ErrNoChange | UpFailed

record pool_config =
  pc_conn :: string
  MaxConns :: int
  MaxConnIdleTime :: int

record redis_options =
  ro_addr :: string
  ConnMaxIdleTime :: int
  MinIdleConns :: int

text \<open>
  The libraries: whether the embedded migrations can be read, the migrator of a URL with the outcome of its
  \<open>Up\<close>, the two URL parsers, and the pool of a configuration with the outcome of its ping.
\<close>

record services =
  ds_source :: bool
  ds_migrator :: "string \<Rightarrow> up_result option"
  ds_poolConfig :: "string \<Rightarrow> pool_config option"
  ds_newPool :: "pool_config \<Rightarrow> bool option"
  ds_redisOptions :: "string \<Rightarrow> redis_options option"

definition RunMigrations :: "services \<Rightarrow> string \<Rightarrow> service_error + unit" where
  "RunMigrations ds dbURL =
     (if \<not> ds_source ds then Inl MigrationSource
      else case ds_migrator ds dbURL of
        None \<Rightarrow> Inl MigratorFailed
      | Some up \<Rightarrow> if up \<noteq> UpDone \<and> up \<noteq> ErrNoChange then Inl MigrateFailed else Inr ())"

definition NewPool :: "services \<Rightarrow> string \<Rightarrow> service_error + pool_config" where
  "NewPool ds dbURL =
     (case ds_poolConfig ds dbURL of
        None \<Rightarrow> Inl PoolURL
      | Some parsed \<Rightarrow>
          let cfg = parsed\<lparr>MaxConns := 50, MaxConnIdleTime := 5 * 60 * second\<rparr> in
          (case ds_newPool ds cfg of
             None \<Rightarrow> Inl PoolCreate
           | Some ping \<Rightarrow> if ping then Inr cfg else Inl PoolPing))"

text \<open>The client does not connect before its first command, so a Redis that is down does not stop the boot.\<close>

definition NewClient :: "services \<Rightarrow> string \<Rightarrow> service_error + redis_options" where
  "NewClient ds redisURL =
     (case ds_redisOptions ds redisURL of
        None \<Rightarrow> Inl RedisURL
      | Some opt \<Rightarrow> Inr (opt\<lparr>ConnMaxIdleTime := 5 * 60 * second, MinIdleConns := 0\<rparr>))"

section \<open>The Redis adapter\<close>

text \<open>
  The commands of the Redis client, over the state of the service. \<open>RedisNil\<close> is the reply to a read of
  a key that does not exist; \<open>Exists\<close> and the writes reply with a number.
\<close>

datatype redis_error = RedisNil | RedisFailed

record 's redis_client =
  rd_get :: "int \<Rightarrow> string \<Rightarrow> 's \<Rightarrow> (redis_error + string) \<times> 's"
  rd_set :: "int \<Rightarrow> string \<Rightarrow> string \<Rightarrow> int \<Rightarrow> 's \<Rightarrow> (redis_error + string) \<times> 's"
  rd_setnx :: "int \<Rightarrow> string \<Rightarrow> string \<Rightarrow> int \<Rightarrow> 's \<Rightarrow> (redis_error + bool) \<times> 's"
  rd_del :: "string list \<Rightarrow> 's \<Rightarrow> (redis_error + int) \<times> 's"
  rd_exists :: "int \<Rightarrow> string \<Rightarrow> 's \<Rightarrow> (redis_error + int) \<times> 's"
  rd_incrby :: "int \<Rightarrow> string \<Rightarrow> int \<Rightarrow> 's \<Rightarrow> (redis_error + int) \<times> 's"
  rd_expire :: "int \<Rightarrow> string \<Rightarrow> int \<Rightarrow> 's \<Rightarrow> (redis_error + bool) \<times> 's"
  rd_lpush :: "string \<Rightarrow> string \<Rightarrow> 's \<Rightarrow> (redis_error + int) \<times> 's"
  rd_rpush :: "string \<Rightarrow> string \<Rightarrow> 's \<Rightarrow> (redis_error + int) \<times> 's"
  rd_rpop :: "string \<Rightarrow> 's \<Rightarrow> (redis_error + string) \<times> 's"

text \<open>
  \<open>Get\<close> and \<open>RPop\<close> translate \<open>redis.Nil\<close> to \<open>ErrNotFound\<close>; every other error goes through, and is not
  \<open>ErrNotFound\<close>.
\<close>

fun or_not_found :: "redis_error + string \<Rightarrow> string kv_result" where
  "or_not_found (Inl e) = Inl (if e = RedisNil then NotFound else KvFail)"
| "or_not_found (Inr v) = Inr v"

fun passed :: "('a \<Rightarrow> 'b) \<Rightarrow> redis_error + 'a \<Rightarrow> 'b kv_result" where
  "passed f (Inl e) = Inl KvFail"
| "passed f (Inr v) = Inr (f v)"

definition RedisStore :: "'s redis_client \<Rightarrow> 's kv_ops" where
  "RedisStore rdb = \<lparr>
     kv_get = (\<lambda>t key s. apfst or_not_found (rd_get rdb t key s)),
     kv_set = (\<lambda>t key v ttl s. apfst (passed (\<lambda>_. ())) (rd_set rdb t key v ttl s)),
     kv_setnx = (\<lambda>t key v ttl s. apfst (passed (\<lambda>b. b)) (rd_setnx rdb t key v ttl s)),
     kv_del = (\<lambda>keys s. apfst (passed (\<lambda>_. ())) (rd_del rdb keys s)),
     kv_exists = (\<lambda>t key s. apfst (passed (\<lambda>n. n > 0)) (rd_exists rdb t key s)),
     kv_incrby = (\<lambda>t key n s. apfst (passed (\<lambda>m. m)) (rd_incrby rdb t key n s)),
     kv_expire = (\<lambda>t key ttl s. apfst (passed (\<lambda>_. ())) (rd_expire rdb t key ttl s)),
     kv_lpush = (\<lambda>key v s. apfst (passed (\<lambda>_. ())) (rd_lpush rdb key v s)),
     kv_rpush = (\<lambda>key v s. apfst (passed (\<lambda>_. ())) (rd_rpush rdb key v s)),
     kv_rpop = (\<lambda>key s. apfst or_not_found (rd_rpop rdb key s))\<rparr>"

text \<open>
  The adapter loses nothing: over a client whose replies are those of the commands on a \<open>MemStore\<close> it is the
  in-memory provider itself, so that the contracts hold for it as well.
\<close>

fun reply :: "('a \<Rightarrow> 'b) \<Rightarrow> 'a kv_result \<Rightarrow> redis_error + 'b" where
  "reply f (Inl e) = Inl (if e = NotFound then RedisNil else RedisFailed)"
| "reply f (Inr v) = Inr (f v)"

definition mem_redis :: "mem_store redis_client" where
  "mem_redis = \<lparr>
     rd_get = (\<lambda>t key m. apfst (reply (\<lambda>v. v)) (MemStore_Get t key m)),
     rd_set = (\<lambda>t key v ttl m. apfst (reply (\<lambda>_. ''OK'')) (MemStore_Set t key v ttl m)),
     rd_setnx = (\<lambda>t key v ttl m. apfst (reply (\<lambda>b. b)) (MemStore_SetNX t key v ttl m)),
     rd_del = (\<lambda>keys m. apfst (reply (\<lambda>_. int (length (filter (\<lambda>k. map_of (kv m) k \<noteq> None) (remdups keys))))) (MemStore_Del keys m)),
     rd_exists = (\<lambda>t key m. apfst (reply (\<lambda>b. if b then 1 else 0)) (MemStore_Exists t key m)),
     rd_incrby = (\<lambda>t key n m. apfst (reply (\<lambda>v. v)) (MemStore_IncrBy t key n m)),
     rd_expire = (\<lambda>t key ttl m. apfst (reply (\<lambda>_. mem_view m t key \<noteq> None)) (MemStore_Expire t key ttl m)),
     rd_lpush = (\<lambda>key v m. apfst (reply (\<lambda>_. int (length (lists m key)) + 1)) (MemStore_LPush key v m)),
     rd_rpush = (\<lambda>key v m. apfst (reply (\<lambda>_. int (length (lists m key)) + 1)) (MemStore_RPush key v m)),
     rd_rpop = (\<lambda>key m. apfst (reply (\<lambda>v. v)) (MemStore_RPop key m))\<rparr>"

lemma or_not_found_reply [simp]: "or_not_found (reply (\<lambda>v. v) r) = r"
proof (cases r)
  case (Inl e)
  then show ?thesis by (cases e) simp_all
qed simp

lemma passed_reply: "r \<noteq> Inl NotFound \<Longrightarrow> (\<And>v. f (g v) = v) \<Longrightarrow> passed f (reply g r) = r"
proof (cases r)
  case (Inl e)
  then show "r \<noteq> Inl NotFound \<Longrightarrow> ?thesis" by (cases e) simp_all
qed simp

lemma mem_never_not_found:
  "fst (MemStore_Set t k v ttl m) \<noteq> Inl NotFound" "fst (MemStore_SetNX t k v ttl m) \<noteq> Inl NotFound"
  "fst (MemStore_Del ks m) \<noteq> Inl NotFound" "fst (MemStore_Exists t k m) \<noteq> Inl NotFound"
  "fst (MemStore_IncrBy t k n m) \<noteq> Inl NotFound" "fst (MemStore_Expire t k ttl m) \<noteq> Inl NotFound"
  "fst (MemStore_LPush k v m) \<noteq> Inl NotFound" "fst (MemStore_RPush k v m) \<noteq> Inl NotFound"
  by (auto simp: mem_defs Let_def split: prod.split option.split)

lemma apfst_apfst_id: "h (g (fst r)) = fst r \<Longrightarrow> apfst h (apfst g r) = r"
  by (cases r) simp

lemma RedisStore_mem_redis: "RedisStore mem_redis = mem_ops"
  unfolding RedisStore_def mem_redis_def mem_ops_def
  by (simp, intro conjI ext) (rule apfst_apfst_id; simp add: passed_reply mem_never_not_found)+

interpretation redis: kv_exact "RedisStore mem_redis" mem_view
  unfolding RedisStore_mem_redis by (rule memx.kv_exact_axioms)

interpretation redisq: kv_queue_reliable "RedisStore mem_redis" lists
  unfolding RedisStore_mem_redis by (rule memqr.kv_queue_reliable_axioms)

section \<open>The SQL adapters\<close>

text \<open>
  The interfaces of \<open>pkg/store/db.go\<close> for a driver with errors \<open>'e\<close>, statements \<open>'q\<close> (text and arguments),
  scanned rows \<open>'r\<close> and the state \<open>'s\<close> of the data base. A cursor is read to its end: its rows or an error.
\<close>

record ('e, 'q, 'r, 's) store_tx =
  tx_QueryRow :: "'q \<Rightarrow> 's \<Rightarrow> ('e + 'r) \<times> 's"
  tx_Query :: "'q \<Rightarrow> 's \<Rightarrow> ('e + 'r list) \<times> 's"
  tx_Exec :: "'q \<Rightarrow> 's \<Rightarrow> ('e + int) \<times> 's"
  tx_Commit :: "'s \<Rightarrow> ('e + unit) \<times> 's"
  tx_Rollback :: "'s \<Rightarrow> ('e + unit) \<times> 's"

record ('e, 'q, 'r, 's) store_db =
  db_QueryRow :: "'q \<Rightarrow> 's \<Rightarrow> ('e + 'r) \<times> 's"
  db_Query :: "'q \<Rightarrow> 's \<Rightarrow> ('e + 'r list) \<times> 's"
  db_Exec :: "'q \<Rightarrow> 's \<Rightarrow> ('e + int) \<times> 's"
  db_Begin :: "'s \<Rightarrow> ('e + ('e, 'q, 'r, 's) store_tx) \<times> 's"
  db_Ping :: "'s \<Rightarrow> ('e + unit) \<times> 's"

text \<open>The adapter of \<open>database/sql\<close> forwards.\<close>

definition sqlTx :: "(sql_error, 'q, 'r, 's) store_tx \<Rightarrow> (sql_error, 'q, 'r, 's) store_tx" where
  "sqlTx tx = \<lparr>tx_QueryRow = tx_QueryRow tx, tx_Query = tx_Query tx, tx_Exec = tx_Exec tx,
     tx_Commit = tx_Commit tx, tx_Rollback = tx_Rollback tx\<rparr>"

definition NewSQLAdapter :: "(sql_error, 'q, 'r, 's) store_db \<Rightarrow> (sql_error, 'q, 'r, 's) store_db" where
  "NewSQLAdapter db = \<lparr>db_QueryRow = db_QueryRow db, db_Query = db_Query db, db_Exec = db_Exec db,
     db_Begin = (\<lambda>s. apfst (map_sum id sqlTx) (db_Begin db s)), db_Ping = db_Ping db\<rparr>"

text \<open>
  The adapter of pgx translates its own \<open>ErrNoRows\<close> in the scan of a row, which is where the handlers ask
  for it; every other error goes through, and is not \<open>sql.ErrNoRows\<close>.
\<close>

datatype pgx_error = PgxNoRows | PgxFailed

fun pgxRowScan :: "pgx_error + 'r \<Rightarrow> sql_error + 'r" where
  "pgxRowScan (Inl e) = Inl (if e = PgxNoRows then ErrNoRows else DbError)"
| "pgxRowScan (Inr r) = Inr r"

definition pgx_through :: "pgx_error + 'a \<Rightarrow> sql_error + 'a" where
  "pgx_through = map_sum (\<lambda>_. DbError) id"

definition pgxTxAdapter :: "(pgx_error, 'q, 'r, 's) store_tx \<Rightarrow> (sql_error, 'q, 'r, 's) store_tx" where
  "pgxTxAdapter tx = \<lparr>tx_QueryRow = (\<lambda>q s. apfst pgxRowScan (tx_QueryRow tx q s)),
     tx_Query = (\<lambda>q s. apfst pgx_through (tx_Query tx q s)), tx_Exec = (\<lambda>q s. apfst pgx_through (tx_Exec tx q s)),
     tx_Commit = (\<lambda>s. apfst pgx_through (tx_Commit tx s)), tx_Rollback = (\<lambda>s. apfst pgx_through (tx_Rollback tx s))\<rparr>"

definition NewPgxAdapter :: "(pgx_error, 'q, 'r, 's) store_db \<Rightarrow> (sql_error, 'q, 'r, 's) store_db" where
  "NewPgxAdapter db = \<lparr>db_QueryRow = (\<lambda>q s. apfst pgxRowScan (db_QueryRow db q s)),
     db_Query = (\<lambda>q s. apfst pgx_through (db_Query db q s)), db_Exec = (\<lambda>q s. apfst pgx_through (db_Exec db q s)),
     db_Begin = (\<lambda>s. apfst (\<lambda>r. map_sum id pgxTxAdapter (pgx_through r)) (db_Begin db s)),
     db_Ping = (\<lambda>s. apfst pgx_through (db_Ping db s))\<rparr>"

text \<open>
  A handler cannot tell the drivers apart: when two of them answer alike up to the names of their errors,
  statement by statement, their adapters answer alike, also inside a transaction.
\<close>

definition alike :: "(sql_error + 'a) \<times> 's \<Rightarrow> (pgx_error + 'a) \<times> 's \<Rightarrow> bool" where
  "alike a b \<longleftrightarrow> a = apfst pgx_through b"

definition alike_tx :: "(sql_error, 'q, 'r, 's) store_tx \<Rightarrow> (pgx_error, 'q, 'r, 's) store_tx \<Rightarrow> bool" where
  "alike_tx t u \<longleftrightarrow> (\<forall>q s. tx_QueryRow t q s = apfst pgxRowScan (tx_QueryRow u q s) \<and> alike (tx_Query t q s) (tx_Query u q s) \<and>
     alike (tx_Exec t q s) (tx_Exec u q s) \<and> alike (tx_Commit t s) (tx_Commit u s) \<and> alike (tx_Rollback t s) (tx_Rollback u s))"

definition alike_db :: "(sql_error, 'q, 'r, 's) store_db \<Rightarrow> (pgx_error, 'q, 'r, 's) store_db \<Rightarrow> bool" where
  "alike_db d p \<longleftrightarrow> (\<forall>q s. db_QueryRow d q s = apfst pgxRowScan (db_QueryRow p q s) \<and> alike (db_Query d q s) (db_Query p q s) \<and>
     alike (db_Exec d q s) (db_Exec p q s) \<and> alike (db_Ping d s) (db_Ping p s)) \<and>
     (\<forall>s. snd (db_Begin d s) = snd (db_Begin p s) \<and>
        (case (fst (db_Begin d s), fst (db_Begin p s)) of
           (Inl e, Inl f) \<Rightarrow> e = DbError | (Inr t, Inr u) \<Rightarrow> alike_tx t u | _ \<Rightarrow> False))"

lemma adapted_tx: "alike_tx t u \<Longrightarrow> sqlTx t = pgxTxAdapter u"
  by (auto simp: alike_tx_def alike_def sqlTx_def pgxTxAdapter_def)

lemma adapters_agree:
  assumes "alike_db d p"
  shows "NewSQLAdapter d = NewPgxAdapter p"
proof -
  have "apfst (map_sum id sqlTx) (db_Begin d s) = apfst (\<lambda>r. map_sum id pgxTxAdapter (pgx_through r)) (db_Begin p s)" for s
  proof -
    have "snd (db_Begin d s) = snd (db_Begin p s)"
      "case (fst (db_Begin d s), fst (db_Begin p s)) of
         (Inl e, Inl f) \<Rightarrow> e = DbError | (Inr t, Inr u) \<Rightarrow> alike_tx t u | _ \<Rightarrow> False"
      using assms by (auto simp: alike_db_def)
    then show ?thesis
      by (cases "db_Begin d s"; cases "db_Begin p s") (auto simp: pgx_through_def adapted_tx split: sum.splits)
  qed
  then show ?thesis using assms by (simp add: alike_db_def alike_def NewSQLAdapter_def NewPgxAdapter_def fun_eq_iff)
qed

end
