(* ===== verification/Server.thy ===== *)
theory Server
  imports Middleware Config Probes Economy GameConfig Player Vow Achievement Services
begin

text \<open>
  The program as a whole (\<open>cmd/server/main.go\<close>): the boot from the environment and the files, the table of
  routes with the guards of their groups, and one request from the route to the handler over the two stores.
  Everything that is not code of the server is one record of parameters. The steps of a running server are
  requests, batches of the retry worker and whatever the key-value store does on its own.
\<close>

section \<open>What main builds\<close>

text \<open>
  The surroundings: the environment, the files, Unicode lower case, the XML decoder, the parsers of the
  private key (what it signs with, and the public key), the services of the PostgreSQL mode, the JSON decoder for Steam's answers, SHA-256 of the pull and of the tickets, the UUID parser, the JWT parser
  at an instant, and the conversion of a float that does not fit. The network is not here: what Steam
  answers goes with each request, as the HTTP client of that moment.
\<close>

record 'k outside =
  o_getenv :: "string \<Rightarrow> string"
  o_file :: "string \<Rightarrow> string option"
  o_lower :: "string \<Rightarrow> string"
  o_unmarshal :: "string \<Rightarrow> xml_config option"
  o_keys :: "((jwt_claims \<Rightarrow> string option) \<times> 'k) key_parsers"
  o_services :: services
  o_decode :: "string \<Rightarrow> ticket_params option option"
  o_digest :: "8 word list \<Rightarrow> string"
  o_ticketHash :: "string \<Rightarrow> string"
  o_uuid_ok :: "string \<Rightarrow> bool"
  o_parse :: "int \<Rightarrow> 'k jwt_parser"
  o_convert :: "f64 \<Rightarrow> int"

record 'k server =
  sv_AppEnv :: string
  sv_cairn :: cairn_config
  sv_gacha :: gacha_config
  sv_pool :: skin_pool
  sv_vow :: vow_handler
  sv_auth :: auth_handler
  sv_steam :: "(steam_form \<Rightarrow> string option) \<Rightarrow> string \<Rightarrow> steam_error + string"
  sv_steam_ach :: "(steam_form \<Rightarrow> string + int) \<Rightarrow> string \<Rightarrow> string \<Rightarrow> string option"
  sv_pubKey :: 'k

datatype boot_error =
  BootConfig env_error | BootPool load_error | BootSkipped load_stats | BootGameConfig config_error
| BootPanic | BootDatabase string | BootServices service_error | BootKey key_error

text \<open>A pool that lost a row would change the odds: the boot refuses it.\<close>

definition skipped :: "load_stats \<Rightarrow> int" where
  "skipped st = SkippedBadRarity st + SkippedBadPart st + SkippedMalformed st"

definition boot_pool :: "'k outside \<Rightarrow> app_config \<Rightarrow> boot_error + skin_pool" where
  "boot_pool out cfg =
     (case LoadSkinPool (o_lower out) (o_file out (cfg_SkinsCSVPath cfg)) of
        Inl e \<Rightarrow> Inl (BootPool e)
      | Inr pool \<Rightarrow> if skipped (stats pool) > 0 then Inl (BootSkipped (stats pool)) else Inr pool)"

definition boot_game :: "'k outside \<Rightarrow> app_config \<Rightarrow> boot_error + game_config" where
  "boot_game out cfg =
     (case Load (o_unmarshal out) (o_lower out) (o_file out (cfg_GameConfigXMLPath cfg)) of
        Inl e \<Rightarrow> Inl (BootGameConfig e) | Inr g \<Rightarrow> Inr g)"

definition cairn_of :: "game_config \<Rightarrow> cairn_config" where
  "cairn_of g = \<lparr>SlotCount = gc_SlotCount g, MaxLayers = gc_MaxLayers g,
     SpawnIntervalSeconds = gc_SpawnIntervalSeconds g\<rparr>"

definition gacha_of :: "game_config \<Rightarrow> gacha_config" where
  "gacha_of g = \<lparr>PullCost = gc_PullCost g, Cooldown = wrap64 (CooldownSeconds g * second)\<rparr>"

text \<open>The handlers, with their clients for the mode of \<open>APP_ENV\<close>.\<close>

definition build_server :: "'k outside \<Rightarrow> app_config \<Rightarrow> skin_pool \<Rightarrow> game_config \<Rightarrow> (jwt_claims \<Rightarrow> string option) \<Rightarrow> 'k \<Rightarrow> 'k server" where
  "build_server out cfg pool g sign pub =
     \<lparr>sv_AppEnv = cfg_AppEnv cfg, sv_cairn = cairn_of g, sv_gacha = gacha_of g, sv_pool = pool,
      sv_vow = NewHandler pool (VowRequiredItemCount g) (VowTiers g) (cfg_AppEnv cfg = ''development''),
      sv_auth = \<lparr>auth_cairn = cairn_of g, auth_sign = sign\<rparr>,
      sv_steam = (\<lambda>post. NewSteamClientForEnv post (o_decode out) (cfg_AppEnv cfg) (cfg_SteamAPIKey cfg) (cfg_SteamAppID cfg)),
      sv_steam_ach = (\<lambda>post. NewSteamAchievementClientForEnv post (cfg_AppEnv cfg) (cfg_SteamAPIKey cfg) (cfg_SteamAppID cfg)),
      sv_pubKey = pub\<rparr>"

text \<open>
  The data base of the SQLite mode, for the rows that the file holds: the statements of \<open>sqlitedb.New\<close>
  that change rows, each of which may fail (before them the schema is brought up to date).
\<close>

definition open_database :: "faults \<Rightarrow> int \<Rightarrow> int \<Rightarrow> int \<Rightarrow> database \<Rightarrow> boot_error + database" where
  "open_database ft sqlnow slotCount phaseSeconds db =
     (if ft 0 \<or> ft 1 then Inl (BootDatabase ''sqlite'')
      else if ft 2 \<or> ft 3 then Inl (BootDatabase ''backfill'')
      else case backfillCairnSlots slotCount phaseSeconds sqlnow (backfill_last_sync sqlnow db) of
             Inl e \<Rightarrow> Inl (BootDatabase e) | Inr db' \<Rightarrow> Inr db')"

definition boot_stores ::
  "'k outside \<Rightarrow> app_config \<Rightarrow> cairn_config \<Rightarrow> faults \<Rightarrow> int \<Rightarrow> database \<Rightarrow> boot_error + (mem_store \<times> database) option" where
  "boot_stores out cfg c ft sqlnow db =
     (if cfg_SQLitePath cfg \<noteq> [] then
        (case PhaseOffset c of
           None \<Rightarrow> Inl BootPanic
         | Some phase \<Rightarrow> bindE (open_database ft sqlnow (SlotCount c) (int64_of (o_convert out) (Seconds phase)) db)
             (\<lambda>db'. Inr (Some (NewMemStore, db'))))
      else
        (case bindE (RunMigrations (o_services out) (cfg_DBURL cfg)) (\<lambda>_.
              bindE (NewPool (o_services out) (cfg_DBURL cfg)) (\<lambda>_.
              NewClient (o_services out) (cfg_RedisURL cfg))) of
           Inl e \<Rightarrow> Inl (BootServices e) | Inr _ \<Rightarrow> Inr None))"

text \<open>
  The boot up to the first request, for the file's rows \<open>db\<close>. In the PostgreSQL mode the stores are not ours
  (\<open>None\<close>). A failing reload of the queue is only logged; \<open>None\<close> in front is a boot that does not end.
\<close>

definition boot_server ::
  "'k outside \<Rightarrow> faults \<Rightarrow> int \<Rightarrow> database \<Rightarrow> boot_error + 'k server \<times> (mem_store \<times> database) option" where
  "boot_server out ft sqlnow db =
     (case Load_config (o_getenv out) of
        Inl e \<Rightarrow> Inl (BootConfig e)
      | Inr cfg \<Rightarrow>
          bindE (boot_pool out cfg) (\<lambda>pool.
          bindE (boot_game out cfg) (\<lambda>g.
          bindE (boot_stores out cfg (cairn_of g) ft sqlnow db) (\<lambda>stores.
            (case ParsePrivateKey (o_keys out) (cfg_JWTPrivKey cfg) of
               Inl e \<Rightarrow> Inl (BootKey e)
             | Inr (sign, pub) \<Rightarrow> Inr (build_server out cfg pool g sign pub, stores))))))"

definition boot ::
  "'k outside \<Rightarrow> faults \<Rightarrow> faults \<Rightarrow> int \<Rightarrow> database \<Rightarrow> (boot_error + 'k server \<times> (mem_store \<times> database) option) option" where
  "boot out ft reloadft sqlnow db =
     (case boot_server out ft sqlnow db of
        Inr (sv, Some (m, db')) \<Rightarrow>
          map_option (\<lambda>(_, m'). Inr (sv, Some (m', db'))) (ReloadPendingRetries mem_ops reloadft DefaultMaxRetries db' m)
      | r \<Rightarrow> Some r)"

section \<open>Routes\<close>

datatype group = Public | LogoutGroup | Secured | Internal

definition routes :: "string \<Rightarrow> (string \<times> string \<times> group) list" where
  "routes appEnv =
     [(''GET'', ''/api/v1/health'', Public),
      (''POST'', ''/api/v1/auth/steam'', Public),
      (''POST'', ''/api/v1/auth/refresh'', Public),
      (''POST'', ''/api/v1/time/sync'', Public),
      (''DELETE'', ''/api/v1/auth/logout'', LogoutGroup),
      (''GET'', ''/api/v1/player/state'', Secured),
      (''POST'', ''/api/v1/player/sync'', Secured),
      (''POST'', ''/api/v1/gacha/pull'', Secured),
      (''GET'', ''/api/v1/gacha/status'', Secured),
      (''GET'', ''/api/v1/gacha/logs'', Secured),
      (''POST'', ''/api/v1/vow/pray'', Secured),
      (''POST'', ''/api/v1/achievement/unlock'', Secured),
      (''GET'', ''/api/v1/achievement/list'', Secured)] @
     (if appEnv = ''development'' then
       [(''POST'', ''/api/v1/auth/dev'', Public),
        (''GET'', ''/api/v1/internal/dev-token'', Internal),
        (''GET'', ''/api/v1/internal/diag/economy'', Internal)]
      else [])"

text \<open>
  A call: the route with what its handler reads of the request (bound body or query) and of its
  surroundings. \<open>CallOther\<close> is a method and a path that no handler is registered for.
\<close>

datatype call =
  CallHealth bool bool
| CallAuthSteam auth_env "string option"
| CallAuthRefresh auth_env "string option"
| CallTimeSync int "int option"
| CallLogout int
| CallState player_env
| CallSync player_env
| CallPull pull_env faults clock "int option"
| CallStatus bool clock
| CallLogs faults "string option" "string option"
| CallPray vow_env "pray_request option"
| CallUnlock unlock_env "string option"
| CallList faults
| CallAuthDev auth_env "string option"
| CallDevToken auth_env string
| CallEconomy faults string
| CallOther string string

fun endpoint :: "call \<Rightarrow> string \<times> string" where
  "endpoint (CallHealth _ _) = (''GET'', ''/api/v1/health'')"
| "endpoint (CallAuthSteam _ _) = (''POST'', ''/api/v1/auth/steam'')"
| "endpoint (CallAuthRefresh _ _) = (''POST'', ''/api/v1/auth/refresh'')"
| "endpoint (CallTimeSync _ _) = (''POST'', ''/api/v1/time/sync'')"
| "endpoint (CallLogout _) = (''DELETE'', ''/api/v1/auth/logout'')"
| "endpoint (CallState _) = (''GET'', ''/api/v1/player/state'')"
| "endpoint (CallSync _) = (''POST'', ''/api/v1/player/sync'')"
| "endpoint (CallPull _ _ _ _) = (''POST'', ''/api/v1/gacha/pull'')"
| "endpoint (CallStatus _ _) = (''GET'', ''/api/v1/gacha/status'')"
| "endpoint (CallLogs _ _ _) = (''GET'', ''/api/v1/gacha/logs'')"
| "endpoint (CallPray _ _) = (''POST'', ''/api/v1/vow/pray'')"
| "endpoint (CallUnlock _ _) = (''POST'', ''/api/v1/achievement/unlock'')"
| "endpoint (CallList _) = (''GET'', ''/api/v1/achievement/list'')"
| "endpoint (CallAuthDev _ _) = (''POST'', ''/api/v1/auth/dev'')"
| "endpoint (CallDevToken _ _) = (''GET'', ''/api/v1/internal/dev-token'')"
| "endpoint (CallEconomy _ _) = (''GET'', ''/api/v1/internal/diag/economy'')"
| "endpoint (CallOther m p) = (m, p)"

definition route_group :: "string \<Rightarrow> string \<times> string \<Rightarrow> group option" where
  "route_group appEnv mp = map_option (\<lambda>(_, _, g). g) (find (\<lambda>(m, p, _). (m, p) = mp) (routes appEnv))"

section \<open>Guards\<close>

text \<open>
  A request, with the instants at which the guards look (the check of the token, the limiter) and the HTTP
  clients that its handler finds for Steam's two services.
\<close>

record http_request =
  h_clientIP :: string
  h_authorization :: string
  h_token_time :: int
  h_limit_clock :: clock
  h_post :: "steam_form \<Rightarrow> string option"
  h_post_ach :: "steam_form \<Rightarrow> string + int"
  h_call :: call

definition context_of :: "http_request \<Rightarrow> gin_ctx" where
  "context_of r = \<lparr>c_method = fst (endpoint (h_call r)), c_fullPath = snd (endpoint (h_call r)), c_clientIP = h_clientIP r,
     c_authorization = h_authorization r, c_player = None, c_jti = None\<rparr>"

definition guards :: "'k outside \<Rightarrow> 'k server \<Rightarrow> 's kv_ops \<Rightarrow> group \<Rightarrow> http_request \<Rightarrow> 's \<Rightarrow> 'a handled \<times> 's" where
  "guards out sv ops g r s =
     (let limit = RateLimiter ops (h_limit_clock r) in
      case g of
        Public \<Rightarrow> limit (context_of r) s
      | LogoutGroup \<Rightarrow> (JWTSignatureAuth (o_parse out (h_token_time r)) (sv_pubKey sv) (context_of r), s)
      | Secured \<Rightarrow>
          (case JWTAuth (o_parse out (h_token_time r)) (sv_pubKey sv) ops (h_token_time r) (context_of r) s of
             (Inl a, s1) \<Rightarrow> (Inl a, s1)
           | (Inr c, s1) \<Rightarrow> limit c s1)
      | Internal \<Rightarrow> (Inr (context_of r), s))"

text \<open>\<open>GetString\<close> of a key that no guard has set is the empty string.\<close>

definition playerID :: "gin_ctx \<Rightarrow> string" where
  "playerID c = (case c_player c of None \<Rightarrow> [] | Some p \<Rightarrow> p)"

definition tokenID :: "gin_ctx \<Rightarrow> string" where
  "tokenID c = (case c_jti c of None \<Rightarrow> [] | Some j \<Rightarrow> j)"

section \<open>Handlers\<close>

datatype payload =
  PHealth health_body | PAuth auth_response | PTime sync_reply | PLogout | PState state_response
| PSync sync_response | PPull pull_response | PStatus status_response | PLogs logs_response
| PPray pray_response | PUnlock unlock_response | PList "achievement_item list" | PEconomy economy_audit

definition health_answer :: "int \<times> health_body \<Rightarrow> payload answer" where
  "health_answer h = (if fst h = 200 then OK (PHealth (snd h)) else Reject (fst h) [])"

fun handle :: "'k outside \<Rightarrow> 'k server \<Rightarrow> 's kv_ops \<Rightarrow> http_request \<Rightarrow> gin_ctx \<Rightarrow> call \<Rightarrow> 's \<Rightarrow> database \<Rightarrow> payload answer \<times> 's \<times> database" where
  "handle out sv ops r c (CallHealth d k) s db = (health_answer (Health d k), s, db)"
| "handle out sv ops r c (CallAuthSteam env body) s db =
     map_prod (map_answer PAuth) id (AuthSteam ops (sv_auth sv) (o_ticketHash out) (sv_steam sv (h_post r)) env body s db)"
| "handle out sv ops r c (CallAuthRefresh env body) s db =
     (case AuthRefresh ops (sv_auth sv) env body s of (a, s1) \<Rightarrow> (map_answer PAuth a, s1, db))"
| "handle out sv ops r c (CallTimeSync now body) s db = (map_answer PTime (TimeSync (o_convert out) now body), s, db)"
| "handle out sv ops r c (CallLogout t) s db =
     (case AuthLogout ops t (playerID c) (tokenID c) s of (a, s1) \<Rightarrow> (map_answer (\<lambda>_. PLogout) a, s1, db))"
| "handle out sv ops r c (CallState env) s db =
     (case GetState (sv_cairn sv) env (playerID c) db of (a, db1) \<Rightarrow> (map_answer PState a, s, db1))"
| "handle out sv ops r c (CallSync env) s db =
     (case Sync (sv_cairn sv) env (playerID c) db of (a, db1) \<Rightarrow> (map_answer PSync a, s, db1))"
| "handle out sv ops r c (CallPull env lf clk slot) s db =
     map_prod (map_answer PPull) id
       (Pull ops (sv_gacha sv) (sv_cairn sv) (o_digest out) (sv_pool sv) env lf clk (playerID c) slot s db)"
| "handle out sv ops r c (CallStatus fault clk) s db =
     (case Status ops fault clk (playerID c) s db of (a, s1) \<Rightarrow> (map_answer PStatus a, s1, db))"
| "handle out sv ops r c (CallLogs ft page limit) s db = (map_answer PLogs (Logs ft page limit (playerID c) db), s, db)"
| "handle out sv ops r c (CallPray env body) s db =
     (case Pray (sv_vow sv) env (playerID c) body db of (a, db1) \<Rightarrow> (map_answer PPray a, s, db1))"
| "handle out sv ops r c (CallUnlock env body) s db =
     map_prod (map_answer PUnlock) id (Unlock ops (sv_steam_ach sv (h_post_ach r)) env (playerID c) body s db)"
| "handle out sv ops r c (CallList ft) s db = (map_answer PList (List_achievements ft (playerID c) db), s, db)"
| "handle out sv ops r c (CallAuthDev env body) s db =
     map_prod (map_answer PAuth) id (AuthDev ops (sv_auth sv) (o_uuid_ok out) env body s db)"
| "handle out sv ops r c (CallDevToken env steamID) s db =
     map_prod (map_answer PAuth) id (DevToken ops (sv_auth sv) env steamID s db)"
| "handle out sv ops r c (CallEconomy ft pid) s db = (map_answer PEconomy (EconomyHandler ft pid db), s, db)"
| "handle out sv ops r c (CallOther m p) s db = (Reject 404 [], s, db)"

text \<open>One request: the route, the guards of its group, the handler.\<close>

definition serve :: "'k outside \<Rightarrow> 'k server \<Rightarrow> 's kv_ops \<Rightarrow> http_request \<Rightarrow> 's \<times> database \<Rightarrow> payload answer \<times> 's \<times> database" where
  "serve out sv ops r w =
     (case w of (s, db) \<Rightarrow>
        (case route_group (sv_AppEnv sv) (endpoint (h_call r)) of
           None \<Rightarrow> (Reject 404 [], s, db)
         | Some g \<Rightarrow>
             (case guards out sv ops g r s of
                (Inl a, s1) \<Rightarrow> (a, s1, db)
              | (Inr c, s1) \<Rightarrow> handle out sv ops r c (h_call r) s1 db)))"

section \<open>The running server\<close>

text \<open>
  A step is a request, a batch of the worker that ends, or a change of the key-value store that the server
  does not make in a request: the sweeper, an expiry, in the other mode another client of the service.
\<close>

inductive server_step :: "'k outside \<Rightarrow> 'k server \<Rightarrow> 's kv_ops \<Rightarrow> 's \<times> database \<Rightarrow> 's \<times> database \<Rightarrow> bool"
  for out sv ops where
  request: "serve out sv ops r w = (a, w') \<Longrightarrow> server_step out sv ops w w'"
| batch: "processBatch ops NewWorker (env\<lparr>b_steam := \<lambda>i. sv_steam_ach sv (net i)\<rparr>) s db = Some (s', db') \<Longrightarrow>
    server_step out sv ops (s, db) (s', db')"
| store: "server_step out sv ops (s, db) (s', db)"

inductive server_reach :: "'k outside \<Rightarrow> 'k server \<Rightarrow> 's kv_ops \<Rightarrow> 's \<times> database \<Rightarrow> 's \<times> database \<Rightarrow> bool"
  for out sv ops w0 where
  start: "server_reach out sv ops w0 w0"
| next_step: "server_reach out sv ops w0 w \<Longrightarrow> server_step out sv ops w w' \<Longrightarrow> server_reach out sv ops w0 w'"

inductive_cases server_stepE: "server_step out sv ops w w'"

end
