(* ===== verification/Confined.thy ===== *)
theory Confined
  imports Player VowProps AchievementProps
begin

text \<open>
  What one player's request may touch. The view of a player is that player's rows in every table; a change
  of the data base is confined to a player when the view of every other player, the table of players and the
  range of the slot indices stay. Each handler is confined to the player of its token: the contract
  \<open>player_handler\<close>, which the five handlers that write are shown to meet.
\<close>

section \<open>Views\<close>

record player_view =
  view_state :: "state_row list"
  view_inventory :: "inv_row list"
  view_gacha :: "gacha_log list"
  view_vows :: "vow_log list"
  view_achievements :: "ach_row list"
  view_slots :: "slot_row list"
  view_retries :: "retry_row list"

definition view :: "string \<Rightarrow> database \<Rightarrow> player_view" where
  "view q db = \<lparr>
     view_state = filter (\<lambda>r. s_player r = q) (player_states db),
     view_inventory = filter (\<lambda>r. inv_player r = q) (inventories db),
     view_gacha = filter (\<lambda>r. gl_player r = q) (gacha_logs db),
     view_vows = filter (\<lambda>r. vl_player r = q) (vow_logs db),
     view_achievements = filter (\<lambda>r. ach_player r = q) (player_achievements db),
     view_slots = filter (\<lambda>r. slot_player r = q) (wish_cairn_slots db),
     view_retries = filter (\<lambda>r. rq_player r = q) (achievement_retry_queue db)\<rparr>"

definition confined :: "cairn_config \<Rightarrow> string \<Rightarrow> database \<Rightarrow> database \<Rightarrow> bool" where
  "confined c pid db db' \<longleftrightarrow> players db' = players db \<and> (\<forall>q. q \<noteq> pid \<longrightarrow> view q db' = view q db) \<and>
     (slots_indexed c db \<longrightarrow> slots_indexed c db')"

lemma confined_refl [simp, intro]: "confined c pid db db"
  by (simp add: confined_def)

lemma confined_trans [trans]: "confined c pid db db1 \<Longrightarrow> confined c pid db1 db2 \<Longrightarrow> confined c pid db db2"
  by (simp add: confined_def)

named_theorems confined_writes "writes of a player's rows are confined to the player"

text \<open>A table in which no row of another player is written, added or deleted.\<close>

definition own_rows :: "('r \<Rightarrow> string) \<Rightarrow> string \<Rightarrow> 'r list \<Rightarrow> 'r list \<Rightarrow> bool" where
  "own_rows key pid t t' \<longleftrightarrow> (\<forall>q. q \<noteq> pid \<longrightarrow> filter (\<lambda>r. key r = q) t' = filter (\<lambda>r. key r = q) t)"

lemma own_rows_update:
  "(\<And>r. P r \<Longrightarrow> key r = pid \<and> key (f r) = pid) \<Longrightarrow> own_rows key pid t (sql_update P f t)"
  unfolding own_rows_def by (induction t) auto

lemma own_rows_append: "key r = pid \<Longrightarrow> own_rows key pid t (t @ [r])"
  by (simp add: own_rows_def)

lemma own_rows_delete: "(\<And>r. P r \<Longrightarrow> key r = pid) \<Longrightarrow> own_rows key pid t (sql_delete P t)"
  unfolding own_rows_def sql_delete_def by (induction t) auto

lemma confinedI:
  assumes "players db' = players db"
    and "own_rows s_player pid (player_states db) (player_states db')"
    and "own_rows inv_player pid (inventories db) (inventories db')"
    and "own_rows gl_player pid (gacha_logs db) (gacha_logs db')"
    and "own_rows vl_player pid (vow_logs db) (vow_logs db')"
    and "own_rows ach_player pid (player_achievements db) (player_achievements db')"
    and "own_rows slot_player pid (wish_cairn_slots db) (wish_cairn_slots db')"
    and "own_rows rq_player pid (achievement_retry_queue db) (achievement_retry_queue db')"
    and "slots_indexed c db \<Longrightarrow> slots_indexed c db'"
  shows "confined c pid db db'"
proof -
  have "view q db' = view q db" if "q \<noteq> pid" for q
    unfolding view_def assms(2-8) [unfolded own_rows_def, rule_format, OF that] by (rule refl)
  with assms(1,9) show ?thesis unfolding confined_def by blast
qed

lemma own_rows_refl [simp]: "own_rows key pid t t"
  by (simp add: own_rows_def)

lemma confined_states [confined_writes]:
  "own_rows s_player pid (player_states db) t \<Longrightarrow> confined c pid db (db\<lparr>player_states := t\<rparr>)"
  by (rule confinedI) (simp_all add: slots_indexed_def)

lemma confined_inventories [confined_writes]:
  "own_rows inv_player pid (inventories db) t \<Longrightarrow> confined c pid db (db\<lparr>inventories := t\<rparr>)"
  by (rule confinedI) (simp_all add: slots_indexed_def)

lemma confined_gacha_logs [confined_writes]:
  "own_rows gl_player pid (gacha_logs db) t \<Longrightarrow> confined c pid db (db\<lparr>gacha_logs := t\<rparr>)"
  by (rule confinedI) (simp_all add: slots_indexed_def)

lemma confined_vow_logs [confined_writes]:
  "own_rows vl_player pid (vow_logs db) t \<Longrightarrow> confined c pid db (db\<lparr>vow_logs := t\<rparr>)"
  by (rule confinedI) (simp_all add: slots_indexed_def)

lemma confined_achievements [confined_writes]:
  "own_rows ach_player pid (player_achievements db) t \<Longrightarrow> confined c pid db (db\<lparr>player_achievements := t\<rparr>)"
  by (rule confinedI) (simp_all add: slots_indexed_def)

lemma confined_retries [confined_writes]:
  "own_rows rq_player pid (achievement_retry_queue db) t \<Longrightarrow> confined c pid db (db\<lparr>achievement_retry_queue := t\<rparr>)"
  by (rule confinedI) (simp_all add: slots_indexed_def)

lemma confined_slots:
  assumes "own_rows slot_player pid (wish_cairn_slots db) t"
    and "slots_indexed c db \<Longrightarrow> slots_indexed c (db\<lparr>wish_cairn_slots := t\<rparr>)"
  shows "confined c pid db (db\<lparr>wish_cairn_slots := t\<rparr>)"
  by (rule confinedI) (use assms in simp_all)

lemma confined_set_state: "(\<And>r. s_player (f r) = s_player r) \<Longrightarrow> confined c pid db (set_state pid f db)"
  unfolding set_state_def by (intro confined_writes own_rows_update) simp

section \<open>The statements\<close>

lemma confined_slot_update:
  assumes "\<And>r. P r \<Longrightarrow> slot_player r = pid" and "\<And>r. slot_player (f r) = slot_player r \<and> slot_index (f r) = slot_index r"
  shows "confined c pid db (db\<lparr>wish_cairn_slots := sql_update P f (wish_cairn_slots db)\<rparr>)"
proof (rule confined_slots)
  show "own_rows slot_player pid (wish_cairn_slots db) (sql_update P f (wish_cairn_slots db))"
    by (rule own_rows_update) (use assms in simp)
  show "slots_indexed c (db\<lparr>wish_cairn_slots := sql_update P f (wish_cairn_slots db)\<rparr>)" if "slots_indexed c db"
    using that assms(2) by (auto simp: slots_indexed_def set_sql_update)
qed

lemma confined_ApplyGrowth:
  assumes "ApplyGrowth k ft now sqlnow pid db = Inr db'"
  shows "confined c pid db db'"
  using assms
proof (rule ApplyGrowth_frame)
  fix P x g
  assume db': "db' = db\<lparr>player_states := sql_update (\<lambda>r. s_player r = pid \<and> P r) (\<lambda>r. r\<lparr>cairn_last_growth_at := x\<rparr>) (player_states db),
    wish_cairn_slots := raise_slots pid g (wish_cairn_slots db)\<rparr>"
  let ?d = "db\<lparr>player_states := sql_update (\<lambda>r. s_player r = pid \<and> P r) (\<lambda>r. r\<lparr>cairn_last_growth_at := x\<rparr>) (player_states db)\<rparr>"
  have "confined c pid db ?d" by (intro confined_writes own_rows_update) simp
  moreover have "confined c pid ?d (?d\<lparr>wish_cairn_slots := raise_slots pid g (wish_cairn_slots db)\<rparr>)"
  proof (rule confined_slots)
    show "own_rows slot_player pid (wish_cairn_slots ?d) (raise_slots pid g (wish_cairn_slots db))"
      by (simp add: own_rows_def slots_raise)
    show "slots_indexed c (?d\<lparr>wish_cairn_slots := raise_slots pid g (wish_cairn_slots db)\<rparr>)" if "slots_indexed c ?d"
      using that by (auto simp: slots_indexed_def raise_slots_def split: if_splits)
  qed
  ultimately show ?thesis unfolding db' by (rule confined_trans [of c pid db ?d, simplified])
qed

lemma confined_ApplyGrowthTx:
  assumes "ApplyGrowthTx k txft ft now sqlnow pid db = (r, db')"
  shows "confined c pid db db'"
  using assms confined_ApplyGrowth by (auto simp: ApplyGrowthTx_def split: if_splits sum.splits)

lemma confined_InitializeSlots:
  assumes "InitializeSlots c ft pid now db = (r, db')"
  shows "confined c pid db db'"
proof (cases "PhaseOffset c")
  case None
  with assms show ?thesis by (simp add: InitializeSlots_def)
next
  case (Some phase)
  have new: "confined c pid d (d\<lparr>wish_cairn_slots := wish_cairn_slots d @ [new_slot pid i s]\<rparr>)"
    if "i \<in> set [0..SlotCount c - 1]" for d i s
    by (rule confined_slots) (use that in \<open>auto simp: own_rows_append slots_indexed_def new_slot_def\<close>)
  have "confined c pid db (snd (init_slots ft pid now phase [0..SlotCount c - 1] db))"
    by (rule init_slots_preserve [where P = "confined c pid db"])
      (rule confined_trans [OF _ new], assumption+, rule confined_refl)
  moreover have "db' = snd (init_slots ft pid now phase [0..SlotCount c - 1] db)"
    using assms Some by (auto simp: InitializeSlots_def split: prod.splits)
  ultimately show ?thesis by simp
qed

lemma confined_accrue_deduct:
  assumes "accrue_deduct now cost pid db = Inr (db', r)"
  shows "confined c pid db db'"
proof -
  obtain P f where "db' = db\<lparr>player_states := sql_update P f (player_states db)\<rparr>"
    "\<And>r. P r \<Longrightarrow> s_player r = pid" "\<And>r. s_player (f r) = s_player r"
    using assms unfolding accrue_deduct_def Let_def run_simps by (auto 0 3)
  then show ?thesis by (auto intro!: confined_writes own_rows_update)
qed

lemma confined_GrantItem:
  assumes "GrantItem fault sqlnow newid pid item r itemType sourceType db = Inr (g, db')"
  shows "confined c pid db db'"
proof (cases "inv_of db pid item")
  case None
  then have "db' = db\<lparr>inventories := inventories db @ [\<lparr>inv_id = newid, inv_player = pid, item_id = item, rarity = r, item_count = 1,
      item_type = itemType, source_type = sourceType, acquired_at = sqlnow\<rparr>]\<rparr>"
    using assms by (auto simp: GrantItem_def split: if_splits)
  then show ?thesis by (simp add: confined_writes own_rows_append)
next
  case (Some y)
  then have "db' = bump_item pid item db" using assms by (auto simp: GrantItem_def bump_item_def split: if_splits)
  then show ?thesis unfolding bump_item_def by (auto intro!: confined_writes own_rows_update)
qed

section \<open>The handlers\<close>

lemma confined_pull_tx:
  assumes "pull_tx cfg c digest pool env pid i db = Inr (resp, db6)"
  shows "confined c pid db db6"
  using assms
proof (rule pull_tx_stages)
  fix db1 db2 db3 db4 db5 before st res g
  assume gate: "cooldown_gate cfg env pid db = Inr db1" and grow: "grow_in_pull c env pid db1 = Inr db2"
    and claim: "claim_slot c env pid i db2 = Inr db3" and pay: "pay_pull cfg env pid db3 = Inr (db4, st)"
    and grant: "grant_pull env pid res db4 = Inr (g, db5)"
    and log: "log_pull cfg env pid res g before (enlightenment_pts st) db5 = Inr db6"
  have "confined c pid db db1"
    using gate unfolding cooldown_gate_def Let_def by (auto split: if_splits intro!: confined_writes own_rows_update)
  also have "confined c pid db1 db2" by (rule confined_ApplyGrowth [OF grow_in_pull_Inr [OF grow]])
  also have "confined c pid db2 db3"
    using claim unfolding claim_slot_def Let_def
    by (auto split: if_splits sum.splits sql_error.splits intro!: confined_slot_update)
  also have "confined c pid db3 db4" by (rule confined_accrue_deduct [OF pay_pull_Inr [OF pay]])
  also have "confined c pid db4 db5" by (rule confined_GrantItem [OF grant_pull_Inr [OF grant]])
  also have "confined c pid db5 db6"
    unfolding log_pull_Inr [OF log] by (intro confined_writes own_rows_append) (simp add: pull_log_def)
  finally show ?thesis .
qed

lemma confined_Pull:
  assumes "Pull ops cfg c digest pool env lf clk pid slot s db = (a, s', db')"
  shows "confined c pid db db'"
proof (cases a)
  case (OK resp)
  from assms [unfolded OK] show ?thesis by (rule Pull_OK) (rule confined_pull_tx [OF execPull_Inr])
next
  case (Reject status code)
  have "db' = db" using Pull_Reject [OF assms [unfolded Reject]] by simp
  then show ?thesis by simp
qed

lemma confined_consume_loop: "consume_loop ft k pid ms db = Inr db' \<Longrightarrow> confined c pid db db'"
proof (induction ms arbitrary: k db)
  case (Cons m ms)
  then obtain db1 where one: "consume_one (ft k) pid m db = Inr db1"
    and rest: "consume_loop ft (k + 1) pid ms db1 = Inr db'" by (auto simp: run_simps)
  have "confined c pid db db1"
    using one unfolding consume_one_def Let_def by (auto split: if_splits intro!: confined_writes own_rows_update)
  then show ?case using Cons.IH [OF rest] by (rule confined_trans)
qed simp

lemma confined_pray_tx:
  assumes "pray_tx h env pid req base target rate infN ign db = Inr (resp, db4)"
  shows "confined c pid db db4"
  using assms
proof (rule pray_tx_stages)
  fix before db1 st db2 success item g db3
  assume pay: "pay_vow env (if infN then Fin 0 else NPower req) pid db = Inr (db1, st)"
    and cons: "consume_materials env ign pid (Materials req) db1 = Inr db2"
    and grant: "grant_vow env pid item (if success then target else base) db2 = Inr (g, db3)"
    and log: "log_vow env pid base target rate (if infN then Fin 0 else NPower req) before (enlightenment_pts st) success item
       (if success then target else base) g (Materials req) db3 = Inr db4"
  have drop: "confined c pid d e" if "drop_empty f pid d = Inr e" for f d e
    using that unfolding drop_empty_def by (auto split: if_splits intro!: confined_writes own_rows_delete)
  have "confined c pid db db1" by (rule confined_accrue_deduct [OF pay_vow_Inr [OF pay]])
  also have "confined c pid db1 db2"
  proof (cases ign)
    case True
    then show ?thesis using cons by (simp add: consume_materials_def)
  next
    case False
    then obtain d where "consume_loop (v_material_fault env) 0 pid (Materials req) db1 = Inr d"
      "drop_empty (v_fault env 3) pid d = Inr db2" using cons by (auto simp: consume_materials_def run_simps)
    then show ?thesis using confined_trans [OF confined_consume_loop drop] by blast
  qed
  also have "confined c pid db2 db3" by (rule confined_GrantItem [OF grant_vow_Inr [OF grant]])
  also have "confined c pid db3 db4"
    unfolding log_vow_Inr [OF log] by (intro confined_writes own_rows_append) simp
  finally show ?thesis .
qed

lemma confined_Pray:
  assumes "Pray h env pid body db = (a, db')"
  shows "confined c pid db db'"
proof (cases a)
  case (OK resp)
  from assms [unfolded OK] show ?thesis by (rule Pray_OK) (rule confined_pray_tx)
next
  case (Reject status code)
  from Pray_Reject [OF assms [unfolded Reject]] have "db' = db \<or> vow_commits h env pid body db db'" by blast
  then show ?thesis using confined_pray_tx unfolding vow_commits_def by blast
qed

lemma confined_Sync:
  assumes "Sync c env pid db = (a, db')"
  shows "confined c pid db db'"
proof (cases "sync_update (p_fault env 0) (p_sqlnow env 0) pid db")
  case (Inl e)
  with assms show ?thesis by (cases e) (simp_all add: Sync_def)
next
  case (Inr x)
  obtain db1 r where x: "x = (db1, r)" by (cases x)
  have "confined c pid db db1"
    using Inr [unfolded x] by (rule sync_update_Inr) (simp add: confined_set_state synced_def)
  moreover obtain g d where g: "ApplyGrowthTx c (p_tx_fault env) (p_growth_fault env) (p_now env 0) (p_sqlnow env 1) pid db1 = (g, d)"
    by fastforce
  ultimately show ?thesis
    using assms Inr x confined_trans [OF _ confined_ApplyGrowthTx [OF g]] by (simp add: Sync_def)
qed

lemma confined_refresh_cairn:
  assumes "refresh_cairn c env pid db = (x, d)"
  shows "confined c pid db d"
proof -
  obtain r1 db1 where r1: "(if int (length (sorted_slots db pid)) < SlotCount c
      then InitializeSlots c (p_init_fault env) pid (p_now env 0) db else (Inr (), db)) = (r1, db1)" by fastforce
  have c1: "confined c pid db db1" using r1 confined_InitializeSlots by (auto split: if_splits)
  obtain r2 db2 where r2: "ApplyGrowthTx c (p_tx_fault env) (p_growth_fault env) (p_now env 1) (p_sqlnow env 0) pid db1 = (r2, db2)"
    by fastforce
  have c2: "confined c pid db db2" by (rule confined_trans [OF c1 confined_ApplyGrowthTx [OF r2]])
  from assms r1 r2 have "d = db \<or> d = db1 \<or> d = db2"
    by (cases "p_fault env 2"; cases r1; cases r2)
      (auto simp: refresh_cairn_def LoadSlots_def attempt_def split: if_splits sum.splits)
  then show ?thesis using c1 c2 by blast
qed

lemma confined_GetState:
  assumes "GetState c env pid db = (a, db')"
  shows "confined c pid db db'"
proof -
  obtain x d where x: "refresh_cairn c env pid db = (x, d)" by fastforce
  have "db' = db \<or> db' = d"
    using assms x by (auto simp: GetState_def split: sum.splits sql_error.splits)
  then show ?thesis using confined_refresh_cairn [OF x] by blast
qed

text \<open>The writes of an unlock, also of one that fails half way.\<close>

lemma confined_unlock_writes:
  "confined c pid db (mark_synced pid ach db)"
  "confined c pid db (insert_retry fault n u pid ach err db)"
  "insert_ach fault now pid ach db = Inr (k, db1) \<Longrightarrow> confined c pid db db1"
proof -
  show "confined c pid db (mark_synced pid ach db)"
    unfolding mark_synced_def by (intro confined_writes own_rows_update) simp
  show "confined c pid db (insert_retry fault n u pid ach err db)"
    unfolding insert_retry_def by (simp add: confined_writes own_rows_append)
  show "insert_ach fault now pid ach db = Inr (k, db1) \<Longrightarrow> confined c pid db db1"
    unfolding insert_ach_def by (auto split: if_splits intro!: confined_writes own_rows_append)
qed

text \<open>What an unlock does to the data base, whatever it answers.\<close>

lemma Unlock_database:
  assumes "Unlock ops steam env pid body s db = (a, s', db')"
  obtains (same) "db' = db"
  | (inserted) ach k db1 where "insert_ach (u_fault env 3) (truncate_second (u_now env)) pid ach db = Inr (k, db1)"
      "db' \<in> {db1, mark_synced pid ach db1} \<or> (\<exists>err. db' = insert_retry (u_fault env 6) (u_sqlnow env) (u_uuid env) pid ach err db1)"
proof (cases "db' = db")
  case False
  obtain ach where body: "body = Some ach" using assms False by (cases body) (auto simp: Unlock_def)
  obtain steamID where c: "unlock_check env pid ach db = Inr steamID"
    using assms False body by (cases "unlock_check env pid ach db") (auto simp: Unlock_def split: if_splits)
  have u: "unlock_commit ops steam env pid ach steamID s db = (a, s', db')"
    using assms False body c by (auto simp: Unlock_def split: if_splits)
  obtain k db1 where i: "insert_ach (u_fault env 3) (truncate_second (u_now env)) pid ach db = Inr (k, db1)"
    using u False by (cases "insert_ach (u_fault env 3) (truncate_second (u_now env)) pid ach db")
      (auto simp: unlock_commit_def Let_def)
  have "db' \<in> {db1, mark_synced pid ach db1} \<or> (\<exists>err. db' = insert_retry (u_fault env 6) (u_sqlnow env) (u_uuid env) pid ach err db1)"
    using u i unfolding unlock_commit_def Let_def enqueueRetry_def
    by (auto split: if_splits sum.splits option.splits)
  with i show thesis by (rule inserted)
qed (rule same)

lemma confined_Unlock:
  assumes "Unlock ops steam env pid body s db = (a, s', db')"
  shows "confined c pid db db'"
  using assms
proof (cases rule: Unlock_database)
  case (inserted ach k db1)
  have i: "confined c pid db db1" by (rule confined_unlock_writes(3) [OF inserted(1)])
  from inserted(2) have "confined c pid db1 db'" using confined_unlock_writes(1,2) by blast
  with i show ?thesis by (rule confined_trans)
qed simp

section \<open>The invariant of the data base\<close>

text \<open>The rows are well formed, and no slot lies outside the configured range.\<close>

definition data_ok :: "cairn_config \<Rightarrow> database \<Rightarrow> bool" where
  "data_ok c db \<longleftrightarrow> db_ok c db \<and> slots_indexed c db"

lemma db_ok_retry_rows: "db_ok c (db\<lparr>achievement_retry_queue := t\<rparr>) = db_ok c db"
  by (simp add: db_ok_def keys_ok_def refs_ok_def has_player_def balances_ok_def stock_ok_def slots_ok_def)

lemma db_ok_insert_retry [simp]: "db_ok c (insert_retry fault n u pid ach err db) = db_ok c db"
  by (simp add: insert_retry_def db_ok_retry_rows)

lemma db_ok_mark_synced: "db_ok c db \<Longrightarrow> db_ok c (mark_synced pid ach db)"
  by (simp add: mark_synced_def db_ok_def keys_ok_def refs_ok_def has_player_def balances_ok_def stock_ok_def
      slots_ok_def map_key_sql_update)

lemma db_ok_insert_ach:
  assumes "db_ok c db" and "insert_ach fault now pid ach db = Inr (k, db1)"
  shows "db_ok c db1"
proof (cases "k = 0")
  case True
  then show ?thesis using insert_ach_Inr(1) [OF assms(2)] assms(1) by simp
next
  case False
  then have "ach_of db pid ach = None" and db1: "db1 = db\<lparr>player_achievements := player_achievements db @
      [\<lparr>ach_player = pid, achievement_id = ach, unlocked_at = unix now, steam_synced = False\<rparr>]\<rparr>"
    using insert_ach_Inr(2) [OF assms(2)] by simp_all
  then have "(pid, ach) \<notin> (\<lambda>r. (ach_player r, achievement_id r)) ` set (player_achievements db)"
    by (auto simp: ach_of_def find_None_iff)
  then show ?thesis
    using assms(1) by (simp add: db1 db_ok_def keys_ok_def refs_ok_def has_player_def balances_ok_def stock_ok_def slots_ok_def)
qed

lemma db_ok_Unlock:
  assumes "db_ok c db" and "Unlock ops steam env pid body s db = (a, s', db')"
  shows "db_ok c db'"
  using assms(2)
proof (cases rule: Unlock_database)
  case (inserted ach k db1)
  then show ?thesis using db_ok_insert_ach [OF assms(1) inserted(1)] db_ok_mark_synced by auto
qed (use assms(1) in simp)

section \<open>The contract of a player's handler\<close>

text \<open>
  \<open>run pid db db'\<close> says that some request of the player may turn \<open>db\<close> into \<open>db'\<close>. A handler keeps the
  rows well formed and is confined to its player; so it keeps the whole invariant, and any number of
  requests of a player leave the view of the others as it was.
\<close>

locale player_handler =
  fixes c :: cairn_config and run :: "string \<Rightarrow> database \<Rightarrow> database \<Rightarrow> bool"
  assumes keeps_ok: "0 \<le> MaxLayers c \<Longrightarrow> db_ok c db \<Longrightarrow> run pid db db' \<Longrightarrow> db_ok c db'"
    and own: "run pid db db' \<Longrightarrow> confined c pid db db'"
begin

lemma keeps_data: "0 \<le> MaxLayers c \<Longrightarrow> data_ok c db \<Longrightarrow> run pid db db' \<Longrightarrow> data_ok c db'"
  using keeps_ok own unfolding data_ok_def confined_def by blast

lemma others: "run pid db db' \<Longrightarrow> q \<noteq> pid \<Longrightarrow> view q db' = view q db"
  using own unfolding confined_def by blast

lemma others_many: "(run pid)\<^sup>*\<^sup>* db db' \<Longrightarrow> q \<noteq> pid \<Longrightarrow> view q db' = view q db"
  by (induction rule: rtranclp_induct) (auto dest: others)

end

definition pull_runs :: "'s kv_ops \<Rightarrow> gacha_config \<Rightarrow> cairn_config \<Rightarrow> (8 word list \<Rightarrow> string) \<Rightarrow> skin_pool \<Rightarrow>
    string \<Rightarrow> database \<Rightarrow> database \<Rightarrow> bool" where
  "pull_runs ops cfg c digest pool pid db db' \<longleftrightarrow>
     (\<exists>env lf clk slot s a s'. Pull ops cfg c digest pool env lf clk pid slot s db = (a, s', db'))"

definition pray_runs :: "vow_handler \<Rightarrow> string \<Rightarrow> database \<Rightarrow> database \<Rightarrow> bool" where
  "pray_runs h pid db db' \<longleftrightarrow> (\<exists>env body a. Pray h env pid body db = (a, db'))"

definition sync_runs :: "cairn_config \<Rightarrow> string \<Rightarrow> database \<Rightarrow> database \<Rightarrow> bool" where
  "sync_runs c pid db db' \<longleftrightarrow> (\<exists>env a. Sync c env pid db = (a, db'))"

definition state_runs :: "cairn_config \<Rightarrow> string \<Rightarrow> database \<Rightarrow> database \<Rightarrow> bool" where
  "state_runs c pid db db' \<longleftrightarrow> (\<exists>env a. GetState c env pid db = (a, db'))"

definition unlock_runs :: "'s kv_ops \<Rightarrow> string \<Rightarrow> database \<Rightarrow> database \<Rightarrow> bool" where
  "unlock_runs ops pid db db' \<longleftrightarrow> (\<exists>steam env body s a s'. Unlock ops steam env pid body s db = (a, s', db'))"

interpretation pulls: player_handler c "pull_runs ops cfg c digest pool" for c ops cfg digest pool
  by unfold_locales (auto simp: pull_runs_def intro: confined_Pull pull_keeps_invariant)

interpretation prays: player_handler c "pray_runs h" for c h
  by unfold_locales (auto simp: pray_runs_def intro: confined_Pray pray_keeps_invariant)

interpretation syncs: player_handler c "sync_runs c" for c
  by unfold_locales (auto simp: sync_runs_def intro: confined_Sync db_ok_sync)

interpretation states: player_handler c "state_runs c" for c
  by unfold_locales (auto simp: state_runs_def intro: confined_GetState db_ok_GetState)

interpretation unlocks: player_handler c "unlock_runs ops" for c ops
  by unfold_locales (auto simp: unlock_runs_def intro: confined_Unlock db_ok_Unlock)

end
