(* ===== verification/ServerProps.thy ===== *)
theory ServerProps
  imports Server Confined AuthProps RetryProps
begin

text \<open>
  What the program as a whole keeps: the invariant of the data base from the boot through every request,
  batch and login, the authority that a change of a player's rows needs, and the boot itself.
\<close>

section \<open>Logins\<close>

lemma view_players [simp]: "view q (db\<lparr>players := t\<rparr>) = view q db"
  by (simp add: view_def)

lemma slots_indexed_players [simp]: "slots_indexed c (db\<lparr>players := t\<rparr>) = slots_indexed c db"
  by (simp add: slots_indexed_def)

lemma player_of_confined: "confined c pid db db' \<Longrightarrow> player_of db' steamID = player_of db steamID"
  by (simp add: confined_def player_of_def)

text \<open>After the player is known every statement of a login is confined to that player.\<close>

lemma confined_failS: "confined c pid db (snd r) \<Longrightarrow> confined c pid db (snd (failS e r))"
  by simp

lemma confined_insert_state: "confined c pid db (snd (insert_state fault sqlnow pid db))"
  unfolding insert_state_def by (auto intro!: confined_writes own_rows_append simp: new_state_def)

lemma confined_initPlayerState: "confined c pid db (snd (initPlayerState fault slotft sqlnow now c pid db))"
  unfolding initPlayerState_def
proof (rule bindS_preserve [where P = "confined c pid db"])
  show "confined c pid db (snd (failS () (insert_state fault sqlnow pid db)))"
    by (simp add: confined_insert_state)
  show "confined c pid db (snd (failS () (InitializeSlots c slotft pid now d)))" if "confined c pid db d" for d
    using confined_trans [OF that confined_InitializeSlots] by (cases "InitializeSlots c slotft pid now d") simp
qed

lemma confined_streak: "confined c pid db (snd (updateLoginStreak fault sqlnow pid db))"
  unfolding updateLoginStreak_def by (simp add: confined_set_state streaked_def)

lemma confined_anchor: "confined c pid db (snd (resetAccrualAnchor fault sqlnow pid db))"
  unfolding resetAccrualAnchor_def by (simp add: confined_set_state anchored_def)

definition login_confined :: "cairn_config \<Rightarrow> string \<Rightarrow> database \<Rightarrow> database \<Rightarrow> bool" where
  "login_confined c steamID db db' \<longleftrightarrow> db' = db \<or>
     (\<exists>t p. player_of (db\<lparr>players := t\<rparr>) steamID = Some p \<and> confined c (p_id p) (db\<lparr>players := t\<rparr>) db')"

lemma login_confined_view:
  assumes "login_confined c steamID db db'" and "view q db' \<noteq> view q db"
  shows "\<exists>p. player_of db' steamID = Some p \<and> p_id p = q"
proof -
  obtain t p where p: "player_of (db\<lparr>players := t\<rparr>) steamID = Some p" "confined c (p_id p) (db\<lparr>players := t\<rparr>) db'"
    using assms by (auto simp: login_confined_def)
  moreover have "p_id p = q" using p(2) assms(2) unfolding confined_def by (metis view_players)
  ultimately show ?thesis using player_of_confined [OF p(2), of steamID] by simp
qed

lemma login_confined_slots: "login_confined c steamID db db' \<Longrightarrow> slots_indexed c db \<Longrightarrow> slots_indexed c db'"
  unfolding login_confined_def confined_def by auto

lemma prepare_player_confined:
  assumes "prepare_player h env streak steamID db = (r, db')"
  shows "login_confined (auth_cairn h) steamID db db'"
    and "r = Inr pid \<Longrightarrow> \<exists>t p. player_of (db\<lparr>players := t\<rparr>) steamID = Some p \<and> p_id p = pid \<and>
      confined (auth_cairn h) pid (db\<lparr>players := t\<rparr>) db'"
proof -
  let ?c = "auth_cairn h"
  obtain u db1 where u: "upsertPlayer (a_fault env 0) (a_sqlnow env 0) (a_uuid env 0) steamID db = (u, db1)" by fastforce
  note eff = upsertPlayer_effect [OF u]
  have "login_confined ?c steamID db db' \<and> (r = Inr pid \<longrightarrow> (\<exists>t p. player_of (db\<lparr>players := t\<rparr>) steamID = Some p \<and> p_id p = pid \<and>
      confined ?c pid (db\<lparr>players := t\<rparr>) db'))"
  proof (cases u)
    case (Inl e)
    then have "db1 = db" using u by (auto simp: upsertPlayer_def split: if_splits option.splits)
    then show ?thesis using assms u Inl by (auto simp: prepare_player_def login_confined_def)
  next
    case (Inr pid0)
    obtain t where t: "db1 = db\<lparr>players := t\<rparr>" using eff(1) by blast
    obtain p where p: "player_of db1 steamID = Some p" "p_id p = pid0" using eff(4) Inr by blast
    let ?rest = "bindS (failS InitFailed (initPlayerState (a_fault env 1) (a_slot_fault env) (a_sqlnow env 1) (a_now env 0) ?c pid0 db1)) (\<lambda>_ db2.
      bindS (if streak then failS StreakFailed (updateLoginStreak (a_fault env 2) (a_sqlnow env 2) pid0 db2) else (Inr (), db2))
        (\<lambda>_ db3. (Inr pid0, db3)))"
    have run: "?rest = (r, db')" using assms u Inr by (simp add: prepare_player_def)
    have "confined ?c pid0 db1 (snd ?rest)"
    proof (intro bindS_preserve [where P = "confined ?c pid0 db1"])
      show "confined ?c pid0 db1 (snd (failS InitFailed (initPlayerState (a_fault env 1) (a_slot_fault env) (a_sqlnow env 1) (a_now env 0) ?c pid0 db1)))"
        by (simp add: confined_initPlayerState)
      show "confined ?c pid0 db1 (snd (if streak then failS StreakFailed (updateLoginStreak (a_fault env 2) (a_sqlnow env 2) pid0 d) else (Inr (), d)))"
        if "confined ?c pid0 db1 d" for d using that confined_trans [OF that confined_streak] by simp
    qed simp
    then have conf: "confined ?c pid0 db1 db'" using run by simp
    have "r = Inr pid \<Longrightarrow> pid = pid0" using run by (auto simp: run_simps)
    then show ?thesis using conf p t unfolding login_confined_def by auto
  qed
  then show "login_confined (auth_cairn h) steamID db db'"
    and "r = Inr pid \<Longrightarrow> \<exists>t p. player_of (db\<lparr>players := t\<rparr>) steamID = Some p \<and> p_id p = pid \<and>
      confined (auth_cairn h) pid (db\<lparr>players := t\<rparr>) db'" by blast+
qed

lemma login_is_confined:
  assumes "login ops h env clk streak steamID s db = (r, s', db')"
  shows "login_confined (auth_cairn h) steamID db db'"
proof -
  obtain r1 db1 where p: "prepare_player h env streak steamID db = (r1, db1)" by fastforce
  note c1 = prepare_player_confined [OF p]
  have "db' = db1 \<or> (\<exists>pid. r1 = Inr pid \<and> db' = snd (resetAccrualAnchor (a_fault env 3) (a_sqlnow env 3) pid db1))"
    using assms unfolding login_def p
    by (auto split: prod.splits sum.splits option.splits)
  then show ?thesis
  proof
    assume "\<exists>pid. r1 = Inr pid \<and> db' = snd (resetAccrualAnchor (a_fault env 3) (a_sqlnow env 3) pid db1)"
    then obtain pid where pid: "r1 = Inr pid" "db' = snd (resetAccrualAnchor (a_fault env 3) (a_sqlnow env 3) pid db1)" by blast
    obtain t pl where t: "player_of (db\<lparr>players := t\<rparr>) steamID = Some pl" "p_id pl = pid"
      "confined (auth_cairn h) pid (db\<lparr>players := t\<rparr>) db1" using c1(2) [OF pid(1)] by blast
    have "confined (auth_cairn h) pid (db\<lparr>players := t\<rparr>) db'"
      unfolding pid(2) by (rule confined_trans [OF t(3) confined_anchor])
    with t show ?thesis unfolding login_confined_def by blast
  qed (use c1(1) in simp)
qed

lemma data_ok_login:
  assumes "data_ok (auth_cairn h) db" and "0 \<le> MaxLayers (auth_cairn h)" and "login ops h env clk streak steamID s db = (r, s', db')"
  shows "data_ok (auth_cairn h) db'"
  using assms db_ok_login [OF _ assms(2,3)] login_confined_slots [OF login_is_confined [OF assms(3)]]
  unfolding data_ok_def by blast

text \<open>The three handlers that log a player in change the data base by a login or not at all.\<close>

lemma AuthSteam_database:
  assumes "AuthSteam ops h ticketHash steam env body s db = (a, s', db')"
  obtains (same) "db' = db"
  | (login) ticket steamID s1 r s2 where "body = Some ticket" "steam ticket = Inr steamID"
      "login ops h env (\<lambda>i. a_kv env (1 + i)) True steamID s1 db = (r, s2, db')"
  using assms unfolding AuthSteam_def
  by (auto split: option.splits if_splits sum.splits prod.splits) 

lemma AuthDev_database:
  assumes "AuthDev ops h uuid_ok env body s db = (a, s', db')"
  obtains (same) "db' = db" | (login) u r s2 where "login ops h env (a_kv env) True u s db = (r, s2, db')"
  using assms unfolding AuthDev_def by (auto split: option.splits if_splits sum.splits prod.splits)

lemma DevToken_database:
  assumes "DevToken ops h env steamID s db = (a, s', db')"
  obtains (same) "db' = db" | (login) r s2 where "login ops h env (a_kv env) False steamID s db = (r, s2, db')"
  using assms unfolding DevToken_def by (auto split: if_splits sum.splits prod.splits)

section \<open>One request\<close>

text \<open>What main guarantees of the handlers: one configuration of the cairn, with a sensible maximum.\<close>

definition server_ok :: "'k server \<Rightarrow> bool" where
  "server_ok sv \<longleftrightarrow> 0 \<le> MaxLayers (sv_cairn sv) \<and> auth_cairn (sv_auth sv) = sv_cairn sv"

lemma handle_data_ok:
  assumes "server_ok sv" and "data_ok (sv_cairn sv) db" and "handle out sv ops r c call s db = (a, s', db')"
  shows "data_ok (sv_cairn sv) db'"
proof -
  have ml: "0 \<le> MaxLayers (sv_cairn sv)" and ac: "auth_cairn (sv_auth sv) = sv_cairn sv"
    using assms(1) by (simp_all add: server_ok_def)
  have login: "data_ok (sv_cairn sv) d" if "login ops (sv_auth sv) env clk streak steamID t db = (x, t', d)"
    for env clk streak steamID t x t' d
    using data_ok_login [of "sv_auth sv"] that assms(2) ml ac by simp
  show ?thesis
  proof (cases call)
    case (CallAuthSteam env body)
    then obtain b where "AuthSteam ops (sv_auth sv) (o_ticketHash out) (sv_steam sv (h_post r)) env body s db = (b, s', db')"
      using assms(3) by (auto simp: map_prod_def split: prod.splits)
    then show ?thesis by (cases rule: AuthSteam_database) (use assms(2) login in auto)
  next
    case (CallAuthDev env body)
    then obtain b where "AuthDev ops (sv_auth sv) (o_uuid_ok out) env body s db = (b, s', db')"
      using assms(3) by (auto simp: map_prod_def split: prod.splits)
    then show ?thesis by (cases rule: AuthDev_database) (use assms(2) login in auto)
  next
    case (CallDevToken env steamID)
    then obtain b where "DevToken ops (sv_auth sv) env steamID s db = (b, s', db')"
      using assms(3) by (auto simp: map_prod_def split: prod.splits)
    then show ?thesis by (cases rule: DevToken_database) (use assms(2) login in auto)
  next
    case (CallState env)
    then have "state_runs (sv_cairn sv) (playerID c) db db'"
      using assms(3) by (auto simp: state_runs_def split: prod.splits)
    then show ?thesis by (rule states.keeps_data [OF ml assms(2)])
  next
    case (CallSync env)
    then have "sync_runs (sv_cairn sv) (playerID c) db db'"
      using assms(3) by (auto simp: sync_runs_def split: prod.splits)
    then show ?thesis by (rule syncs.keeps_data [OF ml assms(2)])
  next
    case (CallPull env lf clk slot)
    then obtain b where "Pull ops (sv_gacha sv) (sv_cairn sv) (o_digest out) (sv_pool sv) env lf clk (playerID c) slot s db = (b, s', db')"
      using assms(3) by (auto simp: map_prod_def split: prod.splits)
    then have "pull_runs ops (sv_gacha sv) (sv_cairn sv) (o_digest out) (sv_pool sv) (playerID c) db db'"
      unfolding pull_runs_def by blast
    then show ?thesis by (rule pulls.keeps_data [OF ml assms(2)])
  next
    case (CallPray env body)
    then have "pray_runs (sv_vow sv) (playerID c) db db'"
      using assms(3) by (auto simp: pray_runs_def split: prod.splits)
    then show ?thesis by (rule prays.keeps_data [OF ml assms(2)])
  next
    case (CallUnlock env body)
    then obtain b where "Unlock ops (sv_steam_ach sv (h_post_ach r)) env (playerID c) body s db = (b, s', db')"
      using assms(3) by (auto simp: map_prod_def split: prod.splits)
    then have "unlock_runs ops (playerID c) db db'" unfolding unlock_runs_def by blast
    then show ?thesis by (rule unlocks.keeps_data [OF ml assms(2)])
  qed (use assms(2,3) in \<open>auto split: prod.splits\<close>)
qed

lemma serve_cases:
  fixes ops :: "'s kv_ops"
  assumes "serve out sv ops r (s, db) = (a, s', db')"
  obtains (same) "db' = db"
  | (handled) g c s1 where "route_group (sv_AppEnv sv) (endpoint (h_call r)) = Some g"
      "(guards out sv ops g r s :: payload handled \<times> 's) = (Inr c, s1)" "handle out sv ops r c (h_call r) s1 db = (a, s', db')"
  using assms unfolding serve_def by (auto split: option.splits sum.splits prod.splits)

section \<open>Authority\<close>

text \<open>A token of the player, well signed at the time of the request, whose session is live.\<close>

definition authenticated :: "'k outside \<Rightarrow> 'k server \<Rightarrow> 's kv_ops \<Rightarrow> http_request \<Rightarrow> 's \<Rightarrow> string \<Rightarrow> bool" where
  "authenticated out sv ops r s pid \<longleftrightarrow>
     (\<exists>tok claims v. bearerToken (context_of r) = Some tok \<and>
        o_parse out (h_token_time r) (keyfunc (sv_pubKey sv)) tok = Some claims \<and>
        fst (kv_get ops (h_token_time r) (session_key (cl_ID claims)) s) = Inr v \<and> cl_PlayerID claims = pid)"

text \<open>A ticket that Steam confirms for the identity of the player.\<close>

definition steam_login :: "'k server \<Rightarrow> http_request \<Rightarrow> database \<Rightarrow> string \<Rightarrow> bool" where
  "steam_login sv r db pid \<longleftrightarrow>
     (\<exists>env ticket steamID p. h_call r = CallAuthSteam env (Some ticket) \<and> sv_steam sv (h_post r) ticket = Inr steamID \<and>
        player_of db steamID = Some p \<and> p_id p = pid)"

lemma RateLimiter_context: "RateLimiter ops clk c s = (Inr c', s') \<Longrightarrow> c' = c"
  unfolding RateLimiter_def Let_def by (auto split: if_splits prod.splits sum.splits)

lemma JWTAuth_context:
  assumes "JWTAuth parse pubKey ops t c s = (Inr c', s')"
  obtains tok claims v where "bearerToken c = Some tok" "parse (keyfunc pubKey) tok = Some claims"
    "fst (kv_get ops t (session_key (cl_ID claims)) s) = Inr v" "playerID c' = cl_PlayerID claims"
  using assms unfolding JWTAuth_def playerID_def
  by (auto split: option.splits prod.splits sum.splits kv_error.splits)

lemma secured_guard:
  fixes ops :: "'s kv_ops"
  assumes "(guards out sv ops Secured r s :: 'a handled \<times> 's) = (Inr c, s')"
  shows "authenticated out sv ops r s (playerID c)"
proof -
  obtain x s1 where j: "(JWTAuth (o_parse out (h_token_time r)) (sv_pubKey sv) ops (h_token_time r) (context_of r) s :: 'a handled \<times> 's) = (Inr x, s1)"
      and l: "(RateLimiter ops (h_limit_clock r) x s1 :: 'a handled \<times> 's) = (Inr c, s')"
    using assms unfolding guards_def by (auto simp: Let_def split: prod.splits sum.splits)
  have c: "c = x" by (rule RateLimiter_context [OF l])
  from j show ?thesis
    by (rule JWTAuth_context) (auto simp: authenticated_def c)
qed

text \<open>The routes, and the group of each call outside development.\<close>

lemma production_groups:
  assumes "appEnv \<noteq> ''development''"
  shows "route_group appEnv (endpoint (CallState e)) = Some Secured"
    and "route_group appEnv (endpoint (CallSync e)) = Some Secured"
    and "route_group appEnv (endpoint (CallPull e1 e2 e3 e4)) = Some Secured"
    and "route_group appEnv (endpoint (CallPray e5 e6)) = Some Secured"
    and "route_group appEnv (endpoint (CallUnlock e7 e8)) = Some Secured"
    and "route_group appEnv (endpoint (CallAuthDev e9 e10)) = None"
    and "route_group appEnv (endpoint (CallDevToken e9 e11)) = None"
    and "route_group appEnv (endpoint (CallEconomy e12 e11)) = None"
  using assms by (simp_all add: route_group_def routes_def)

lemma handle_views:
  assumes "handle out sv ops r c call s db = (a, s', db')" and "view q db' \<noteq> view q db"
  shows "(\<exists>env. call = CallState env) \<and> q = playerID c \<or> (\<exists>env. call = CallSync env) \<and> q = playerID c \<or>
    (\<exists>env lf clk slot. call = CallPull env lf clk slot) \<and> q = playerID c \<or>
    (\<exists>env body. call = CallPray env body) \<and> q = playerID c \<or>
    (\<exists>env body. call = CallUnlock env body) \<and> q = playerID c \<or>
    (\<exists>env ticket steamID p. call = CallAuthSteam env (Some ticket) \<and> sv_steam sv (h_post r) ticket = Inr steamID \<and>
       player_of db' steamID = Some p \<and> p_id p = q) \<or>
    (\<exists>env body. call = CallAuthDev env body) \<or> (\<exists>env steamID. call = CallDevToken env steamID)"
proof (cases call)
  case (CallAuthSteam env body)
  then obtain b where "AuthSteam ops (sv_auth sv) (o_ticketHash out) (sv_steam sv (h_post r)) env body s db = (b, s', db')"
    using assms(1) by (auto simp: map_prod_def split: prod.splits)
  then show ?thesis
  proof (cases rule: AuthSteam_database)
    case (login ticket steamID s1 x s2)
    then show ?thesis using CallAuthSteam login_confined_view [OF login_is_confined [OF login(3)] assms(2)] by simp
  qed (use assms(2) in simp)
next
  case (CallState env)
  then have "state_runs (sv_cairn sv) (playerID c) db db'"
    using assms(1) by (auto simp: state_runs_def split: prod.splits)
  from states.others [OF this] assms(2) have "q = playerID c" by metis
  then show ?thesis using CallState by simp
next
  case (CallSync env)
  then have "sync_runs (sv_cairn sv) (playerID c) db db'"
    using assms(1) by (auto simp: sync_runs_def split: prod.splits)
  from syncs.others [OF this] assms(2) have "q = playerID c" by metis
  then show ?thesis using CallSync by simp
next
  case (CallPull env lf clk slot)
  then obtain b where "Pull ops (sv_gacha sv) (sv_cairn sv) (o_digest out) (sv_pool sv) env lf clk (playerID c) slot s db = (b, s', db')"
    using assms(1) by (auto simp: map_prod_def split: prod.splits)
  then have "pull_runs ops (sv_gacha sv) (sv_cairn sv) (o_digest out) (sv_pool sv) (playerID c) db db'"
    unfolding pull_runs_def by blast
  from pulls.others [OF this] assms(2) have "q = playerID c" by metis
  then show ?thesis using CallPull by simp
next
  case (CallPray env body)
  then have "pray_runs (sv_vow sv) (playerID c) db db'"
    using assms(1) by (auto simp: pray_runs_def split: prod.splits)
  from prays.others [OF this] assms(2) have "q = playerID c" by metis
  then show ?thesis using CallPray by simp
next
  case (CallUnlock env body)
  then obtain b where "Unlock ops (sv_steam_ach sv (h_post_ach r)) env (playerID c) body s db = (b, s', db')"
    using assms(1) by (auto simp: map_prod_def split: prod.splits)
  then have "unlock_runs ops (playerID c) db db'" unfolding unlock_runs_def by blast
  from unlocks.others [OF this] assms(2) have "q = playerID c" by metis
  then show ?thesis using CallUnlock by simp
qed (use assms in \<open>auto split: prod.splits\<close>)

section \<open>A production server\<close>

text \<open>A boot on the shipped configuration and five skins, with a key that signs one token.\<close>

definition demo_skins :: string where
  "demo_skins = concat (map (\<lambda>l. l @ [LF])
     [''skinId,partType,rarity'', ''a,top,common'', ''b,face,uncommon'', ''c,top,rare'', ''d,top,unique'', ''e,top,legendary''])"

definition demo_claims :: jwt_claims where
  "demo_claims = \<lparr>cl_PlayerID = ''p'', cl_Issuer = jwtIssuer, cl_Audience = [jwtAudience], cl_Subject = ''p'', cl_ID = ''j'',
     cl_IssuedAt = 0, cl_ExpiresAt = jwtExpiry\<rparr>"

definition demo_outside :: "unit outside" where
  "demo_outside = \<lparr>
     o_getenv = (\<lambda>k. case map_of [(''APP_ENV'', ''production''), (''JWT_PRIVATE_KEY'', ''key''), (''SQLITE_PATH'', ''game.db''),
                         (''STEAM_API_KEY'', ''api''), (''STEAM_APP_ID'', ''480'')] k of None \<Rightarrow> [] | Some v \<Rightarrow> v),
     o_file = (\<lambda>p. Some (if p = ''Data/skins.csv'' then demo_skins else [])), o_lower = (\<lambda>x. x),
     o_unmarshal = (\<lambda>_. Some shipped_config), o_keys = \<lparr>pemDecode = (\<lambda>_. Some \<lparr>pb_Type = ''PRIVATE KEY'', pb_Bytes = []\<rparr>),
       pkcs1 = (\<lambda>_. None), pkcs8 = (\<lambda>_. Some (Some (\<lambda>_. Some ''token'', ())))\<rparr>,
     o_services = \<lparr>ds_source = True, ds_migrator = (\<lambda>_. None), ds_poolConfig = (\<lambda>_. None), ds_newPool = (\<lambda>_. None),
       ds_redisOptions = (\<lambda>_. None)\<rparr>, o_decode = (\<lambda>_. None), o_digest = (\<lambda>_. []), o_ticketHash = (\<lambda>t. t),
     o_uuid_ok = (\<lambda>_. True), o_parse = (\<lambda>t key tok. if tok = ''token'' \<and> key (SigningMethodRSA ''RS256'') = Some () then Some demo_claims else None),
     o_convert = (\<lambda>_. 0)\<rparr>"

lemma demo_boot_server:
  "case boot_server demo_outside (\<lambda>_. False) 200 demo_full of
     Inr (sv, Some (m, db)) \<Rightarrow> sv_cairn sv = \<lparr>SlotCount = 5, MaxLayers = 5, SpawnIntervalSeconds = 30\<rparr> \<and>
       length (wish_cairn_slots db) = 5
   | _ \<Rightarrow> False"
  by code_simp

text \<open>Its queue is not reloaded, as the query fails.\<close>

lemma demo_boot:
  obtains sv m db where "boot demo_outside (\<lambda>_. False) (\<lambda>_. True) 200 demo_full = Some (Inr (sv, Some (m, db)))"
    and "sv_cairn sv = \<lparr>SlotCount = 5, MaxLayers = 5, SpawnIntervalSeconds = 30\<rparr>"
proof -
  obtain sv m db where b: "boot_server demo_outside (\<lambda>_. False) 200 demo_full = Inr (sv, Some (m, db))"
    "sv_cairn sv = \<lparr>SlotCount = 5, MaxLayers = 5, SpawnIntervalSeconds = 30\<rparr>"
    using demo_boot_server by (auto split: sum.splits option.splits)
  then have "boot demo_outside (\<lambda>_. False) (\<lambda>_. True) 200 demo_full = Some (Inr (sv, Some (m, db)))"
    by (simp add: boot_def ReloadPendingRetries_def)
  with that b(2) show thesis by blast
qed

definition demo_http :: "call \<Rightarrow> http_request" where
  "demo_http call = \<lparr>h_clientIP = ''1.2.3.4'', h_authorization = ''Bearer token'', h_token_time = 150 * second,
     h_limit_clock = (\<lambda>_. 150 * second), h_post = (\<lambda>_. None), h_post_ach = (\<lambda>_. Inr 200), h_call = call\<rparr>"

definition demo_server :: "unit server" where
  "demo_server = \<lparr>sv_AppEnv = ''production'', sv_cairn = demo_cairn, sv_gacha = demo_gacha, sv_pool = demo_pool,
     sv_vow = NewHandler demo_pool 7 [] False, sv_auth = \<lparr>auth_cairn = demo_cairn, auth_sign = (\<lambda>_. Some ''token'')\<rparr>,
     sv_steam = (\<lambda>_ _. Inl SteamCallFailed), sv_steam_ach = (\<lambda>_ _ _. None), sv_pubKey = ()\<rparr>"

definition demo_session :: mem_store where
  "demo_session = snd (MemStore_Set (100 * second) (session_key ''j'') ''1'' sessionTTL NewMemStore)"

text \<open>A synchronisation whose growth, which is best effort, does not get a transaction.\<close>

definition demo_sync :: call where
  "demo_sync = CallSync ((demo_player_env 150)\<lparr>p_tx_fault := (\<lambda>_. True)\<rparr>)"

definition demo_served :: "payload answer \<times> mem_store \<times> database" where
  "demo_served = serve demo_outside demo_server mem_ops (demo_http demo_sync) (demo_session, demo_idle)"

lemma demo_served_changes: "view_state (view ''p'' (snd (snd demo_served))) \<noteq> view_state (view ''p'' demo_idle)"
  by code_simp

section \<open>Who changes what\<close>



section \<open>The worker\<close>

lemma data_ok_retry_rows [simp]: "data_ok c (db\<lparr>achievement_retry_queue := t\<rparr>) = data_ok c db"
  by (simp add: data_ok_def db_ok_retry_rows slots_indexed_def)

lemma data_ok_mark_synced: "data_ok c db \<Longrightarrow> data_ok c (mark_synced pid ach db)"
  using db_ok_mark_synced confined_unlock_writes(1) unfolding data_ok_def confined_def by blast

lemma processOne_data_ok: "data_ok c db \<Longrightarrow> data_ok c (snd (processOne w env i item db))"
  unfolding processOne_def
  by (auto simp: Let_def bump_retry_def resolve_retry_def run_simps data_ok_mark_synced split: option.splits sum.splits sql_error.splits)

lemma processBatch_data_ok:
  assumes "data_ok c db" and "processBatch mem_ops w env s db = Some (s', db')"
  shows "data_ok c db'"
proof -
  have "db' = snd (batch_items w env 0 (rev (lists s retryQueue)) db)"
    using memqr.processBatch_items [OF refl, of w env s db] assms(2) by auto
  then show ?thesis using batch_items_preserve [of _ "data_ok c", OF processOne_data_ok assms(1)] by simp
qed

section \<open>The boot\<close>

lemma backfill_last_sync_db_ok: "db_ok c db \<Longrightarrow> db_ok c (backfill_last_sync now db)"
  unfolding backfill_last_sync_def db_ok_def
  by (simp add: keys_ok_def refs_ok_def has_player_def balances_ok_def stock_ok_def slots_ok_def map_key_sql_update
      set_sql_update) auto

lemma fold_insert_slot_all:
  "(\<And>r. r \<in> set t \<Longrightarrow> P r) \<Longrightarrow> (\<And>r. r \<in> set ss \<Longrightarrow> P r) \<Longrightarrow> r \<in> set (fold insert_slot ss t) \<Longrightarrow> P r"
  using fold_insert_slot_sub [of ss t] by blast

text \<open>The backfill keeps the invariant and brings every slot into the configured range.\<close>

lemma backfillCairnSlots_data_ok:
  assumes "db_ok c db" and "0 \<le> MaxLayers c" and "\<forall>r \<in> set (wish_cairn_slots db). 0 \<le> slot_index r"
    and "backfillCairnSlots (SlotCount c) phase now db = Inr db'"
  shows "data_ok c db'"
proof -
  define new where "new = concat (map (\<lambda>p. map (\<lambda>i. new_slot (p_id p) i (now - i * phase)) [0..SlotCount c - 1]) (players db))"
  have db': "db' = db\<lparr>wish_cairn_slots := sql_delete (\<lambda>r. slot_index r \<ge> SlotCount c) (fold insert_slot new (wish_cairn_slots db))\<rparr>"
    using assms(4) by (simp add: backfillCairnSlots_def Let_def new_def split: if_splits)
  have n: "\<exists>p \<in> set (players db). slot_player r = p_id p" "0 \<le> slot_index r" "layer_count r = 0" if "r \<in> set new" for r
    using that by (auto simp: new_def new_slot_def)
  let ?t = "sql_delete (\<lambda>r. slot_index r \<ge> SlotCount c) (fold insert_slot new (wish_cairn_slots db))"
  have rows: "P r" if "r \<in> set ?t" "\<And>r. r \<in> set (wish_cairn_slots db) \<Longrightarrow> P r" "\<And>r. r \<in> set new \<Longrightarrow> P r" for P r
    using that fold_insert_slot_all [of "wish_cairn_slots db" P new r] by (auto simp: sql_delete_def)
  have "distinct (map (\<lambda>r. (slot_player r, slot_index r)) ?t)"
    using fold_insert_slot_distinct [of "wish_cairn_slots db" new] assms(1)
    by (simp add: sql_delete_def distinct_map_filter db_ok_def keys_ok_def)
  moreover have "has_player db (slot_player r)" if "r \<in> set ?t" for r
    using that
  proof (rule rows)
    show "has_player db (slot_player r)" if "r \<in> set (wish_cairn_slots db)" for r
      using assms(1) that by (simp add: db_ok_def refs_ok_def)
    show "has_player db (slot_player r)" if "r \<in> set new" for r using n(1) [OF that] by (auto simp: has_player_def list_ex_iff)
  qed
  moreover have "0 \<le> layer_count r \<and> layer_count r \<le> MaxLayers c" if "r \<in> set ?t" for r
    using that by (rule rows) (use assms(1,2) n(3) in \<open>auto simp: db_ok_def slots_ok_def\<close>)
  moreover have "0 \<le> slot_index r" if "r \<in> set ?t" for r
    using that by (rule rows) (use assms(3) n(2) in auto)
  moreover have "slot_index r < SlotCount c" if "r \<in> set ?t" for r using that by (simp add: sql_delete_def)
  ultimately show ?thesis
    using assms(1)
    by (simp add: db' data_ok_def db_ok_def keys_ok_def refs_ok_def has_player_def balances_ok_def stock_ok_def
        slots_ok_def slots_indexed_def)
qed

text \<open>What main has checked when it starts to serve.\<close>

lemma boot_server_Inr:
  assumes "boot_server out ft sqlnow db = Inr (sv, stores)"
  obtains cfg pool g where "Load_config (o_getenv out) = Inr cfg" and "boot_pool out cfg = Inr pool"
    and "boot_game out cfg = Inr g" and "boot_stores out cfg (cairn_of g) ft sqlnow db = Inr stores"
    and "sv_cairn sv = cairn_of g" and "sv_gacha sv = gacha_of g" and "sv_pool sv = pool" and "sv_AppEnv sv = cfg_AppEnv cfg"
    and "auth_cairn (sv_auth sv) = cairn_of g" and "ranges_ok g"
proof -
  obtain cfg where cfg: "Load_config (o_getenv out) = Inr cfg"
    using assms by (cases "Load_config (o_getenv out)") (simp_all add: boot_server_def)
  obtain sign pub where key: "ParsePrivateKey (o_keys out) (cfg_JWTPrivKey cfg) = Inr (sign, pub)"
    using assms cfg by (cases "ParsePrivateKey (o_keys out) (cfg_JWTPrivKey cfg)") (auto simp: boot_server_def run_simps)
  obtain pool g where p: "boot_pool out cfg = Inr pool" and g: "boot_game out cfg = Inr g"
    and st: "boot_stores out cfg (cairn_of g) ft sqlnow db = Inr stores" and sv: "sv = build_server out cfg pool g sign pub"
    using assms cfg key unfolding boot_server_def by (auto simp: run_simps)
  have "config_ok g"
    using g Load_Inr [of "o_unmarshal out" "o_lower out" "o_file out (cfg_GameConfigXMLPath cfg)" g]
    by (auto simp: boot_game_def split: sum.splits)
  then have "ranges_ok g" by (simp add: config_ok_def)
  with that cfg p g st sv show thesis by (auto simp: build_server_def)
qed

lemma boot_stores_data_ok:
  assumes "boot_stores out cfg c ft sqlnow db = Inr (Some (m, db'))" and "db_ok c db" and "0 \<le> MaxLayers c"
    and "\<forall>r \<in> set (wish_cairn_slots db). 0 \<le> slot_index r"
  shows "data_ok c db'" and "m = NewMemStore"
proof -
  have "\<exists>phase. backfillCairnSlots (SlotCount c) phase sqlnow (backfill_last_sync sqlnow db) = Inr db' \<and> m = NewMemStore"
    using assms(1) unfolding boot_stores_def open_database_def
    by (auto simp: run_simps split: if_splits option.splits sum.splits)
  then show "data_ok c db'" and "m = NewMemStore"
    using backfillCairnSlots_data_ok [OF backfill_last_sync_db_ok [OF assms(2)] assms(3)] assms(4)
    by (auto simp: backfill_last_sync_def)
qed

lemma boot_Inr:
  assumes "boot out ft rft sqlnow db = Some (Inr (sv, Some (m, db')))"
  obtains m0 r where "boot_server out ft sqlnow db = Inr (sv, Some (m0, db'))"
    and "ReloadPendingRetries mem_ops rft DefaultMaxRetries db' m0 = Some (r, m)"
  using assms unfolding boot_def by (auto split: sum.splits prod.splits option.splits)

lemma boot_server_ok:
  assumes "boot out ft rft sqlnow db = Some (Inr (sv, Some (m, db')))" and "db_ok (sv_cairn sv) db"
    and "\<forall>r \<in> set (wish_cairn_slots db). 0 \<le> slot_index r"
  shows "server_ok sv" and "data_ok (sv_cairn sv) db'"
proof -
  obtain m0 r where b: "boot_server out ft sqlnow db = Inr (sv, Some (m0, db'))" using assms(1) by (rule boot_Inr)
  have "server_ok sv \<and> data_ok (sv_cairn sv) db'"
    using b
  proof (rule boot_server_Inr)
    fix cfg pool g
    assume st: "boot_stores out cfg (cairn_of g) ft sqlnow db = Inr (Some (m0, db'))" and c: "sv_cairn sv = cairn_of g"
      and a: "auth_cairn (sv_auth sv) = cairn_of g" and r: "ranges_ok g"
    have ml: "0 \<le> MaxLayers (cairn_of g)" using r by (simp add: ranges_ok_def cairn_of_def)
    then show ?thesis using boot_stores_data_ok(1) [OF st _ ml assms(3)] assms(2) a c by (simp add: server_ok_def)
  qed
  then show "server_ok sv" and "data_ok (sv_cairn sv) db'" by blast+
qed

section \<open>Every reachable state\<close>

lemma server_step_data_ok:
  assumes "server_step out sv mem_ops w w'" and "server_ok sv" and "data_ok (sv_cairn sv) (snd w)"
  shows "data_ok (sv_cairn sv) (snd w')"
  using assms(1)
proof cases
  case (request r a)
  obtain s db s' db' where w: "w = (s, db)" "w' = (s', db')" by fastforce
  from request [unfolded w] show ?thesis
    by (cases rule: serve_cases) (use assms(2,3) w handle_data_ok in auto)
next
  case (batch env net s db s' db')
  then show ?thesis using processBatch_data_ok assms(3) by auto
next
  case (store s db s')
  then show ?thesis using assms(3) by simp
qed

text \<open>
  The data base stays well formed for as long as the server runs: after a boot on a well formed file, at
  whatever point of whatever sequence of requests (answered or refused, with any statement failing), worker
  batches and changes of the key-value store, the keys are unique, every row belongs to a player, no
  balance is negative and no stock empty, and every slot lies in the configured range with a layer count
  between 0 and the maximum.
\<close>

theorem server_keeps_data_ok:
  assumes "boot out ft rft sqlnow db0 = Some (Inr (sv, Some (m0, db1)))" and "db_ok (sv_cairn sv) db0"
    and "\<forall>r \<in> set (wish_cairn_slots db0). 0 \<le> slot_index r"
    and "server_reach out sv mem_ops (m0, db1) (m, db)"
  shows "data_ok (sv_cairn sv) db"
proof -
  note start = boot_server_ok [OF assms(1-3)]
  have "data_ok (sv_cairn sv) (snd w)" if "server_reach out sv mem_ops (m0, db1) w" for w
    using that by induction (use start server_step_data_ok in auto)
  from this [OF assms(4)] show ?thesis by simp
qed

theorem server_keeps_data_ok_witness:
  "\<exists>sv m db a m' db'. boot demo_outside (\<lambda>_. False) (\<lambda>_. True) 200 demo_full = Some (Inr (sv, Some (m, db))) \<and>
     serve demo_outside sv mem_ops (demo_http (CallState (demo_player_env 300))) (m, db) = (a, m', db') \<and> data_ok (sv_cairn sv) db'"
proof -
  obtain sv m db where b: "boot demo_outside (\<lambda>_. False) (\<lambda>_. True) 200 demo_full = Some (Inr (sv, Some (m, db)))"
    "sv_cairn sv = \<lparr>SlotCount = 5, MaxLayers = 5, SpawnIntervalSeconds = 30\<rparr>" by (rule demo_boot)
  obtain a m' db' where s: "serve demo_outside sv mem_ops (demo_http (CallState (demo_player_env 300))) (m, db) = (a, m', db')"
    by (metis prod_cases3)
  have ok: "db_ok (sv_cairn sv) demo_full"
    using demo_full_ok by (simp add: b(2) demo_cairn_def db_ok_def slots_ok_def)
  have ix: "\<forall>r \<in> set (wish_cairn_slots demo_full). 0 \<le> slot_index r" by (simp add: demo_full_def new_slot_def)
  have "server_reach demo_outside sv mem_ops (m, db) (m', db')"
    by (rule server_reach.next_step [OF server_reach.start server_step.request [OF s]])
  from server_keeps_data_ok [OF b(1) ok ix this] b(1) s show ?thesis by blast
qed



end
