(* ===== verification/Lifecycle.thy ===== *)
theory Lifecycle
  imports ServerProps
begin

text \<open>
  The life of the process in the SQLite mode: the end of \<open>main\<close> in \<open>cmd/server/main.go\<close> (signal, shutdown
  of the HTTP server, draining of the worker), the goroutine of the retry worker (\<open>Start\<close> and \<open>run\<close> in
  \<open>internal/achievement/worker.go\<close>, item by item and interleaved with the requests), and the sweeper of
  the store (\<open>StartSweeper\<close> in \<open>pkg/kvstore/memory.go\<close>).
\<close>

section \<open>The process\<close>

datatype main_at = Serving | ShuttingDown | Draining | Returned | Died

text \<open>Main passes these points in this order.\<close>

instantiation main_at :: linorder
begin

fun rank_main_at :: "main_at \<Rightarrow> nat" where
  "rank_main_at Serving = 0"
| "rank_main_at ShuttingDown = 1"
| "rank_main_at Draining = 2"
| "rank_main_at Returned = 3"
| "rank_main_at Died = 4"

definition less_eq_main_at :: "main_at \<Rightarrow> main_at \<Rightarrow> bool" where
  "less_eq_main_at a b = (rank_main_at a \<le> rank_main_at b)"

definition less_main_at :: "main_at \<Rightarrow> main_at \<Rightarrow> bool" where
  "less_main_at a b = (rank_main_at a < rank_main_at b)"

lemma rank_main_at_inject: "rank_main_at a = rank_main_at b \<Longrightarrow> a = b"
  by (cases a; cases b) simp_all

instance
  by standard (auto simp: less_eq_main_at_def less_main_at_def intro: rank_main_at_inject)

end

text \<open>
  The worker: before its \<open>select\<close>; in a batch, with the items to queue again, about to pop; with the item
  that it popped; pushing back, with what is left in the order of the pushes; after \<open>run\<close>; asleep before it
  starts again; after \<open>wg.Done\<close>.
\<close>

datatype worker_at =
  Ticking | Popping "string list" | Holding string "string list" | Pushing "string list" | AfterRun | Asleep | Gone

record process =
  pr_main :: main_at
  pr_cancelled :: bool
  pr_inflight :: "http_request list"
  pr_accepted :: nat
  pr_answered :: nat
  pr_timed_out :: bool
  pr_worker :: worker_at
  pr_sweeper :: bool
  pr_store :: mem_store
  pr_db :: database

definition started :: "mem_store \<times> database \<Rightarrow> process" where
  "started w = \<lparr>pr_main = Serving, pr_cancelled = False, pr_inflight = [], pr_accepted = 0, pr_answered = 0,
     pr_timed_out = False, pr_worker = Ticking, pr_sweeper = True, pr_store = fst w, pr_db = snd w\<rparr>"

definition running :: "process \<Rightarrow> bool" where
  "running p \<longleftrightarrow> pr_main p \<noteq> Returned \<and> pr_main p \<noteq> Died"

text \<open>The steps that the process makes of its own accord: those of main and of its handlers,\<close>

inductive main_step :: "'k outside \<Rightarrow> 'k server \<Rightarrow> process \<Rightarrow> process \<Rightarrow> bool" for out sv where
  answer: "running p \<Longrightarrow> pr_inflight p = rs @ r # rs' \<Longrightarrow>
    serve out sv mem_ops r (pr_store p, pr_db p) = (a, s, db) \<Longrightarrow>
    main_step out sv p (p\<lparr>pr_inflight := rs @ rs', pr_answered := Suc (pr_answered p), pr_store := s, pr_db := db\<rparr>)"
| shutdown: "pr_main p = Serving \<Longrightarrow> pr_cancelled p \<Longrightarrow> main_step out sv p (p\<lparr>pr_main := ShuttingDown\<rparr>)"
| stopped: "pr_main p = ShuttingDown \<Longrightarrow> pr_inflight p = [] \<Longrightarrow> main_step out sv p (p\<lparr>pr_main := Draining\<rparr>)"
| returns: "pr_main p = Draining \<Longrightarrow> pr_worker p = Gone \<Longrightarrow> main_step out sv p (p\<lparr>pr_main := Returned\<rparr>)"

text \<open>those of the worker, one item after the other,\<close>

inductive worker_step :: "'k server \<Rightarrow> process \<Rightarrow> process \<Rightarrow> bool" for sv where
  tick: "running p \<Longrightarrow> pr_worker p = Ticking \<Longrightarrow> worker_step sv p (p\<lparr>pr_worker := Popping []\<rparr>)"
| pop: "running p \<Longrightarrow> pr_worker p = Popping again \<Longrightarrow> kv_rpop mem_ops retryQueue (pr_store p) = (Inr item, s) \<Longrightarrow>
    worker_step sv p (p\<lparr>pr_worker := Holding item again, pr_store := s\<rparr>)"
| process_one: "running p \<Longrightarrow> pr_worker p = Holding item again \<Longrightarrow>
    processOne NewWorker (env\<lparr>b_steam := \<lambda>i. sv_steam_ach sv (net i)\<rparr>) i item (pr_db p) = (requeue, db) \<Longrightarrow>
    worker_step sv p (p\<lparr>pr_worker := Popping (if requeue then again @ [item] else again), pr_db := db\<rparr>)"
| pop_empty: "running p \<Longrightarrow> pr_worker p = Popping again \<Longrightarrow> kv_rpop mem_ops retryQueue (pr_store p) = (Inl e, s) \<Longrightarrow>
    worker_step sv p (p\<lparr>pr_worker := Pushing (rev again), pr_store := s\<rparr>)"
| push: "running p \<Longrightarrow> pr_worker p = Pushing (item # items) \<Longrightarrow>
    worker_step sv p (p\<lparr>pr_worker := Pushing items, pr_store := snd (kv_rpush mem_ops retryQueue item (pr_store p))\<rparr>)"
| pushed: "running p \<Longrightarrow> pr_worker p = Pushing [] \<Longrightarrow> worker_step sv p (p\<lparr>pr_worker := Ticking\<rparr>)"
| leave_run: "running p \<Longrightarrow> pr_worker p = Ticking \<Longrightarrow> pr_cancelled p \<Longrightarrow> worker_step sv p (p\<lparr>pr_worker := AfterRun\<rparr>)"
| worker_done: "running p \<Longrightarrow> pr_worker p = AfterRun \<Longrightarrow> pr_cancelled p \<Longrightarrow> worker_step sv p (p\<lparr>pr_worker := Gone\<rparr>)"
| restart: "running p \<Longrightarrow> pr_worker p = AfterRun \<Longrightarrow> \<not> pr_cancelled p \<Longrightarrow> worker_step sv p (p\<lparr>pr_worker := Asleep\<rparr>)"
| wake: "running p \<Longrightarrow> pr_worker p = Asleep \<Longrightarrow> worker_step sv p (p\<lparr>pr_worker := Ticking\<rparr>)"

text \<open>and those of the sweeper.\<close>

inductive sweeper_step :: "process \<Rightarrow> process \<Rightarrow> bool" where
  sweeps: "running p \<Longrightarrow> pr_sweeper p \<Longrightarrow> sweeper_step p (p\<lparr>pr_store := snd (sweep t (pr_store p))\<rparr>)"
| sweeper_done: "running p \<Longrightarrow> pr_sweeper p \<Longrightarrow> pr_cancelled p \<Longrightarrow> sweeper_step p (p\<lparr>pr_sweeper := False\<rparr>)"

definition proceeds :: "'k outside \<Rightarrow> 'k server \<Rightarrow> process \<Rightarrow> process \<Rightarrow> bool" where
  "proceeds out sv p p' \<longleftrightarrow> main_step out sv p p' \<or> worker_step sv p p' \<or> sweeper_step p p'"

text \<open>
  What happens to it: a request, accepted until the listeners are closed; the signal; the end of the ten
  seconds that \<open>Shutdown\<close> waits; a panic in a batch, which loses the items in hand; a failing listener.
\<close>

inductive happens :: "process \<Rightarrow> process \<Rightarrow> bool" where
  accept: "pr_main p = Serving \<Longrightarrow>
    happens p (p\<lparr>pr_inflight := pr_inflight p @ [r], pr_accepted := Suc (pr_accepted p)\<rparr>)"
| signal: "running p \<Longrightarrow> happens p (p\<lparr>pr_cancelled := True\<rparr>)"
| timeout: "pr_main p = ShuttingDown \<Longrightarrow> happens p (p\<lparr>pr_main := Draining, pr_timed_out := True\<rparr>)"
| panicked: "running p \<Longrightarrow> pr_worker p \<in> {Popping again, Holding item again, Pushing again} \<Longrightarrow>
    happens p (p\<lparr>pr_worker := AfterRun\<rparr>)"
| listener: "pr_main p = Serving \<Longrightarrow> happens p (p\<lparr>pr_main := Died\<rparr>)"

definition process_step :: "'k outside \<Rightarrow> 'k server \<Rightarrow> process \<Rightarrow> process \<Rightarrow> bool" where
  "process_step out sv p p' \<longleftrightarrow> proceeds out sv p p' \<or> happens p p'"

lemma proceeds_main: "main_step out sv p p' \<Longrightarrow> proceeds out sv p p'"
  by (simp add: proceeds_def)

lemma proceeds_worker: "worker_step sv p p' \<Longrightarrow> proceeds out sv p p'"
  by (simp add: proceeds_def)

lemmas proceeds_answer = main_step.answer [THEN proceeds_main]
lemmas proceeds_shutdown = main_step.shutdown [THEN proceeds_main]
lemmas proceeds_stopped = main_step.stopped [THEN proceeds_main]
lemmas proceeds_returns = main_step.returns [THEN proceeds_main]

inductive_cases main_stepE: "main_step out sv p p'"
inductive_cases worker_stepE: "worker_step sv p p'"
inductive_cases sweeper_stepE: "sweeper_step p p'"
inductive_cases happensE: "happens p p'"

section \<open>What every step keeps\<close>

text \<open>
  The books of the requests balance while the process serves and shuts down in time, and main returns only
  after the worker.
\<close>

definition process_ok :: "process \<Rightarrow> bool" where
  "process_ok p \<longleftrightarrow>
     pr_accepted p = pr_answered p + length (pr_inflight p) \<and>
     (pr_main p \<in> {Draining, Returned} \<longrightarrow> pr_timed_out p \<or> pr_inflight p = []) \<and>
     (pr_main p \<in> {ShuttingDown, Draining, Returned} \<longrightarrow> pr_cancelled p) \<and>
     (pr_main p = Returned \<longrightarrow> pr_worker p = Gone)"

lemma process_ok_started: "process_ok (started w)"
  by (simp add: process_ok_def started_def)

lemma process_ok_step: "process_step out sv p p' \<Longrightarrow> process_ok p \<Longrightarrow> process_ok p'"
  unfolding process_step_def proceeds_def
  by (elim disjE main_stepE worker_stepE sweeper_stepE happensE) (auto simp: process_ok_def running_def)

lemma process_data_ok:
  assumes "process_step out sv p p'" and "server_ok sv" and "data_ok (sv_cairn sv) (pr_db p)"
  shows "data_ok (sv_cairn sv) (pr_db p')"
proof -
  consider (main) "main_step out sv p p'" | (worker) "worker_step sv p p'" | (sweeper) "sweeper_step p p'" | (happens) "happens p p'"
    using assms(1) by (auto simp: process_step_def proceeds_def)
  then show ?thesis
  proof cases
    case main
    then show ?thesis
    proof cases
      case (answer rs r rs' a s db)
      from server_step_data_ok [OF server_step.request [OF answer(4)] assms(2)] assms(3) answer(1) show ?thesis by simp
    qed (use assms(3) in auto)
  next
    case worker
    then show ?thesis
    proof cases
      case (process_one item again env net i requeue db)
      then have "data_ok (sv_cairn sv) db" using processOne_data_ok [OF assms(3)] by (metis snd_conv)
      then show ?thesis using process_one(1) by simp
    qed (use assms(3) in auto)
  next
    case sweeper
    then show ?thesis by cases (use assms(3) in auto)
  next
    case happens
    then show ?thesis by cases (use assms(3) in auto)
  qed
qed

text \<open>Main never goes back, and accepts nothing once it is past serving.\<close>

lemma main_forward: "process_step out sv p p' \<Longrightarrow> pr_main p \<le> pr_main p'"
  unfolding process_step_def proceeds_def
  by (elim disjE main_stepE worker_stepE sweeper_stepE happensE) (simp_all add: less_eq_main_at_def)

lemma accepts_while_serving: "process_step out sv p p' \<Longrightarrow> pr_main p \<noteq> Serving \<Longrightarrow> pr_accepted p' = pr_accepted p"
  unfolding process_step_def proceeds_def
  by (elim disjE main_stepE worker_stepE sweeper_stepE happensE) simp_all

lemma closed_stays_closed:
  assumes "(process_step out sv)\<^sup>*\<^sup>* p p'" and "pr_main p \<noteq> Serving"
  shows "pr_main p' \<noteq> Serving \<and> pr_accepted p' = pr_accepted p"
  using assms(1)
proof induction
  case base
  then show ?case using assms(2) by simp
next
  case (step q r)
  then have "Serving < pr_main q" by (cases "pr_main q") (simp_all add: less_main_at_def)
  then have "Serving < pr_main r" using main_forward [OF step.hyps(2)] by (rule less_le_trans)
  with step accepts_while_serving [OF step.hyps(2)] show ?case by auto
qed

section \<open>The way to the end\<close>

text \<open>What the steps of the worker leave alone.\<close>

definition beside :: "process \<Rightarrow> process \<Rightarrow> bool" where
  "beside p p' \<longleftrightarrow> pr_main p' = pr_main p \<and> pr_cancelled p' = pr_cancelled p \<and> pr_inflight p' = pr_inflight p \<and>
     pr_accepted p' = pr_accepted p \<and> pr_answered p' = pr_answered p \<and> pr_timed_out p' = pr_timed_out p"

definition worker_leads :: "'k server \<Rightarrow> process \<Rightarrow> (worker_at \<Rightarrow> bool) \<Rightarrow> bool" where
  "worker_leads sv p W \<longleftrightarrow> (\<exists>p'. (worker_step sv)\<^sup>*\<^sup>* p p' \<and> beside p p' \<and> W (pr_worker p'))"

lemma worker_leads_now: "W (pr_worker p) \<Longrightarrow> worker_leads sv p W"
  unfolding worker_leads_def by (intro exI [of _ p]) (simp add: beside_def)

lemma worker_leads_step: "worker_step sv p p1 \<Longrightarrow> beside p p1 \<Longrightarrow> worker_leads sv p1 W \<Longrightarrow> worker_leads sv p W"
  unfolding worker_leads_def beside_def by (metis converse_rtranclp_into_rtranclp)

lemma worker_leads_trans:
  assumes "worker_leads sv p V" and "\<And>p1. beside p p1 \<Longrightarrow> V (pr_worker p1) \<Longrightarrow> worker_leads sv p1 W"
  shows "worker_leads sv p W"
proof -
  obtain p1 where p1: "(worker_step sv)\<^sup>*\<^sup>* p p1" "beside p p1" "V (pr_worker p1)"
    using assms(1) by (auto simp: worker_leads_def)
  from assms(2) [OF p1(2,3)] obtain p2 where p2: "(worker_step sv)\<^sup>*\<^sup>* p1 p2" "beside p1 p2" "W (pr_worker p2)"
    by (auto simp: worker_leads_def)
  have "(worker_step sv)\<^sup>*\<^sup>* p p2" using p1(1) p2(1) by (rule rtranclp_trans)
  moreover have "beside p p2" using p1(2) p2(2) by (simp add: beside_def)
  ultimately show ?thesis using p2(3) unfolding worker_leads_def by blast
qed

lemma running_beside: "beside p p' \<Longrightarrow> running p' = running p"
  by (simp add: beside_def running_def)

lemma pushing_ends: "running p \<Longrightarrow> pr_worker p = Pushing items \<Longrightarrow> worker_leads sv p (\<lambda>w. w = Ticking)"
proof (induction items arbitrary: p)
  case Nil
  show ?case by (rule worker_leads_step [OF worker_step.pushed [OF Nil]]) (auto simp: beside_def intro: worker_leads_now)
next
  case (Cons item items)
  show ?case
    by (rule worker_leads_step [OF worker_step.push [OF Cons.prems]])
      (use Cons.prems in \<open>auto simp: beside_def running_def intro!: Cons.IH\<close>)
qed

lemma held_item:
  assumes "running p" and "pr_worker p = Holding item again"
  obtains again' db where "worker_step sv p (p\<lparr>pr_worker := Popping again', pr_db := db\<rparr>)"
proof -
  fix env :: batch_env and net :: "nat \<Rightarrow> steam_form \<Rightarrow> string + int"
  obtain requeue db where "processOne NewWorker (env\<lparr>b_steam := \<lambda>i. sv_steam_ach sv (net i)\<rparr>) 0 item (pr_db p) = (requeue, db)"
    by fastforce
  from worker_step.process_one [OF assms this] show thesis by (rule that)
qed

lemma popping_ends:
  "running p \<Longrightarrow> (\<exists>again. pr_worker p = Popping again) \<Longrightarrow> worker_leads sv p (\<lambda>w. w = Ticking)"
proof (induction "length (lists (pr_store p) retryQueue)" arbitrary: p rule: less_induct)
  case less
  then obtain again where w: "pr_worker p = Popping again" by blast
  show ?case
  proof (cases "lists (pr_store p) retryQueue = []")
    case True
    then have "kv_rpop mem_ops retryQueue (pr_store p) = (Inl NotFound, pr_store p)" by (simp add: MemStore_RPop_def)
    from worker_step.pop_empty [OF less.prems(1) w this] show ?thesis
      by (rule worker_leads_step) (use less.prems in \<open>auto simp: beside_def running_def intro!: pushing_ends\<close>)
  next
    case False
    define item where "item = last (lists (pr_store p) retryQueue)"
    define m where "m = snd (kv_rpop mem_ops retryQueue (pr_store p))"
    have pop: "kv_rpop mem_ops retryQueue (pr_store p) = (Inr item, m)" and
      m: "length (lists m retryQueue) < length (lists (pr_store p) retryQueue)"
      using False by (simp_all add: MemStore_RPop_def item_def m_def)
    let ?p1 = "p\<lparr>pr_worker := Holding item again, pr_store := m\<rparr>"
    have "running ?p1" "pr_worker ?p1 = Holding item again" using less.prems by (simp_all add: running_def)
    then obtain again' db where one: "worker_step sv ?p1 (?p1\<lparr>pr_worker := Popping again', pr_db := db\<rparr>)" by (rule held_item)
    let ?p2 = "?p1\<lparr>pr_worker := Popping again', pr_db := db\<rparr>"
    have "worker_leads sv ?p2 (\<lambda>w. w = Ticking)"
      by (rule less.hyps) (use m less.prems in \<open>auto simp: running_def\<close>)
    then have "worker_leads sv ?p1 (\<lambda>w. w = Ticking)" by (rule worker_leads_step [OF one, rotated]) (simp add: beside_def)
    then show ?thesis
      by (rule worker_leads_step [OF worker_step.pop [OF less.prems(1) w pop], rotated]) (simp add: beside_def)
  qed
qed

text \<open>Once the context is cancelled the worker ends, and before that it finishes its batch.\<close>

lemma worker_ends:
  assumes "running p" and "pr_cancelled p"
  shows "worker_leads sv p (\<lambda>w. w = Gone)"
proof -
  have after: "worker_leads sv q (\<lambda>w. w = Gone)" if "running q" "pr_cancelled q" "pr_worker q = AfterRun" for q
    by (rule worker_leads_step [OF worker_step.worker_done [OF that(1,3,2)]]) (simp_all add: beside_def worker_leads_now)
  have ticking: "worker_leads sv q (\<lambda>w. w = Gone)" if "running q" "pr_cancelled q" "pr_worker q = Ticking" for q
    by (rule worker_leads_step [OF worker_step.leave_run [OF that(1,3,2)]])
      (use that in \<open>simp_all add: beside_def running_def after\<close>)
  have via: "worker_leads sv p (\<lambda>w. w = Gone)" if "worker_leads sv p (\<lambda>w. w = Ticking)"
    using that
  proof (rule worker_leads_trans)
    fix p1 assume "beside p p1" and "pr_worker p1 = Ticking"
    then show "worker_leads sv p1 (\<lambda>w. w = Gone)"
      using assms running_beside [of p p1] by (intro ticking) (simp_all add: beside_def)
  qed
  show ?thesis
  proof (cases "pr_worker p")
    case (Popping again)
    then show ?thesis using via popping_ends assms(1) by blast
  next
    case (Holding item again)
    obtain again' db where "worker_step sv p (p\<lparr>pr_worker := Popping again', pr_db := db\<rparr>)"
      using assms(1) Holding by (rule held_item)
    then have "worker_leads sv p (\<lambda>w. w = Ticking)"
      by (rule worker_leads_step) (use assms in \<open>auto simp: beside_def running_def intro!: popping_ends\<close>)
    then show ?thesis by (rule via)
  next
    case (Pushing items)
    then show ?thesis using via pushing_ends assms(1) by blast
  next
    case Asleep
    from worker_step.wake [OF assms(1) Asleep] have "worker_leads sv p (\<lambda>w. w = Ticking)"
      by (rule worker_leads_step) (simp_all add: beside_def worker_leads_now)
    then show ?thesis by (rule via)
  qed (use assms after ticking worker_leads_now in auto)
qed

lemma worker_path: "(worker_step sv)\<^sup>*\<^sup>* p p' \<Longrightarrow> (proceeds out sv)\<^sup>*\<^sup>* p p'"
  by (erule rtranclp_mono [THEN predicate2D, rotated]) (auto intro: proceeds_worker)

lemma all_answered:
  assumes "running p"
  shows "\<exists>p'. (proceeds out sv)\<^sup>*\<^sup>* p p' \<and> pr_inflight p' = [] \<and> pr_main p' = pr_main p \<and> pr_cancelled p' = pr_cancelled p \<and>
    pr_accepted p' = pr_accepted p \<and> pr_answered p' = pr_answered p + length (pr_inflight p) \<and> pr_timed_out p' = pr_timed_out p"
  using assms
proof (induction "pr_inflight p" arbitrary: p)
  case Nil
  then show ?case by (intro exI [of _ p]) simp
next
  case (Cons r rs)
  obtain a s db where "serve out sv mem_ops r (pr_store p, pr_db p) = (a, s, db)" by (metis prod_cases3)
  define q where "q = p\<lparr>pr_inflight := [] @ rs, pr_answered := Suc (pr_answered p), pr_store := s, pr_db := db\<rparr>"
  have step: "proceeds out sv p q"
    unfolding q_def by (rule proceeds_answer) (use Cons.hyps(2) Cons.prems \<open>serve _ _ _ _ _ = _\<close> in simp_all)
  have "rs = pr_inflight q" "running q" using Cons.prems by (simp_all add: running_def q_def)
  from Cons.hyps(1) [OF this] obtain p' where p': "(proceeds out sv)\<^sup>*\<^sup>* q p'" "pr_inflight p' = []" "pr_main p' = pr_main q"
    "pr_cancelled p' = pr_cancelled q" "pr_accepted p' = pr_accepted q"
    "pr_answered p' = pr_answered q + length (pr_inflight q)" "pr_timed_out p' = pr_timed_out q" by blast
  have "(proceeds out sv)\<^sup>*\<^sup>* p p'" using step p'(1) by (rule converse_rtranclp_into_rtranclp)
  with p' Cons.hyps(2) [symmetric] show ?case by (intro exI [of _ p']) (simp add: q_def)
qed

lemma shutdown_ends:
  assumes "process_ok p" and "pr_cancelled p" and "pr_main p \<noteq> Died" and "\<not> pr_timed_out p"
  shows "\<exists>p'. (proceeds out sv)\<^sup>*\<^sup>* p p' \<and> pr_main p' = Returned \<and> pr_accepted p' = pr_accepted p \<and> pr_answered p' = pr_accepted p"
proof -
  have draining: "\<exists>p'. (proceeds out sv)\<^sup>*\<^sup>* q p' \<and> pr_main p' = Returned \<and> pr_accepted p' = pr_accepted q \<and> pr_answered p' = pr_answered q"
    if q: "pr_main q = Draining" "pr_cancelled q" for q
  proof -
    obtain q1 where q1: "(proceeds out sv)\<^sup>*\<^sup>* q q1" "beside q q1" "pr_worker q1 = Gone"
      using worker_ends [of q sv] worker_path q by (fastforce simp: running_def worker_leads_def)
    then have "proceeds out sv q1 (q1\<lparr>pr_main := Returned\<rparr>)" using q by (intro proceeds_returns) (simp_all add: beside_def)
    with q1 show ?thesis by (intro exI [of _ "q1\<lparr>pr_main := Returned\<rparr>"]) (auto simp: beside_def)
  qed
  have down: "\<exists>p'. (proceeds out sv)\<^sup>*\<^sup>* q p' \<and> pr_main p' = Returned \<and> pr_accepted p' = pr_accepted q \<and>
      pr_answered p' = pr_answered q + length (pr_inflight q)"
    if q: "pr_main q = ShuttingDown" "pr_cancelled q" for q
  proof -
    obtain q1 where q1: "(proceeds out sv)\<^sup>*\<^sup>* q q1" "pr_inflight q1 = []" "pr_main q1 = ShuttingDown" "pr_cancelled q1"
      "pr_accepted q1 = pr_accepted q" "pr_answered q1 = pr_answered q + length (pr_inflight q)"
      using all_answered [of q out sv] q by (auto simp: running_def)
    obtain p' where p': "(proceeds out sv)\<^sup>*\<^sup>* (q1\<lparr>pr_main := Draining\<rparr>) p'" "pr_main p' = Returned"
      "pr_accepted p' = pr_accepted q" "pr_answered p' = pr_answered q + length (pr_inflight q)"
      using draining [of "q1\<lparr>pr_main := Draining\<rparr>"] q1 by auto
    have "(proceeds out sv)\<^sup>*\<^sup>* q1 p'"
      using proceeds_stopped [OF q1(3,2)] p'(1) by (rule converse_rtranclp_into_rtranclp)
    with q1(1) have "(proceeds out sv)\<^sup>*\<^sup>* q p'" by (rule rtranclp_trans)
    with p' show ?thesis by blast
  qed
  show ?thesis
  proof (cases "pr_main p")
    case Serving
    from proceeds_shutdown [OF this assms(2)] down [of "p\<lparr>pr_main := ShuttingDown\<rparr>"] assms show ?thesis
      by (auto intro: converse_rtranclp_into_rtranclp simp: process_ok_def)
  next
    case ShuttingDown
    from down [OF this assms(2)] assms show ?thesis by (auto simp: process_ok_def)
  next
    case Draining
    from draining [OF this assms(2)] assms Draining show ?thesis by (auto simp: process_ok_def)
  next
    case Returned
    then show ?thesis using assms by (intro exI [of _ p]) (auto simp: process_ok_def)
  next
    case Died
    then show ?thesis using assms by simp
  qed
qed

section \<open>The batch, step by step\<close>

text \<open>When nothing comes between its steps, the worker computes the batch of \<open>Achievement\<close>.\<close>

lemma worker_pushes:
  "running p \<Longrightarrow> pr_worker p = Pushing items \<Longrightarrow>
   (worker_step sv)\<^sup>*\<^sup>* p (p\<lparr>pr_worker := Ticking,
      pr_store := fold (\<lambda>item s. snd (kv_rpush mem_ops retryQueue item s)) items (pr_store p)\<rparr>)"
proof (induction items arbitrary: p)
  case Nil
  then show ?case using worker_step.pushed [OF Nil] by auto
next
  case (Cons item items)
  define q where "q = p\<lparr>pr_worker := Pushing items, pr_store := snd (kv_rpush mem_ops retryQueue item (pr_store p))\<rparr>"
  have "worker_step sv p q" unfolding q_def using Cons.prems by (rule worker_step.push)
  moreover have "(worker_step sv)\<^sup>*\<^sup>* q (q\<lparr>pr_worker := Ticking,
      pr_store := fold (\<lambda>item s. snd (kv_rpush mem_ops retryQueue item s)) items (pr_store q)\<rparr>)"
    by (rule Cons.IH) (use Cons.prems in \<open>simp_all add: q_def running_def\<close>)
  ultimately show ?case by (simp add: q_def converse_rtranclp_into_rtranclp)
qed

lemma worker_pops:
  assumes "batch_loop mem_ops NewWorker (env\<lparr>b_steam := \<lambda>i. sv_steam_ach sv (net i)\<rparr>) i again s db = Some (again', s', db')"
    and "running p" and "pr_worker p = Popping again" and "pr_store p = s" and "pr_db p = db"
  shows "(worker_step sv)\<^sup>*\<^sup>* p (p\<lparr>pr_worker := Pushing (rev again'), pr_store := s', pr_db := db'\<rparr>)"
  using assms
proof (induction "length (lists s retryQueue)" arbitrary: i again s db p rule: less_induct)
  case less
  show ?case
  proof (cases "lists s retryQueue = []")
    case True
    then have r: "kv_rpop mem_ops retryQueue s = (Inl NotFound, s)" by (simp add: MemStore_RPop_def)
    then have "again' = again \<and> s' = s \<and> db' = db" using less.prems(1) by (subst (asm) batch_loop.simps) simp
    moreover have "worker_step sv p (p\<lparr>pr_worker := Pushing (rev again), pr_store := s\<rparr>)"
      by (rule worker_step.pop_empty) (use less.prems r in simp_all)
    moreover have "p\<lparr>pr_worker := Pushing (rev again), pr_store := s, pr_db := db\<rparr> = p\<lparr>pr_worker := Pushing (rev again), pr_store := s\<rparr>"
      using less.prems(5) by simp
    ultimately show ?thesis by auto
  next
    case False
    define item where "item = last (lists s retryQueue)"
    define m where "m = snd (kv_rpop mem_ops retryQueue s)"
    have pop: "kv_rpop mem_ops retryQueue s = (Inr item, m)" and m: "length (lists m retryQueue) < length (lists s retryQueue)"
      using False by (simp_all add: MemStore_RPop_def item_def m_def)
    obtain requeue db1 where one: "processOne NewWorker (env\<lparr>b_steam := \<lambda>i. sv_steam_ach sv (net i)\<rparr>) i item db = (requeue, db1)"
      by fastforce
    define p1 where "p1 = p\<lparr>pr_worker := Holding item again, pr_store := m\<rparr>"
    define p2 where "p2 = p1\<lparr>pr_worker := Popping (if requeue then again @ [item] else again), pr_db := db1\<rparr>"
    have "worker_step sv p p1" unfolding p1_def by (rule worker_step.pop) (use less.prems pop in simp_all)
    moreover have "worker_step sv p1 p2"
      unfolding p2_def by (rule worker_step.process_one) (use less.prems one in \<open>simp_all add: p1_def running_def\<close>)
    moreover have "(worker_step sv)\<^sup>*\<^sup>* p2 (p2\<lparr>pr_worker := Pushing (rev again'), pr_store := s', pr_db := db'\<rparr>)"
    proof (rule less.hyps)
      show "batch_loop mem_ops NewWorker (env\<lparr>b_steam := \<lambda>i. sv_steam_ach sv (net i)\<rparr>) (Suc i)
          (if requeue then again @ [item] else again) m db1 = Some (again', s', db')"
        using less.prems(1) pop one by (subst (asm) batch_loop.simps) simp
    qed (use less.prems m in \<open>simp_all add: p1_def p2_def running_def\<close>)
    ultimately show ?thesis by (simp add: p1_def p2_def converse_rtranclp_into_rtranclp)
  qed
qed

lemma worker_computes_batch:
  assumes "processBatch mem_ops NewWorker (env\<lparr>b_steam := \<lambda>i. sv_steam_ach sv (net i)\<rparr>) (pr_store p) (pr_db p) = Some (s, db)"
    and "running p" and "pr_worker p = Ticking"
  shows "(worker_step sv)\<^sup>*\<^sup>* p (p\<lparr>pr_store := s, pr_db := db\<rparr>)"
proof -
  define p0 where "p0 = p\<lparr>pr_worker := Popping []\<rparr>"
  obtain again s1 where b: "batch_loop mem_ops NewWorker (env\<lparr>b_steam := \<lambda>i. sv_steam_ach sv (net i)\<rparr>) 0 [] (pr_store p) (pr_db p) = Some (again, s1, db)"
    and s: "s = fold (\<lambda>item s. snd (kv_rpush mem_ops retryQueue item s)) (rev again) s1"
    using assms(1) by (auto simp: processBatch_def)
  define p1 where "p1 = p0\<lparr>pr_worker := Pushing (rev again), pr_store := s1, pr_db := db\<rparr>"
  have "worker_step sv p p0" unfolding p0_def using assms(2,3) by (rule worker_step.tick)
  also have "(worker_step sv)\<^sup>*\<^sup>* p0 p1"
    unfolding p1_def using b by (rule worker_pops) (use assms in \<open>simp_all add: p0_def running_def\<close>)
  also have "(worker_step sv)\<^sup>*\<^sup>* p1 (p1\<lparr>pr_worker := Ticking,
      pr_store := fold (\<lambda>item s. snd (kv_rpush mem_ops retryQueue item s)) (rev again) (pr_store p1)\<rparr>)"
    by (rule worker_pushes) (use assms in \<open>simp_all add: p0_def p1_def running_def\<close>)
  also have "p1\<lparr>pr_worker := Ticking, pr_store := fold (\<lambda>item s. snd (kv_rpush mem_ops retryQueue item s)) (rev again) (pr_store p1)\<rparr> =
      p\<lparr>pr_store := s, pr_db := db\<rparr>"
    using assms(3) s by (simp add: p0_def p1_def)
  finally show ?thesis .
qed

section \<open>Properties\<close>

text \<open>
  C1. The data base stays well formed for as long as the process lives: after a boot on a well formed file,
  at whatever point of whatever interleaving of requests (answered or refused, with any statement failing),
  of the worker's items and of the sweeper, through panics and the shutdown, the keys are unique, every row
  belongs to a player, no balance is negative and no stock empty, and every slot lies in the configured
  range with a layer count between 0 and the maximum.
\<close>

theorem process_keeps_data_ok:
  assumes "boot out ft rft sqlnow db0 = Some (Inr (sv, Some w))" and "db_ok (sv_cairn sv) db0"
    and "\<forall>r \<in> set (wish_cairn_slots db0). 0 \<le> slot_index r"
    and "(process_step out sv)\<^sup>*\<^sup>* (started w) p"
  shows "data_ok (sv_cairn sv) (pr_db p)"
proof -
  obtain m0 db1 where w: "w = (m0, db1)" by fastforce
  note start = boot_server_ok [OF assms(1) [unfolded w] assms(2,3)]
  show ?thesis
    using assms(4) by induction (use start w process_data_ok in \<open>auto simp: started_def\<close>)
qed

text \<open>
  C10. The shutdown is graceful: \<open>main\<close> returns only after the signal and after the worker has ended, and
  unless the ten seconds of the shutdown ran out every request that was accepted has been answered by then.
  From the start of the shutdown on no request is accepted. And it does come to the return: from every point after the signal the steps of the process alone lead to the
  return, the batch in progress finished and every accepted request answered.
\<close>

theorem graceful_shutdown:
  assumes "(process_step out sv)\<^sup>*\<^sup>* (started w) p"
  shows "(pr_main p = Returned \<longrightarrow> pr_cancelled p \<and> pr_worker p = Gone \<and> (pr_timed_out p \<or> pr_answered p = pr_accepted p)) \<and>
    (pr_cancelled p \<and> pr_main p \<noteq> Died \<and> \<not> pr_timed_out p \<longrightarrow>
      (\<exists>p'. (proceeds out sv)\<^sup>*\<^sup>* p p' \<and> pr_main p' = Returned \<and> pr_accepted p' = pr_accepted p \<and> pr_answered p' = pr_accepted p)) \<and>
    (\<forall>p'. pr_main p \<noteq> Serving \<and> (process_step out sv)\<^sup>*\<^sup>* p p' \<longrightarrow> pr_accepted p' = pr_accepted p)"
proof -
  have "process_ok p"
    using assms by induction (auto intro: process_ok_started process_ok_step)
  then show ?thesis using shutdown_ends [of p out sv] closed_stays_closed [of out sv p] by (auto simp: process_ok_def)
qed

theorem graceful_shutdown_witness:
  "\<exists>p. pr_main p = Returned \<and> pr_accepted p = 1 \<and> pr_answered p = 1 \<and>
     (process_step demo_outside demo_server)\<^sup>*\<^sup>* (started (demo_session, demo_idle)) p"
proof -
  let ?step = "process_step demo_outside demo_server"
  define p0 where "p0 = started (demo_session, demo_idle)"
  define p1 where "p1 = p0\<lparr>pr_inflight := pr_inflight p0 @ [demo_http demo_sync], pr_accepted := Suc (pr_accepted p0)\<rparr>"
  define p2 where "p2 = p1\<lparr>pr_cancelled := True\<rparr>"
  have "?step p0 p1" unfolding process_step_def p1_def by (intro disjI2 happens.accept) (simp add: p0_def started_def)
  moreover have "?step p1 p2"
    unfolding process_step_def p2_def by (intro disjI2 happens.signal) (simp add: p0_def p1_def started_def running_def)
  ultimately have reach: "?step\<^sup>*\<^sup>* p0 p2" by (meson converse_rtranclp_into_rtranclp r_into_rtranclp)
  have "pr_cancelled p2 \<and> pr_main p2 \<noteq> Died \<and> \<not> pr_timed_out p2" "pr_accepted p2 = 1"
    by (simp_all add: p0_def p1_def p2_def started_def)
  then obtain p' where p': "(proceeds demo_outside demo_server)\<^sup>*\<^sup>* p2 p'" "pr_main p' = Returned" "pr_accepted p' = 1" "pr_answered p' = 1"
    using graceful_shutdown [OF reach [unfolded p0_def]] by auto
  have "?step\<^sup>*\<^sup>* p2 p'" using p'(1) by (rule rtranclp_mono [THEN predicate2D, rotated]) (auto simp: process_step_def)
  with reach p' show ?thesis by (auto simp: p0_def intro: rtranclp_trans)
qed

theorem process_keeps_data_ok_witness:
  "\<exists>sv w p. boot demo_outside (\<lambda>_. False) (\<lambda>_. True) 200 demo_full = Some (Inr (sv, Some w)) \<and>
     (process_step demo_outside sv)\<^sup>*\<^sup>* (started w) p \<and> pr_answered p = 1 \<and> data_ok (sv_cairn sv) (pr_db p)"
proof -
  obtain sv m db where b: "boot demo_outside (\<lambda>_. False) (\<lambda>_. True) 200 demo_full = Some (Inr (sv, Some (m, db)))"
    "sv_cairn sv = \<lparr>SlotCount = 5, MaxLayers = 5, SpawnIntervalSeconds = 30\<rparr>" by (rule demo_boot)
  define r where "r = demo_http (CallState (demo_player_env 300))"
  obtain a m' db' where s: "serve demo_outside sv mem_ops r (m, db) = (a, m', db')" by (metis prod_cases3)
  have ok: "db_ok (sv_cairn sv) demo_full"
    using demo_full_ok by (simp add: b(2) demo_cairn_def db_ok_def slots_ok_def)
  have ix: "\<forall>r \<in> set (wish_cairn_slots demo_full). 0 \<le> slot_index r" by (simp add: demo_full_def new_slot_def)
  define p0 where "p0 = started (m, db)"
  define p1 where "p1 = p0\<lparr>pr_inflight := pr_inflight p0 @ [r], pr_accepted := Suc (pr_accepted p0)\<rparr>"
  define p2 where "p2 = p1\<lparr>pr_inflight := [] @ [], pr_answered := Suc (pr_answered p1), pr_store := m', pr_db := db'\<rparr>"
  have "process_step demo_outside sv p0 p1"
    unfolding process_step_def p1_def by (intro disjI2 happens.accept) (simp add: p0_def started_def)
  moreover have "process_step demo_outside sv p1 p2"
    unfolding process_step_def p2_def
    by (intro disjI1 proceeds_answer [where r = r and a = a]) (use s in \<open>simp_all add: p0_def p1_def started_def running_def\<close>)
  ultimately have reach: "(process_step demo_outside sv)\<^sup>*\<^sup>* (started (m, db)) p2"
    unfolding p0_def by (meson converse_rtranclp_into_rtranclp r_into_rtranclp)
  have "pr_answered p2 = 1" by (simp add: p0_def p1_def p2_def started_def)
  with process_keeps_data_ok [OF b(1) ok ix reach] b(1) reach show ?thesis by blast
qed

end
