(* ===== verification/Spec2Isabelle.thy ===== *)
theory Spec2Isabelle
  imports KvStore Rfc3339 VowProps Player AuthProps SessionRace AchievementProps RetryProps MiddlewareProps Config Probes Economy Schema Services Server Confined ServerProps Lifecycle
begin

text \<open>
  A model of the game server stone_server (Go), and what is proved of it.

  \<^bold>\<open>The program.\<close> An HTTP server for one game. A player logs in with a Steam ticket and receives a JWT
  and a refresh token; while away the player earns points at a rate per second, and the slots of a
  WishCairn grow layers; a full slot and some points buy a pull from the skin pool; skins and points are
  traded for a rarer skin in a vow; achievements are unlocked and synchronised to Steam, with a worker
  that retries. The rows are in SQLite (or PostgreSQL), sessions, limits and the retry queue in a
  key-value store (in memory or Redis). \<open>cmd/server/main.go\<close> puts it together.

  \<^bold>\<open>How the theories follow the code.\<close>

  \<^item> \<open>Prelude\<close>: what all parts share: results (\<open>Inl\<close> the error, \<open>Inr\<close> the value) with \<open>bindE\<close> for the early
    return and \<open>bindS\<close> for a run on a state that is not rolled back, HTTP answers, 64-bit integers with
    their wrap-around, \<open>strconv\<close>, and the shapes of SQL statements. \<open>Float64\<close>: the \<open>float64\<close> of Go and
    the REAL of SQLite, IEEE 754 binary64 with one rounding per operation.
  \<^item> \<open>Db\<close>, \<open>DbInvariant\<close> and \<open>Schema\<close>: \<open>pkg/sqlitedb/sqlitedb.go\<close>. A row is a record with the columns as
    fields, \<open>database\<close> is the record of the tables; \<open>Schema\<close> has the file as tables of named columns, the
    script, the ALTER statements, and the upgrade of an older file. \<open>Rfc3339\<close>: \<open>pkg/store/time.go\<close> and
    the part of \<open>time.Parse\<close> that it uses.
  \<^item> \<open>KvStore\<close>: \<open>pkg/kvstore\<close>, the interface as a record of operations and the in-memory store.
    \<open>Services\<close>: \<open>pkg/kvstore/redisadapter.go\<close>, the adapters of \<open>pkg/store\<close>, \<open>pkg/db\<close>, \<open>pkg/cache\<close> and
    the private key of \<open>internal/auth/jwt.go\<close>, over the libraries as parameters.
  \<^item> \<open>Cairn\<close>: \<open>internal/cairn/cairn.go\<close>. \<open>SkinPool\<close>: \<open>pool.go\<close> and \<open>rng.go\<close> of \<open>internal/gacha\<close>, with the
    reader of \<open>encoding/csv\<close>. \<open>Gacha\<close>: \<open>gacha.go\<close> and \<open>grant.go\<close>. \<open>Vow\<close>, \<open>VowRates\<close>, \<open>VowProps\<close>:
    \<open>internal/vow/vow.go\<close>. \<open>Player\<close>: \<open>internal/player/player.go\<close>.
  \<^item> \<open>Session\<close>, \<open>SessionRace\<close>: \<open>internal/auth/session.go\<close>, alone and call by call among concurrent logins and
    logouts. \<open>Auth\<close>, \<open>AuthProps\<close>: the rest of \<open>internal/auth\<close>.
  \<^item> \<open>Achievement\<close>, \<open>AchievementProps\<close>, \<open>RetryProps\<close>: \<open>internal/achievement\<close>.
  \<^item> \<open>Middleware\<close>, \<open>MiddlewareProps\<close>: \<open>internal/middleware\<close>. \<open>Config\<close>, \<open>GameConfig\<close>: \<open>pkg/config\<close>,
    \<open>pkg/logger\<close>, \<open>pkg/gameconfig\<close>. \<open>Probes\<close>: \<open>internal/timeguard\<close>, \<open>internal/health\<close>, \<open>internal/stub\<close>.
    \<open>Economy\<close>: \<open>internal/diag\<close>.
  \<^item> \<open>Server\<close>, \<open>Confined\<close>, \<open>ServerProps\<close>, \<open>Lifecycle\<close>: \<open>cmd/server/main.go\<close>, the boot, the routes with their
    guards, one request, and the process with the goroutines of the worker (\<open>worker.go\<close>) and of the
    sweeper (\<open>memory.go\<close>) until the shutdown.

  \<^bold>\<open>Conventions.\<close> An instant of Go is an \<open>int\<close> of nanoseconds, a TEXT timestamp of the data base the \<open>int\<close>
  of its second, an \<open>int\<close> of Go an \<open>int\<close> with \<open>wrap64\<close> where it may overflow, a string the list of its bytes.
  Every request comes with its surroundings as a record: its readings of the clocks (\<open>clk k\<close> is the
  \<open>k\<close>-th), its random bytes and identifiers, and the faults of its data base calls (\<open>ft k\<close> says that the
  \<open>k\<close>-th call fails), so that a theorem over all surroundings covers every failure of the driver. The
  name of a definition is the name in the code; a stage of a long function has a name of its own.

  \<^bold>\<open>Contracts.\<close> The interfaces are locales, and the model's own definitions interpret them:
  \<open>kv_contract\<close> and its extensions \<open>kv_reliable\<close> and \<open>kv_exact\<close> (values with a time to live), \<open>kv_queue\<close> and
  \<open>kv_queue_reliable\<close> (the retry queue), \<open>kv_counter\<close> (the limiter's counters), on \<open>MemStore\<close>, and through
  \<open>RedisStore_mem_redis\<close> on the Redis adapter; \<open>player_handler\<close> (a handler writes only the rows of its
  player and keeps the data base well formed) on the five handlers that write for a player. The
  sessions, the tokens, the limiter and the worker are proved over the contracts.

  \<^bold>\<open>What is shown.\<close>

  \<^item> Each handler that changes rows: a contract that an accepted request fulfils (\<open>pull_contract\<close>,
    \<open>vow_contract\<close>, the effect of a login, of an unlock), what a refused one leaves behind, that it
    succeeds when it should, and that it keeps \<open>db_ok\<close>.
  \<^item> The arithmetic: the accrual and the growth do not depend on how often they are asked for, the
    distribution of layers never overfills a slot, the rates and rarities of the vow agree with their
    integer reference, the audit in floating point agrees with the audit in integers for whole points.
  \<^item> Races: two growths on one anchor pay once, two unlocks insert one row, concurrent logins leave one
    live session while no critical section outlives its lock; the races that the code does lose are
    findings with a proved example.
  \<^item> The worker: its loops are \<open>partial_function\<close>s that are proved to end, a batch is its specification on
    the list of items, an outage is bounded, a recovery settles everything.
  \<^item> The loaders: the pool that loads can be drawn from, the configuration is accepted exactly when every
    key is there and in range, an older data base file comes out with every column and every row.
  \<^item> The whole program: it boots or refuses, a request changes only the rows of the player whose token or
    ticket it carries, the data base is well formed at every point of every interleaving, and the shutdown
    loses no accepted request unless its ten seconds run out.

  \<^bold>\<open>Bounds.\<close> No fuel is used. The recursions that are not structural (the CSV reader, the calendar walks)
  have a measure; \<open>batch_loop\<close> and \<open>drain\<close> end because each pop shortens the queue of a reliable store.

  \<^bold>\<open>Atomicity.\<close> In \<open>server_step\<close> and \<open>main_step\<close> a request is one step; the worker goes item by item. A
  transaction does run alone, as SQLite has one connection, but the statements of a login, an unlock or a
  state are not one transaction. Where their interleaving matters it is modelled on its own, call by call:
  \<open>SessionRace\<close> for the sessions, \<open>plan_growth\<close> and \<open>commit_growth\<close> for the growth, \<open>unlock_check\<close> and
  \<open>unlock_commit\<close> for the achievements, \<open>RetryProps\<close> for the queue and its rows.

  \<^bold>\<open>Not modelled.\<close> The text of the SQL statements: each is modelled on what it does to the tables of SQLite, and
  the adapters of the drivers on their own. The migrations of PostgreSQL are not Go. The file
  of \<open>Schema\<close> and the rows of \<open>database\<close> are two views of one data base, of its columns and of its values;
  the boot takes the rows as they are and lets the upgrade fail at will. Log lines,
  JSON encoding and the diagnostics ticker of the PostgreSQL mode have no effect on the state. Parameters
  stand for what is not code of the server: gin, the JWT library, RSA and SHA-256, the XML and JSON decoders,
  the HTTP client towards Steam, pgx, golang-migrate and go-redis, Unicode lower case. A panic in a
  handler is answered by \<open>Recovery\<close> and is not a step of its own.
\<close>

end
